(* ===== verification/WLS_Prelude.thy ===== *)
theory WLS_Prelude
  imports Main "HOL-Library.Word"
begin

text \<open>
  The prelude of the development: the result type of code that may throw, loops over such code,
  machine integer types, the interface of the \<open>fc\<close> support library, and the generic list lemmas
  that the component theories share.

  The library \<open>fc\<close> is a git submodule whose sources are not part of the repository.  What the
  program calls of it is therefore a parameter: a value of the record \<open>fc_lib\<close>, which every
  definition that depends on it takes as an argument \<open>F\<close>.  What the proofs rely on is the
  predicate \<open>fc_ok\<close>, the documented behaviour of \<open>fc::safe<int64_t>\<close> (an integer class that
  throws instead of overflowing) and of \<open>fc::uint128::to_uint64\<close>.
\<close>

section \<open>Exceptions and results\<close>

text \<open>
  One constructor per exception class that the modelled code throws or catches by name.  All
  uses of \<open>FC_ASSERT\<close> throw \<open>fc::assert_exception\<close>; a failed multi-index lookup throws
  \<open>std::out_of_range\<close> and a violated uniqueness constraint \<open>std::logic_error\<close> (chainbase.hpp).
  \<open>stream_failure\<close> is the exception of a file stream that cannot read what is asked of it.
  \<open>null_pointer\<close> is the use of a reference to no object and \<open>nontermination\<close> a loop that exceeds
  the bound of its model; neither is an exception of the source.
\<close>

datatype exc =
    assert_exception
  | overflow_exception
  | divide_by_zero_exception
  | out_of_range
  | logic_error
  | tx_missing_active_auth
  | tx_missing_owner_auth
  | tx_missing_posting_auth
  | tx_missing_other_auth
  | tx_irrelevant_sig
  | tx_duplicate_sig
  | transaction_tapos_exception
  | transaction_expiration_exception
  | unlinkable_block_exception
  | undo_database_exception
  | pop_empty_chain
  | unknown_hardfork_exception
  | block_log_exception
  | stream_failure
  | null_pointer
  | plugin_exception
  | parse_error_exception
  | nontermination

type_synonym 'a result = "exc + 'a"

definition ebind :: "'a result \<Rightarrow> ('a \<Rightarrow> 'b result) \<Rightarrow> 'b result" where
  "ebind m f = (case m of Inl e \<Rightarrow> Inl e | Inr x \<Rightarrow> f x)"

definition require :: "bool \<Rightarrow> 'a result \<Rightarrow> 'a result" where
  "require b m = (if b then m else Inl assert_exception)"

definition wls_assert :: "bool \<Rightarrow> exc \<Rightarrow> 'a result \<Rightarrow> 'a result" where
  "wls_assert b e m = (if b then m else Inl e)"

text \<open>A \<open>for\<close> loop whose body may throw: the first exception ends it.\<close>

fun efold :: "('x \<Rightarrow> 's \<Rightarrow> 's result) \<Rightarrow> 'x list \<Rightarrow> 's \<Rightarrow> 's result" where
  "efold f [] s = Inr s"
| "efold f (x # xs) s = ebind (f x s) (efold f xs)"

named_theorems result_simps \<open>rewriting of the result combinators\<close>

lemma ebind_simps [simp, result_simps]:
  "ebind (Inl e) f = Inl e"
  "ebind (Inr x) f = f x"
  by (simp_all add: ebind_def)

lemma ebind_eq_Inr [simp, result_simps]:
  "ebind m f = Inr y \<longleftrightarrow> (\<exists>x. m = Inr x \<and> f x = Inr y)"
  by (cases m) simp_all

lemma ebind_eq_Inl [result_simps]:
  "ebind m f = Inl e \<longleftrightarrow> m = Inl e \<or> (\<exists>x. m = Inr x \<and> f x = Inl e)"
  by (cases m) auto

lemma require_eq_Inr [simp, result_simps]: "require b m = Inr y \<longleftrightarrow> b \<and> m = Inr y"
  by (simp add: require_def)

lemma require_True [simp]: "require True m = m"
  by (simp add: require_def)

lemma require_False [simp]: "require False m = Inl assert_exception"
  by (simp add: require_def)

lemma wls_assert_eq_Inr [simp, result_simps]: "wls_assert b e m = Inr y \<longleftrightarrow> b \<and> m = Inr y"
  by (simp add: wls_assert_def)

lemma wls_assert_True [simp]: "wls_assert True e m = m"
  by (simp add: wls_assert_def)

lemma wls_assert_False [simp]: "wls_assert False e m = Inl e"
  by (simp add: wls_assert_def)

lemma ebind_assoc: "ebind (ebind m f) g = ebind m (\<lambda>x. ebind (f x) g)"
  by (cases m) simp_all

lemma efold_append: "efold f (xs @ ys) s = ebind (efold f xs s) (efold f ys)"
  by (induction xs arbitrary: s) (simp_all add: ebind_assoc ebind_def split: sum.split)

lemma efold_invariant:
  assumes "efold f xs s = Inr s'" and "P s"
    and "\<And>x s s'. x \<in> set xs \<Longrightarrow> P s \<Longrightarrow> f x s = Inr s' \<Longrightarrow> P s'"
  shows "P s'"
  using assms
proof (induction xs arbitrary: s)
  case Nil
  then show ?case by simp
next
  case (Cons x xs)
  from Cons.prems(1) obtain t where t: "f x s = Inr t" "efold f xs t = Inr s'" by auto
  have "P t" using Cons.prems(2,3) t(1) by auto
  then show ?case using Cons.IH [OF t(2)] Cons.prems(3) by auto
qed

lemma efold_related:
  assumes "efold f xs s = Inr s'" and "R s s"
    and "\<And>x t t'. x \<in> set xs \<Longrightarrow> R s t \<Longrightarrow> f x t = Inr t' \<Longrightarrow> R s t'"
  shows "R s s'"
  using efold_invariant [where P = "R s", OF assms(1,2)] assms(3) by blast

lemma efold_all:
  assumes "efold f xs s = Inr s'" and "P s"
    and "\<And>x s s'. x \<in> set xs \<Longrightarrow> P s \<Longrightarrow> f x s = Inr s' \<Longrightarrow> P s' \<and> Q x"
  shows "P s' \<and> (\<forall>x\<in>set xs. Q x)"
  using assms
proof (induction xs arbitrary: s)
  case Nil
  then show ?case by simp
next
  case (Cons x xs)
  from Cons.prems(1) obtain t where t: "f x s = Inr t" "efold f xs t = Inr s'" by auto
  have "P t \<and> Q x" using Cons.prems(2,3) t(1) by auto
  then show ?case using Cons.IH [OF t(2)] Cons.prems(3) by auto
qed

section \<open>A calculus for results\<close>

text \<open>
  \<open>yields m Q\<close>: if \<open>m\<close> does not throw, its result satisfies \<open>Q\<close>.  The rules \<open>wp\<close> follow the
  structure of a definition, so that \<open>intro wp\<close> reduces a statement about a long chain of calls
  to one goal per path, with the result of every call as a hypothesis.
\<close>

definition yields :: "'a result \<Rightarrow> ('a \<Rightarrow> bool) \<Rightarrow> bool" where
  "yields m Q \<longleftrightarrow> (\<forall>x. m = Inr x \<longrightarrow> Q x)"

named_theorems wp \<open>rules for the structure of results\<close>

lemma yieldsI: "(\<And>x. m = Inr x \<Longrightarrow> Q x) \<Longrightarrow> yields m Q"
  by (simp add: yields_def)

lemma yieldsD: "yields m Q \<Longrightarrow> m = Inr x \<Longrightarrow> Q x"
  by (simp add: yields_def)

lemma yields_mono: "yields m P \<Longrightarrow> (\<And>x. P x \<Longrightarrow> Q x) \<Longrightarrow> yields m Q"
  by (auto simp: yields_def)

lemma yields_seq: "yields m P \<Longrightarrow> (\<And>x. P x \<Longrightarrow> yields (f x) Q) \<Longrightarrow> yields (ebind m f) Q"
  by (auto simp: yields_def)

lemma yields_ebind [wp]: "(\<And>x. m = Inr x \<Longrightarrow> yields (f x) Q) \<Longrightarrow> yields (ebind m f) Q"
  by (auto simp: yields_def)

lemma yields_rules [wp]:
  "(b \<Longrightarrow> yields m Q) \<Longrightarrow> yields (require b m) Q"
  "(b \<Longrightarrow> yields m Q) \<Longrightarrow> yields (wls_assert b e m) Q"
  "(b \<Longrightarrow> yields m Q) \<Longrightarrow> (\<not> b \<Longrightarrow> yields n Q) \<Longrightarrow> yields (if b then m else n) Q"
  "Q x \<Longrightarrow> yields (Inr x) Q"
  "yields (Inl e) Q"
  by (auto simp: yields_def)

lemma yields_cases [wp]:
  "(\<And>a b. p = (a, b) \<Longrightarrow> yields (g a b) Q') \<Longrightarrow> yields (case p of (a, b) \<Rightarrow> g a b) Q'"
  "(v = None \<Longrightarrow> yields m Q') \<Longrightarrow> (\<And>x. v = Some x \<Longrightarrow> yields (h x) Q') \<Longrightarrow> yields (case v of None \<Rightarrow> m | Some x \<Rightarrow> h x) Q'"
  "yields (k y) Q' \<Longrightarrow> yields (Let y k) Q'"
  by (auto simp: yields_def split: prod.split option.split)

lemma yields_efold:
  assumes "P s" "\<And>x s. x \<in> set xs \<Longrightarrow> P s \<Longrightarrow> yields (f x s) P"
  shows "yields (efold f xs s) P"
  unfolding yields_def
proof (intro allI impI)
  fix t assume "efold f xs s = Inr t"
  then show "P t" using assms(1) by (rule efold_invariant [where P = P]) (auto dest: yieldsD [OF assms(2)])
qed

section \<open>Machine integers\<close>

type_synonym u8 = "8 word"
type_synonym u16 = "16 word"
type_synonym u32 = "32 word"
type_synonym u64 = "64 word"
type_synonym u128 = "128 word"

definition in64 :: "int \<Rightarrow> bool" where
  "in64 x \<longleftrightarrow> - (2 ^ 63) \<le> x \<and> x < 2 ^ 63"

text \<open>C++ integer division and remainder truncate towards zero.\<close>

definition tdiv :: "int \<Rightarrow> int \<Rightarrow> int" where
  "tdiv a b = sgn a * sgn b * (\<bar>a\<bar> div \<bar>b\<bar>)"

definition tmod :: "int \<Rightarrow> int \<Rightarrow> int" where
  "tmod a b = a - b * tdiv a b"

lemma tdiv_nonneg [simp]: "0 \<le> a \<Longrightarrow> 0 < b \<Longrightarrow> tdiv a b = a div b"
  by (cases "a = 0") (simp_all add: tdiv_def)

lemma tmod_nonneg [simp]: "0 \<le> a \<Longrightarrow> 0 < b \<Longrightarrow> tmod a b = a mod b"
  by (simp add: tmod_def minus_mult_div_eq_mod)

section \<open>The interface of the fc library\<close>

text \<open>
  \<open>fc_add\<close> to \<open>fc_neg\<close> are the operators of \<open>fc::safe<int64_t>\<close>; \<open>fc_to_uint64\<close> is the
  member of \<open>fc::uint128\<close>; \<open>boost_find_msb\<close> is \<open>boost::multiprecision::detail::find_msb\<close>, the
  index of the most significant set bit; the others are the free functions of the same names.
\<close>

record fc_lib =
  fc_add :: "int \<Rightarrow> int \<Rightarrow> int result"
  fc_sub :: "int \<Rightarrow> int \<Rightarrow> int result"
  fc_mul :: "int \<Rightarrow> int \<Rightarrow> int result"
  fc_div :: "int \<Rightarrow> int \<Rightarrow> int result"
  fc_mod :: "int \<Rightarrow> int \<Rightarrow> int result"
  fc_neg :: "int \<Rightarrow> int result"
  fc_to_uint64 :: "u128 \<Rightarrow> u64 result"
  fc_is_utf8 :: "string \<Rightarrow> bool"
  fc_json_is_valid :: "string \<Rightarrow> bool"
  boost_find_msb :: "u64 \<Rightarrow> nat"

text \<open>\<open>checks f v ok\<close>: the operator returns \<open>v\<close> when the condition holds and throws otherwise.\<close>

definition checks :: "'a result \<Rightarrow> 'a \<Rightarrow> bool \<Rightarrow> bool" where
  "checks r v ok \<longleftrightarrow> (if ok then r = Inr v else (\<exists>e. r = Inl e))"

lemma checks_eq_Inr: "checks r v ok \<Longrightarrow> r = Inr c \<longleftrightarrow> c = v \<and> ok"
  by (auto simp: checks_def split: if_splits)

definition fc_ok :: "fc_lib \<Rightarrow> bool" where
  "fc_ok F \<longleftrightarrow>
     (\<forall>a b. checks (fc_add F a b) (a + b) (in64 (a + b)))
   \<and> (\<forall>a b. checks (fc_sub F a b) (a - b) (in64 (a - b)))
   \<and> (\<forall>a b. checks (fc_mul F a b) (a * b) (in64 (a * b)))
   \<and> (\<forall>a b. checks (fc_div F a b) (tdiv a b) (b \<noteq> 0 \<and> in64 (tdiv a b)))
   \<and> (\<forall>a b. checks (fc_mod F a b) (tmod a b) (b \<noteq> 0 \<and> in64 (tdiv a b)))
   \<and> (\<forall>a. checks (fc_neg F a) (- a) (in64 (- a)))
   \<and> (\<forall>w. checks (fc_to_uint64 F w) (ucast w) (unat w < 2 ^ 64))
   \<and> (\<forall>x. x \<noteq> 0 \<longrightarrow> 2 ^ boost_find_msb F x \<le> unat x \<and> unat x < 2 ^ (boost_find_msb F x + 1))"

text \<open>
  A concrete library with that behaviour, so that the hypothesis can be met and definitions can
  be evaluated.
\<close>

fun msb_nat :: "nat \<Rightarrow> nat" where
  "msb_nat n = (if n \<le> 1 then 0 else Suc (msb_nat (n div 2)))"

declare msb_nat.simps [simp del]

lemma msb_nat_bounds: "0 < n \<Longrightarrow> 2 ^ msb_nat n \<le> n \<and> n < 2 ^ (msb_nat n + 1)"
proof (induction n rule: msb_nat.induct)
  case (1 n)
  show ?case
  proof (cases "n \<le> 1")
    case True
    then have "n = 1" using 1(2) by simp
    then show ?thesis by (simp add: msb_nat.simps)
  next
    case False
    then have "2 ^ msb_nat (n div 2) \<le> n div 2 \<and> n div 2 < 2 ^ (msb_nat (n div 2) + 1)" using 1(1) by simp
    then show ?thesis using False by (simp add: msb_nat.simps [of n]) linarith
  qed
qed

definition fc_int64 :: fc_lib where
  "fc_int64 = \<lparr>
     fc_add = (\<lambda>a b. if in64 (a + b) then Inr (a + b) else Inl overflow_exception),
     fc_sub = (\<lambda>a b. if in64 (a - b) then Inr (a - b) else Inl overflow_exception),
     fc_mul = (\<lambda>a b. if in64 (a * b) then Inr (a * b) else Inl overflow_exception),
     fc_div = (\<lambda>a b. if b \<noteq> 0 \<and> in64 (tdiv a b) then Inr (tdiv a b) else Inl divide_by_zero_exception),
     fc_mod = (\<lambda>a b. if b \<noteq> 0 \<and> in64 (tdiv a b) then Inr (tmod a b) else Inl divide_by_zero_exception),
     fc_neg = (\<lambda>a. if in64 (- a) then Inr (- a) else Inl overflow_exception),
     fc_to_uint64 = (\<lambda>w. if uint w < 2 ^ 64 then Inr (ucast w) else Inl assert_exception),
     fc_is_utf8 = (\<lambda>s. True),
     fc_json_is_valid = (\<lambda>s. True),
     boost_find_msb = (\<lambda>x. msb_nat (unat x)) \<rparr>"

lemma uint_less_unat: "uint (w :: 'a::len word) < 2 ^ n \<longleftrightarrow> unat w < 2 ^ n"
proof -
  have "uint w < int (2 ^ n) \<longleftrightarrow> unat w < 2 ^ n" unfolding uint_nat by (rule of_nat_less_iff)
  then show ?thesis by (simp only: of_nat_power of_nat_numeral)
qed

lemma fc_ok_int64: "fc_ok fc_int64"
  using msb_nat_bounds unfolding fc_ok_def checks_def fc_int64_def uint_less_unat
  by (simp add: unat_gt_0)

text \<open>
  The contract as a locale: the component theories prove their lemmas about checked arithmetic
  inside it, and the properties instantiate them from the hypothesis \<open>fc_ok F\<close>.
\<close>

locale fc_env =
  fixes F :: fc_lib
  assumes fc: "fc_ok F"
begin

lemma fc_add_Inr [simp]: "fc_add F a b = Inr c \<longleftrightarrow> c = a + b \<and> in64 (a + b)"
  by (rule checks_eq_Inr) (use fc in \<open>simp add: fc_ok_def\<close>)

lemma fc_sub_Inr [simp]: "fc_sub F a b = Inr c \<longleftrightarrow> c = a - b \<and> in64 (a - b)"
  by (rule checks_eq_Inr) (use fc in \<open>simp add: fc_ok_def\<close>)

lemma fc_mul_Inr [simp]: "fc_mul F a b = Inr c \<longleftrightarrow> c = a * b \<and> in64 (a * b)"
  by (rule checks_eq_Inr) (use fc in \<open>simp add: fc_ok_def\<close>)

lemma fc_div_Inr [simp]:
  "fc_div F a b = Inr c \<longleftrightarrow> c = tdiv a b \<and> b \<noteq> 0 \<and> in64 (tdiv a b)"
  by (rule checks_eq_Inr) (use fc in \<open>simp add: fc_ok_def\<close>)

lemma fc_mod_Inr [simp]:
  "fc_mod F a b = Inr c \<longleftrightarrow> c = tmod a b \<and> b \<noteq> 0 \<and> in64 (tdiv a b)"
  by (rule checks_eq_Inr) (use fc in \<open>simp add: fc_ok_def\<close>)

lemma fc_neg_Inr [simp]: "fc_neg F a = Inr c \<longleftrightarrow> c = - a \<and> in64 (- a)"
  by (rule checks_eq_Inr) (use fc in \<open>simp add: fc_ok_def\<close>)

lemma fc_to_uint64_Inr [simp]: "fc_to_uint64 F w = Inr v \<longleftrightarrow> v = ucast w \<and> unat w < 2 ^ 64"
  by (rule checks_eq_Inr) (use fc in \<open>simp add: fc_ok_def\<close>)

lemma find_msb_bounds:
  "x \<noteq> 0 \<Longrightarrow> 2 ^ boost_find_msb F x \<le> unat x \<and> unat x < 2 ^ (boost_find_msb F x + 1)"
  using fc by (simp add: fc_ok_def)

end

interpretation fc64: fc_env fc_int64
  by unfold_locales (rule fc_ok_int64)

section \<open>Lists\<close>

lemma sum_list_map_update:
  fixes f :: "'a \<Rightarrow> int"
  assumes "i < length xs"
  shows "sum_list (map f (xs[i := y])) = sum_list (map f xs) - f (xs ! i) + f y"
  using assms by (induction xs arbitrary: i) (auto simp: nth_Cons split: nat.splits)

lemma sum_list_nonneg_member:
  fixes f :: "'a \<Rightarrow> int"
  assumes "\<forall>x\<in>set xs. 0 \<le> f x" and "y \<in> set xs"
  shows "f y \<le> sum_list (map f xs)"
proof -
  from assms(2) obtain us vs where xs: "xs = us @ y # vs"
    by (auto simp: in_set_conv_decomp)
  have "0 \<le> sum_list (map f us)" "0 \<le> sum_list (map f vs)"
    using assms(1) xs by (auto intro!: sum_list_nonneg)
  then show ?thesis by (simp add: xs)
qed

end
