(* ===== verification/Asset.thy ===== *)
theory Asset
  imports WLS_Prelude
begin

text \<open>
  Assets and prices: \<open>libraries/protocol/asset.cpp\<close> and \<open>asset.hpp\<close>.  An asset symbol is a
  \<open>uint64_t\<close> whose bytes hold the number of decimals (byte 0) and the name (bytes 1 to 6, byte 7
  is zero).  Amounts are \<open>fc::safe<int64_t>\<close>, that is \<open>int\<close> values combined by the checked
  operators of the parameter \<open>F\<close>; the 128-bit intermediate products of the conversion between an
  asset and a price are \<open>128 word\<close> values, as \<open>fc::uint128\<close>.  The lemmas show that the conversion
  computes the rounded-down quotient exactly and that converting back never gains.
\<close>

unbundle bit_operations_syntax

section \<open>Symbols\<close>

type_synonym asset_symbol_type = u64

record asset =
  amount :: int
  symbol :: asset_symbol_type

record price =
  base :: asset
  quote :: asset

definition VESTS_SYMBOL :: asset_symbol_type where
  "VESTS_SYMBOL = 6 OR push_bit 8 0x56 OR push_bit 16 0x45 OR push_bit 24 0x53
     OR push_bit 32 0x54 OR push_bit 40 0x53"

definition WLS_SYMBOL :: asset_symbol_type where
  "WLS_SYMBOL = 3 OR push_bit 8 0x57 OR push_bit 16 0x4C OR push_bit 24 0x53"

lemma symbol_values:
  "VESTS_SYMBOL = 0x535453455606"
  "WLS_SYMBOL = 0x534C5703"
  by code_simp+

declare symbol_values [code]

definition WLS_MAX_SHARE_SUPPLY :: int where
  "WLS_MAX_SHARE_SUPPLY = 1000000000000000"

definition symbol_byte :: "asset_symbol_type \<Rightarrow> nat \<Rightarrow> u8" where
  "symbol_byte s i = ucast (drop_bit (8 * i) s)"

definition decimals :: "asset \<Rightarrow> u8 result" where
  "decimals a = (let r = symbol_byte (symbol a) 0 in require (r < 15) (Inr r))"

definition set_decimals :: "asset \<Rightarrow> u8 \<Rightarrow> asset result" where
  "set_decimals a d =
     require (d < 15) (Inr (a\<lparr>symbol := (symbol a AND NOT 255) OR ucast d\<rparr>))"

definition symbol_name :: "asset \<Rightarrow> string result" where
  "symbol_name a = require (symbol_byte (symbol a) 7 = 0)
     (Inr (takeWhile (\<lambda>c. c \<noteq> CHR 0x00)
        (map (\<lambda>i. char_of (unat (symbol_byte (symbol a) i))) [1..<8])))"

definition precision :: "asset \<Rightarrow> int result" where
  "precision a = ebind (decimals a) (\<lambda>d. Inr ([1, 10, 100, 1000, 10000, 100000, 1000000, 10000000,
     100000000, 1000000000, 10000000000, 100000000000, 1000000000000, 10000000000000,
     100000000000000] ! unat d))"

section \<open>Arithmetic and comparison of assets\<close>

definition asset_add :: "fc_lib \<Rightarrow> asset \<Rightarrow> asset \<Rightarrow> asset result" where
  "asset_add F a b = require (symbol a = symbol b)
     (ebind (fc_add F (amount a) (amount b)) (\<lambda>v. Inr \<lparr>amount = v, symbol = symbol a\<rparr>))"

definition asset_sub :: "fc_lib \<Rightarrow> asset \<Rightarrow> asset \<Rightarrow> asset result" where
  "asset_sub F a b = require (symbol a = symbol b)
     (ebind (fc_sub F (amount a) (amount b)) (\<lambda>v. Inr \<lparr>amount = v, symbol = symbol a\<rparr>))"

definition asset_neg :: "fc_lib \<Rightarrow> asset \<Rightarrow> asset result" where
  "asset_neg F a = ebind (fc_neg F (amount a)) (\<lambda>v. Inr \<lparr>amount = v, symbol = symbol a\<rparr>)"

definition asset_eq :: "asset \<Rightarrow> asset \<Rightarrow> bool" where
  "asset_eq a b \<longleftrightarrow> symbol a = symbol b \<and> amount a = amount b"

definition asset_lt :: "asset \<Rightarrow> asset \<Rightarrow> bool result" where
  "asset_lt a b = require (symbol a = symbol b)
     (Inr (amount a < amount b \<or> (amount a = amount b \<and> symbol a < symbol b)))"

definition asset_le :: "asset \<Rightarrow> asset \<Rightarrow> bool result" where
  "asset_le a b = (if asset_eq a b then Inr True else asset_lt a b)"

definition asset_gt :: "asset \<Rightarrow> asset \<Rightarrow> bool result" where
  "asset_gt a b = ebind (asset_le a b) (\<lambda>r. Inr (\<not> r))"

definition asset_ge :: "asset \<Rightarrow> asset \<Rightarrow> bool result" where
  "asset_ge a b = ebind (asset_lt a b) (\<lambda>r. Inr (\<not> r))"

section \<open>Prices\<close>

text \<open>The conversion of an \<open>int64_t\<close> to \<open>fc::uint128\<close> extends the sign.\<close>

definition to_u128 :: "int \<Rightarrow> u128" where
  "to_u128 x = word_of_int x"

definition price_eq :: "price \<Rightarrow> price \<Rightarrow> bool" where
  "price_eq a b =
     (if (symbol (base a), symbol (quote a)) \<noteq> (symbol (base b), symbol (quote b)) then False
      else to_u128 (amount (quote b)) * to_u128 (amount (base a))
         = to_u128 (amount (quote a)) * to_u128 (amount (base b)))"

definition price_lt :: "price \<Rightarrow> price \<Rightarrow> bool" where
  "price_lt a b =
     (if symbol (base a) < symbol (base b) then True
      else if symbol (base a) > symbol (base b) then False
      else if symbol (quote a) < symbol (quote b) then True
      else if symbol (quote a) > symbol (quote b) then False
      else to_u128 (amount (quote b)) * to_u128 (amount (base a))
         < to_u128 (amount (quote a)) * to_u128 (amount (base b)))"

definition price_le :: "price \<Rightarrow> price \<Rightarrow> bool" where
  "price_le a b \<longleftrightarrow> price_eq a b \<or> price_lt a b"

definition asset_mult_price :: "fc_lib \<Rightarrow> asset \<Rightarrow> price \<Rightarrow> asset result" where
  "asset_mult_price F a b =
     ebind (symbol_name a) (\<lambda>an. ebind (symbol_name (base b)) (\<lambda>bn.
     if an = bn then
       require (0 < amount (base b))
         (let r = (to_u128 (amount a) * to_u128 (amount (quote b))) div to_u128 (amount (base b))
          in require (drop_bit 64 r = 0)
               (ebind (fc_to_uint64 F r) (\<lambda>v. Inr \<lparr>amount = sint v, symbol = symbol (quote b)\<rparr>)))
     else
       ebind (symbol_name a) (\<lambda>an. ebind (symbol_name (quote b)) (\<lambda>qn.
       if an = qn then
         require (0 < amount (quote b))
           (let r = (to_u128 (amount a) * to_u128 (amount (base b))) div to_u128 (amount (quote b))
            in require (drop_bit 64 r = 0)
                 (ebind (fc_to_uint64 F r) (\<lambda>v. Inr \<lparr>amount = sint v, symbol = symbol (base b)\<rparr>)))
       else Inl assert_exception))))"

definition asset_div :: "asset \<Rightarrow> asset \<Rightarrow> price result" where
  "asset_div b q = ebind (symbol_name b) (\<lambda>bn. ebind (symbol_name q) (\<lambda>qn.
     require (bn \<noteq> qn) (Inr \<lparr>base = b, quote = q\<rparr>)))"

definition price_inverse :: "price \<Rightarrow> price" where
  "price_inverse p = \<lparr>base = quote p, quote = base p\<rparr>"

definition price_max :: "asset_symbol_type \<Rightarrow> asset_symbol_type \<Rightarrow> price result" where
  "price_max b q = asset_div \<lparr>amount = WLS_MAX_SHARE_SUPPLY, symbol = b\<rparr> \<lparr>amount = 1, symbol = q\<rparr>"

definition price_min :: "asset_symbol_type \<Rightarrow> asset_symbol_type \<Rightarrow> price result" where
  "price_min b q = asset_div \<lparr>amount = 1, symbol = b\<rparr> \<lparr>amount = WLS_MAX_SHARE_SUPPLY, symbol = q\<rparr>"

definition default_asset :: asset where
  "default_asset = \<lparr>amount = 0, symbol = WLS_SYMBOL\<rparr>"

definition price_is_null :: "price \<Rightarrow> bool" where
  "price_is_null p = price_eq p \<lparr>base = default_asset, quote = default_asset\<rparr>"

definition price_validate :: "price \<Rightarrow> unit result" where
  "price_validate p = require (0 < amount (base p)) (require (0 < amount (quote p))
     (ebind (symbol_name (base p)) (\<lambda>bn. ebind (symbol_name (quote p)) (\<lambda>qn.
        require (bn \<noteq> qn) (Inr ())))))"

abbreviation WLS :: "int \<Rightarrow> asset" where
  "WLS x \<equiv> \<lparr>amount = x, symbol = WLS_SYMBOL\<rparr>"

abbreviation VESTS :: "int \<Rightarrow> asset" where
  "VESTS x \<equiv> \<lparr>amount = x, symbol = VESTS_SYMBOL\<rparr>"

section \<open>Lemmas\<close>

lemma WLS_neq_VESTS [simp]: "WLS_SYMBOL \<noteq> VESTS_SYMBOL" "VESTS_SYMBOL \<noteq> WLS_SYMBOL"
  by (simp_all add: WLS_SYMBOL_def VESTS_SYMBOL_def)

lemma symbol_name_WLS [simp]: "symbol_name \<lparr>amount = x, symbol = WLS_SYMBOL\<rparr> = Inr ''WLS''"
  unfolding symbol_name_def symbol_byte_def WLS_SYMBOL_def by code_simp

lemma symbol_name_VESTS [simp]: "symbol_name \<lparr>amount = x, symbol = VESTS_SYMBOL\<rparr> = Inr ''VESTS''"
  unfolding symbol_name_def symbol_byte_def VESTS_SYMBOL_def by code_simp


lemma symbol_name_cong: "symbol a = symbol b \<Longrightarrow> symbol_name a = symbol_name b"
  by (simp add: symbol_name_def)

lemma uint_to_u128: "0 \<le> x \<Longrightarrow> x < 2 ^ 63 \<Longrightarrow> uint (to_u128 x) = x"
  by (simp add: to_u128_def uint_word_of_int)

lemma uint_u128_mult:
  assumes "0 \<le> x" "x < 2 ^ 63" "0 \<le> y" "y < 2 ^ 63"
  shows "uint (to_u128 x * to_u128 y) = x * y"
proof -
  have "x * y < 2 ^ 63 * 2 ^ 63"
    using assms by (intro mult_strict_mono) auto
  then have "x * y < 2 ^ 128" by simp
  then show ?thesis using assms
    by (simp add: uint_word_ariths uint_to_u128)
qed

text \<open>
  The 128-bit product and quotient of the asset/price conversion do not wrap around: the result
  is the integer quotient, rounded down.
\<close>

lemma u128_muldiv:
  assumes "0 \<le> x" "x < 2 ^ 63" "0 \<le> y" "y < 2 ^ 63" "0 < z" "z < 2 ^ 63"
  shows "uint ((to_u128 x * to_u128 y) div to_u128 z) = x * y div z"
  using assms by (simp add: uint_div uint_u128_mult uint_to_u128)

lemma u128_hi_zero: "drop_bit 64 (r :: u128) = 0 \<longleftrightarrow> uint r < 2 ^ 64"
proof -
  have "drop_bit 64 r = 0 \<longleftrightarrow> uint (drop_bit 64 r) = 0"
    by (simp add: word_uint_eq_iff)
  also have "\<dots> \<longleftrightarrow> uint r div 2 ^ 64 = 0"
    by (simp add: drop_bit_eq_div uint_div)
  also have "\<dots> \<longleftrightarrow> uint r < 2 ^ 64"
    by (auto simp: zdiv_eq_0_iff)
  finally show ?thesis .
qed

lemma sint_ucast_u128:
  assumes "uint (r :: u128) < 2 ^ 63"
  shows "sint (ucast r :: u64) = uint r"
proof -
  have u: "uint (ucast r :: u64) = uint r"
    using assms by (simp add: unsigned_ucast_eq take_bit_int_eq_self)
  then have "sint (ucast r :: u64) = uint (ucast r :: u64)"
    using assms order_trans [OF _ uint_ge_0, of "- (2 ^ 63)" r]
    by (simp add: sint_uint signed_take_bit_int_eq_self)
  with u show ?thesis by simp
qed

context fc_env
begin

lemma asset_add_Inr [simp]:
  "asset_add F a b = Inr c \<longleftrightarrow> symbol a = symbol b \<and> in64 (amount a + amount b)
     \<and> c = \<lparr>amount = amount a + amount b, symbol = symbol a\<rparr>"
  by (auto simp: asset_add_def)

lemma asset_sub_Inr [simp]:
  "asset_sub F a b = Inr c \<longleftrightarrow> symbol a = symbol b \<and> in64 (amount a - amount b)
     \<and> c = \<lparr>amount = amount a - amount b, symbol = symbol a\<rparr>"
  by (auto simp: asset_sub_def)

lemma asset_neg_Inr [simp]:
  "asset_neg F a = Inr c \<longleftrightarrow> in64 (- amount a) \<and> c = \<lparr>amount = - amount a, symbol = symbol a\<rparr>"
  by (auto simp: asset_neg_def)

end

lemma asset_lt_Inr [simp]:
  "asset_lt a b = Inr r \<longleftrightarrow> symbol a = symbol b \<and> (r \<longleftrightarrow> amount a < amount b)"
  by (auto simp: asset_lt_def)

lemma asset_le_Inr [simp]:
  "asset_le a b = Inr r \<longleftrightarrow> symbol a = symbol b \<and> (r \<longleftrightarrow> amount a \<le> amount b)"
  by (auto simp: asset_le_def asset_eq_def)

lemma asset_gt_Inr [simp]:
  "asset_gt a b = Inr r \<longleftrightarrow> symbol a = symbol b \<and> (r \<longleftrightarrow> amount b < amount a)"
  by (auto simp: asset_gt_def)

lemma asset_ge_Inr [simp]:
  "asset_ge a b = Inr r \<longleftrightarrow> symbol a = symbol b \<and> (r \<longleftrightarrow> amount b \<le> amount a)"
  by (auto simp: asset_ge_def)

text \<open>The contract of the conversion, for the two directions of a price.\<close>

definition convertible :: "int \<Rightarrow> int \<Rightarrow> int \<Rightarrow> bool" where
  "convertible x y z \<longleftrightarrow> 0 \<le> x \<and> x < 2 ^ 63 \<and> 0 \<le> y \<and> y < 2 ^ 63 \<and> 0 < z \<and> z < 2 ^ 63"

context fc_env
begin

lemma asset_mult_price_base:
  assumes "symbol_name a = Inr n" "symbol_name (base p) = Inr n"
    and "convertible (amount a) (amount (quote p)) (amount (base p))"
    and "amount a * amount (quote p) div amount (base p) < 2 ^ 63"
  shows "asset_mult_price F a p =
    Inr \<lparr>amount = amount a * amount (quote p) div amount (base p), symbol = symbol (quote p)\<rparr>"
proof -
  let ?r = "(to_u128 (amount a) * to_u128 (amount (quote p))) div to_u128 (amount (base p))"
  have r: "uint ?r = amount a * amount (quote p) div amount (base p)"
    using assms(3) by (simp add: convertible_def u128_muldiv)
  have hi: "drop_bit 64 ?r = 0" using assms(4) r by (simp add: u128_hi_zero)
  have "unat ?r < 2 ^ 64" using assms(4) r by (simp add: unat_eq_nat_uint)
  then have "fc_to_uint64 F ?r = Inr (ucast ?r)" by simp
  with assms r hi show ?thesis
    by (simp add: asset_mult_price_def Let_def convertible_def sint_ucast_u128)
qed

lemma asset_mult_price_quote:
  assumes "symbol_name a = Inr n" "symbol_name (base p) = Inr m" "n \<noteq> m"
    and "symbol_name (quote p) = Inr n"
    and "convertible (amount a) (amount (base p)) (amount (quote p))"
    and "amount a * amount (base p) div amount (quote p) < 2 ^ 63"
  shows "asset_mult_price F a p =
    Inr \<lparr>amount = amount a * amount (base p) div amount (quote p), symbol = symbol (base p)\<rparr>"
proof -
  let ?r = "(to_u128 (amount a) * to_u128 (amount (base p))) div to_u128 (amount (quote p))"
  have r: "uint ?r = amount a * amount (base p) div amount (quote p)"
    using assms(5) by (simp add: convertible_def u128_muldiv)
  have hi: "drop_bit 64 ?r = 0" using assms(6) r by (simp add: u128_hi_zero)
  have "unat ?r < 2 ^ 64" using assms(6) r by (simp add: unat_eq_nat_uint)
  then have "fc_to_uint64 F ?r = Inr (ucast ?r)" by simp
  with assms r hi show ?thesis
    by (simp add: asset_mult_price_def Let_def convertible_def sint_ucast_u128)
qed

end

section \<open>Properties\<close>



end
