(* ===== verification/Version.thy ===== *)
theory Version
  imports WLS_Prelude
begin

text \<open>
  Version numbers: \<open>libraries/protocol/version.cpp\<close> and \<open>version.hpp\<close>.  A version packs major,
  hardfork and release numbers into a \<open>uint32_t\<close>; hardfork versions drop the release number.  The
  text form is written and read with \<open>std::stringstream\<close>, whose formatted input of an unsigned
  number and of a character is modelled on the remaining input and the two state bits.
\<close>

unbundle bit_operations_syntax

section \<open>Versions\<close>

type_synonym version = u32
type_synonym hardfork_version = u32

definition version_of :: "u8 \<Rightarrow> u8 \<Rightarrow> u16 \<Rightarrow> version" where
  "version_of m h r =
     (let v_num = push_bit 8 (0 OR ucast m :: u32);
          v_num = push_bit 16 (v_num OR ucast h)
      in v_num OR ucast r)"

definition to_hardfork_version :: "version \<Rightarrow> hardfork_version" where
  "to_hardfork_version v = v AND 0xFFFF0000"

definition hardfork_version_of :: "u8 \<Rightarrow> u8 \<Rightarrow> hardfork_version" where
  "hardfork_version_of m h = version_of m h 0"

definition hf_eq_version :: "hardfork_version \<Rightarrow> version \<Rightarrow> bool" where
  "hf_eq_version hv v \<longleftrightarrow> hv = v AND 0xFFFF0000"

definition hf_lt_version :: "hardfork_version \<Rightarrow> version \<Rightarrow> bool" where
  "hf_lt_version hv v \<longleftrightarrow> hv < v AND 0xFFFF0000"

record hardfork_version_vote =
  hf_version :: hardfork_version
  hf_time :: u32

section \<open>Text form\<close>

fun dec :: "nat \<Rightarrow> string" where
  "dec n = (if n < 10 then [char_of (48 + n)] else dec (n div 10) @ [char_of (48 + n mod 10)])"

definition version_string :: "version \<Rightarrow> string" where
  "version_string v =
     dec (unat (drop_bit 24 v AND 0xFF)) @ ''.'' @ dec (unat (drop_bit 16 v AND 0xFF)) @ ''.''
       @ dec (unat (v AND 0xFFFF))"

record istream =
  input :: string
  failbit :: bool
  eofbit :: bool

definition is_space :: "char \<Rightarrow> bool" where
  "is_space c \<longleftrightarrow> of_char c \<in> {9, 10, 11, 12, 13, 32 :: nat}"

definition is_digit :: "char \<Rightarrow> bool" where
  "is_digit c \<longleftrightarrow> 48 \<le> (of_char c :: nat) \<and> (of_char c :: nat) \<le> 57"

definition digits_value :: "string \<Rightarrow> nat" where
  "digits_value ds = fold (\<lambda>c n. 10 * n + (of_char c - 48)) ds 0"

text \<open>
  \<open>operator>>(uint32_t&)\<close>: white space, a sign, digits; a value that does not fit sets \<open>failbit\<close>
  and stores the largest number; no digits store zero.  A stream that has failed, or has reached
  its end before the extraction, leaves the variable alone (\<open>old\<close>).
\<close>

definition read_u32 :: "u32 \<Rightarrow> istream \<Rightarrow> u32 \<times> istream" where
  "read_u32 old s =
     (if failbit s \<or> eofbit s then (old, s\<lparr>failbit := True\<rparr>)
      else
       (let rest = dropWhile is_space (input s) in
        if rest = [] then (old, \<lparr>input = [], failbit = True, eofbit = True\<rparr>)
        else
         (let neg = (hd rest = CHR ''-'');
              body = (if hd rest \<in> {CHR ''-'', CHR ''+''} then tl rest else rest);
              ds = takeWhile is_digit body;
              left = dropWhile is_digit body;
              v = digits_value ds
          in if ds = [] then (0, \<lparr>input = left, failbit = True, eofbit = (left = [])\<rparr>)
             else if v \<ge> 2 ^ 32 then (- 1, \<lparr>input = left, failbit = True, eofbit = (left = [])\<rparr>)
             else ((if neg then - of_nat v else of_nat v),
                   \<lparr>input = left, failbit = False, eofbit = (left = [])\<rparr>))))"

definition read_char :: "char \<Rightarrow> istream \<Rightarrow> char \<times> istream" where
  "read_char old s =
     (if failbit s \<or> eofbit s then (old, s\<lparr>failbit := True\<rparr>)
      else
       (case dropWhile is_space (input s) of
          [] \<Rightarrow> (old, \<lparr>input = [], failbit = True, eofbit = True\<rparr>)
        | c # left \<Rightarrow> (c, s\<lparr>input := left\<rparr>)))"

definition version_from_variant :: "string \<Rightarrow> version result" where
  "version_from_variant str =
     (let s = \<lparr>input = str, failbit = False, eofbit = False\<rparr>;
          (major, s) = read_u32 0 s;
          (dot_a, s) = read_char (CHR 0x00) s;
          (hardfork, s) = read_u32 0 s;
          (dot_b, s) = read_char (CHR 0x00) s;
          (release, s) = read_u32 0 s
      in require ((dot_a = CHR ''.'' \<or> dot_a = CHR ''_'') \<and> dot_a = dot_b)
        (require (major \<le> 0xFF) (require (hardfork \<le> 0xFF) (require (release \<le> 0xFFFF)
        (require (eofbit s)
        (Inr (0 OR push_bit 24 major OR push_bit 16 hardfork OR release)))))))"

definition hardfork_version_from_variant :: "string \<Rightarrow> hardfork_version result" where
  "hardfork_version_from_variant str =
     ebind (version_from_variant str) (\<lambda>ver. Inr (ver AND 0xffff0000))"

section \<open>Lemmas\<close>

declare dec.simps [simp del]

lemma digits_value_append: "digits_value (xs @ [c]) = 10 * digits_value xs + (of_char c - 48)"
  by (simp add: digits_value_def)

lemma dec_digits: "dec n \<noteq> [] \<and> (\<forall>c\<in>set (dec n). is_digit c) \<and> digits_value (dec n) = n"
proof (induction n rule: dec.induct)
  case (1 n)
  have d: "is_digit (char_of (48 + k :: nat)) \<and> of_char (char_of (48 + k :: nat)) - 48 = k" if "k < 10" for k :: nat
    using that by (simp add: is_digit_def)
  show ?case
  proof (cases "n < 10")
    case True
    then show ?thesis using d [of n] by (simp add: dec.simps [of n] digits_value_def)
  next
    case False
    then show ?thesis using d [of "n mod 10"] 1 by (auto simp: dec.simps [of n] digits_value_append)
  qed
qed

lemma digit_not_space: "is_digit c \<Longrightarrow> \<not> is_space c \<and> c \<noteq> CHR ''-'' \<and> c \<noteq> CHR ''+''"
  by (auto simp: is_digit_def is_space_def)

lemma read_dec:
  assumes "n < 2 ^ 32" "rest = [] \<or> \<not> is_digit (hd rest)"
  shows "read_u32 old \<lparr>input = dec n @ rest, failbit = False, eofbit = False\<rparr>
    = (of_nat n, \<lparr>input = rest, failbit = False, eofbit = (rest = [])\<rparr>)"
proof -
  obtain c ds where c: "dec n = c # ds" using dec_digits by (cases "dec n") auto
  have dig: "is_digit c" "\<forall>x\<in>set (dec n). is_digit x" using dec_digits [of n] c by auto
  have tw: "takeWhile is_digit (dec n @ rest) = dec n" "dropWhile is_digit (dec n @ rest) = rest"
    using dig(2) assms(2) by (cases rest; simp add: takeWhile_append2 dropWhile_append2)+
  have "dropWhile is_space (dec n @ rest) = dec n @ rest"
    using digit_not_space [OF dig(1)] c by simp
  then show ?thesis
    using digit_not_space [OF dig(1)] tw dec_digits [of n] assms(1) c
    by (simp add: read_u32_def Let_def)
qed

lemma read_dot:
  "read_char old \<lparr>input = CHR ''.'' # rest, failbit = False, eofbit = False\<rparr>
    = (CHR ''.'', \<lparr>input = rest, failbit = False, eofbit = False\<rparr>)"
  by (simp add: read_char_def is_space_def)

lemma mask_numerals: "(0xFF :: u32) = mask 8" "(0xFFFF :: u32) = mask 16" "(0xFFFF0000 :: u32) = push_bit 16 (mask 16)"
  by (simp_all add: mask_eq_exp_minus_1)

lemma version_parts:
  "drop_bit 24 v AND 0xFF \<le> (0xFF :: u32)" "drop_bit 16 v AND 0xFF \<le> (0xFF :: u32)"
  "v AND 0xFFFF \<le> (0xFFFF :: u32)"
  by (simp_all add: word_and_le1)

lemma version_join:
  "(0 OR push_bit 24 (drop_bit 24 v AND 0xFF) OR push_bit 16 (drop_bit 16 v AND 0xFF) OR (v AND 0xFFFF) :: u32) = v"
proof (unfold mask_numerals, rule bit_word_eqI)
  fix n assume "n < LENGTH(32)"
  then show "bit (0 OR push_bit 24 (drop_bit 24 v AND mask 8) OR push_bit 16 (drop_bit 16 v AND mask 8)
      OR v AND mask 16) n \<longleftrightarrow> bit v n"
    by (cases "n < 24") (auto simp: bit_simps)
qed

lemma unat_u32: "unat (w :: u32) < 2 ^ 32"
  using unsigned_less [of w] by simp

text \<open>
  Printing a version and reading the text back gives the same version, for all 2^32 of them.
\<close>

theorem version_roundtrip: "version_from_variant (version_string v) = Inr v"
proof -
  note R = read_dec [where old = 0]
  have s: "version_from_variant (version_string v) =
    (let p = (drop_bit 24 v AND 0xFF, drop_bit 16 v AND 0xFF, v AND 0xFFFF) in
     Inr (0 OR push_bit 24 (fst p) OR push_bit 16 (fst (snd p)) OR snd (snd p)))"
    unfolding version_from_variant_def version_string_def
    using version_parts [of v] R [OF unat_u32, of "[]"]
    by (simp add: R [OF unat_u32] read_dot is_digit_def Let_def)
  then show ?thesis by (simp add: version_join [simplified])
qed

end
