(* ===== verification/Asset_Text.thy ===== *)
theory Asset_Text
  imports Asset Version
begin

text \<open>
  The decimal text form of assets, \<open>asset::to_string\<close> and \<open>asset::from_string\<close> of
  \<open>libraries/protocol/asset.cpp\<close>.  Printing and reading of 64-bit numbers and trimming are functions of
  the \<open>fc\<close> library, which are parameters.
\<close>

section \<open>The library\<close>

record num_text =
  fc_to_string :: "int \<Rightarrow> string"
  fc_to_int64 :: "string \<Rightarrow> int result"
  fc_trim :: "string \<Rightarrow> string"

definition num_text_ok :: "num_text \<Rightarrow> bool" where
  "num_text_ok N \<longleftrightarrow> (\<forall>n. fc_to_string N n = (if n < 0 then ''-'' @ dec (nat (- n)) else dec (nat n)))
     \<and> (\<forall>n. in64 n \<longrightarrow> fc_to_int64 N (fc_to_string N n) = Inr n)
     \<and> (\<forall>s. s \<noteq> [] \<and> \<not> is_space (hd s) \<and> \<not> is_space (last s) \<longrightarrow> fc_trim N s = s)"

text \<open>A library with that behaviour.\<close>

definition read_int64 :: "string \<Rightarrow> int result" where
  "read_int64 s =
     (let (neg, ds) = (case s of c # cs \<Rightarrow> if c = CHR ''-'' then (True, cs) else (False, s) | [] \<Rightarrow> (False, s));
          n = (if neg then - int (digits_value ds) else int (digits_value ds))
      in if ds = [] \<or> (\<exists>c\<in>set ds. \<not> is_digit c) \<or> \<not> in64 n then Inl parse_error_exception else Inr n)"

definition plain_text :: num_text where
  "plain_text = \<lparr>fc_to_string = (\<lambda>n. if n < 0 then ''-'' @ dec (nat (- n)) else dec (nat n)), fc_to_int64 = read_int64,
     fc_trim = (\<lambda>s. rev (dropWhile is_space (rev (dropWhile is_space s))))\<rparr>"

section \<open>Printing and reading\<close>

definition asset_to_string :: "num_text \<Rightarrow> asset \<Rightarrow> string result" where
  "asset_to_string N a =
     ebind (precision a) (\<lambda>prec.
     let result = fc_to_string N (tdiv (amount a) prec);
         result = (if prec > 1 then
             let fract = tmod (amount a) prec
             in result @ ''.'' @ drop 1 (fc_to_string N (prec + fract))
           else result)
     in ebind (symbol_name a) (\<lambda>nm. Inr (result @ '' '' @ nm)))"

definition find_char :: "char \<Rightarrow> string \<Rightarrow> nat option" where
  "find_char c s = (let i = length (takeWhile (\<lambda>x. x \<noteq> c) s) in if i < length s then Some i else None)"

text \<open>The value of a \<open>share_type\<close> is changed without the checks of its operators.\<close>

definition raw64 :: "int \<Rightarrow> int" where
  "raw64 x = sint (word_of_int x :: 64 word)"

text \<open>Bytes in memory, the lowest first.\<close>

primrec bytes_word :: "u8 list \<Rightarrow> u64" where
  "bytes_word [] = 0"
| "bytes_word (b # bs) = ucast b OR push_bit 8 (bytes_word bs)"

definition read_amount :: "num_text \<Rightarrow> string \<Rightarrow> nat \<Rightarrow> nat option \<Rightarrow> asset \<Rightarrow> asset result" where
  "read_amount N s space_pos dot_pos result = (case dot_pos of
       Some dot \<Rightarrow>
         require (space_pos > dot)
         (let intpart = take dot s; fractpart = ''1'' @ take (space_pos - dot - 1) (drop (dot + 1) s)
          in ebind (set_decimals result (of_nat (length fractpart - 1))) (\<lambda>result.
             ebind (fc_to_int64 N intpart) (\<lambda>v.
             ebind (precision result) (\<lambda>p.
             ebind (fc_to_int64 N fractpart) (\<lambda>f.
             Inr (result\<lparr>amount := raw64 (raw64 (raw64 (v * p) + f) - p)\<rparr>))))))
     | None \<Rightarrow>
         ebind (fc_to_int64 N (take space_pos s)) (\<lambda>v. set_decimals (result\<lparr>amount := v\<rparr>) 0))"

definition asset_from_string :: "num_text \<Rightarrow> string \<Rightarrow> asset result" where
  "asset_from_string N text =
     (let s = fc_trim N text in
      case find_char (CHR '' '') s of
        None \<Rightarrow> Inl assert_exception
      | Some space_pos \<Rightarrow>
          ebind (read_amount N s space_pos (find_char (CHR ''.'') s) \<lparr>amount = 0, symbol = 0\<rparr>) (\<lambda>result.
          let symb = drop (space_pos + 1) s in
          require (length symb \<le> 6)
          (Inr (result\<lparr>symbol := symbol result OR push_bit 8 (bytes_word (map of_char symb))\<rparr>))))"

section \<open>Bytes\<close>

lemma takeWhile_upto: "c \<notin> set xs \<Longrightarrow> takeWhile (\<lambda>x. x \<noteq> c) (xs @ c # ys) = xs"
  by (induction xs) auto

lemma symbol_byte_bytes:
  "i < 8 \<Longrightarrow> symbol_byte (bytes_word bs) i = (if i < length bs then bs ! i else 0)"
proof (induction bs arbitrary: i)
  case Nil
  then show ?case by (simp add: symbol_byte_def)
next
  case (Cons b bs)
  show ?case
  proof (cases i)
    case 0
    have "ucast (ucast b OR push_bit 8 w :: u64) = b" for w :: u64
      by (rule bit_word_eqI) (auto simp: bit_simps)
    then show ?thesis using 0 by (simp add: symbol_byte_def)
  next
    case (Suc j)
    have "(ucast (drop_bit (8 * Suc j) (ucast b OR push_bit 8 w :: u64)) :: u8) = ucast (drop_bit (8 * j) w)" for w :: u64
      using Cons.prems Suc by (intro bit_word_eqI) (auto simp: bit_simps add.commute dest: bit_imp_le_length)
    then show ?thesis using Cons Suc by (simp add: symbol_byte_def)
  qed
qed

lemma decimals_bytes: "d < 15 \<Longrightarrow> decimals \<lparr>amount = n, symbol = bytes_word (d # bs)\<rparr> = Inr d"
  using symbol_byte_bytes [of 0 "d # bs"] by (simp add: decimals_def del: bytes_word.simps)

lemma symbol_name_bytes:
  assumes "length nm \<le> 6" "CHR 0x00 \<notin> set nm"
  shows "symbol_name \<lparr>amount = n, symbol = bytes_word (d # map of_char nm)\<rparr> = Inr nm"
proof -
  let ?b = "symbol_byte (bytes_word (d # map of_char nm))"
  have b: "?b (Suc i) = (if i < length nm then of_char (nm ! i) else 0)" if "i < 7" for i
    using that symbol_byte_bytes [of "Suc i" "d # map of_char nm"] by (simp del: bytes_word.simps)
  have c: "char_of (unat (of_char c :: u8)) = c" for c :: char
  proof -
    have "(of_char c :: u8) = of_nat (of_char c)" by (simp only: of_nat_of_char)
    then have "unat (of_char c :: u8) = of_char c mod 256" by (simp only: unat_of_nat) simp
    then show ?thesis by (simp only: of_char_mod_256 char_of_char)
  qed
  have "map (\<lambda>i. char_of (unat (?b i))) [1..<8] = map (\<lambda>i. char_of (unat (?b (Suc i)))) [0..<7]"
    by (simp add: upt_rec)
  also have "\<dots> = map (\<lambda>i. if i < length nm then nm ! i else CHR 0x00) [0..<7]"
    using b c by (auto simp: char_of_def)
  also have "\<dots> = nm @ replicate (7 - length nm) (CHR 0x00)"
    using assms(1) by (intro nth_equalityI) (auto simp: nth_append)
  finally have "takeWhile (\<lambda>c. c \<noteq> CHR 0x00) (map (\<lambda>i. char_of (unat (?b i))) [1..<8]) = nm"
    using takeWhile_upto [OF assms(2), of "replicate (6 - length nm) (CHR 0x00)"] assms(1)
      replicate_Suc [of "6 - length nm" "CHR 0x00"] Suc_diff_le [of "length nm" 6] by simp
  moreover have "?b 7 = 0" using b [of 6] assms(1) by simp
  ultimately show ?thesis by (simp add: symbol_name_def del: bytes_word.simps)
qed

section \<open>Digits\<close>

lemma dec_leading_one:
  "f < 10 ^ d \<Longrightarrow> \<exists>ds. dec (10 ^ d + f) = CHR ''1'' # ds \<and> length ds = d"
proof (induction d arbitrary: f)
  case 0
  have "dec 1 = ''1''" by code_simp
  then show ?case using 0 by simp
next
  case (Suc d)
  have "(1 :: nat) \<le> 10 ^ d" by simp
  then have "\<not> 10 ^ Suc d + f < 10" unfolding power_Suc by linarith
  then have f: "f div 10 < 10 ^ d" "(10 ^ Suc d + f) div 10 = 10 ^ d + f div 10" "\<not> 10 ^ Suc d + f < 10"
    using Suc.prems by (simp_all add: div_less_iff_less_mult)
  from Suc.IH [OF f(1)] show ?case by (auto simp: dec.simps [of "10 ^ Suc d + f"] f(2,3) simp del: power_Suc)
qed

lemma precision_power:
  assumes "d < 15"
  shows "precision \<lparr>amount = n, symbol = bytes_word (d # bs)\<rparr> = Inr (10 ^ unat d)"
proof -
  have "unat d < 15" using assms by (simp add: word_less_nat_alt)
  then have "unat d \<in> {0, 1, 2, 3, 4, 5, 6, 7, 8, 9, 10, 11, 12, 13, 14}" by simp presburger
  then show ?thesis using assms by (auto simp: precision_def decimals_bytes simp del: bytes_word.simps)
qed

lemma find_char_at: "c \<notin> set xs \<Longrightarrow> find_char c (xs @ c # ys) = Some (length xs)"
  by (simp add: find_char_def takeWhile_upto Let_def)

lemma find_char_none: "c \<notin> set s \<Longrightarrow> find_char c s = None"
proof -
  assume "c \<notin> set s"
  then have t: "takeWhile (\<lambda>x. x \<noteq> c) s = s" by (auto simp: takeWhile_eq_all_conv)
  show ?thesis unfolding find_char_def t by simp
qed

lemma raw64_id: "in64 x \<Longrightarrow> raw64 x = x"
  by (simp add: raw64_def in64_def signed_of_int signed_take_bit_int_eq_self)

lemma dec_no_mark: "c \<in> set (dec n) \<Longrightarrow> c \<noteq> CHR ''.'' \<and> c \<noteq> CHR '' ''"
  using dec_digits [of n] by (auto simp: is_digit_def)

lemma set_decimals_zero: "d < 15 \<Longrightarrow> set_decimals \<lparr>amount = n, symbol = 0\<rparr> d = Inr \<lparr>amount = n, symbol = bytes_word [d]\<rparr>"
  by (simp add: set_decimals_def)

section \<open>Reading what was printed\<close>

text \<open>The text of an amount that is not negative: whole part, decimals if there are any, and the name.\<close>

definition decimal_text :: "nat \<Rightarrow> nat \<Rightarrow> string \<Rightarrow> string" where
  "decimal_text k n ds = (if k = 0 then dec n else dec (n div 10 ^ k) @ ''.'' @ ds)"

lemma asset_to_string_text:
  assumes "num_text_ok N" "d < 15" "length nm \<le> 6" "CHR 0x00 \<notin> set nm"
  obtains ds where "asset_to_string N \<lparr>amount = int n, symbol = bytes_word (d # map of_char nm)\<rparr> = Inr (decimal_text (unat d) n ds @ '' '' @ nm)"
    "dec (10 ^ unat d + n mod 10 ^ unat d) = CHR ''1'' # ds" "length ds = unat d"
proof -
  let ?k = "unat d"
  obtain ds where ds: "dec (10 ^ ?k + n mod 10 ^ ?k) = CHR ''1'' # ds" "length ds = ?k"
    using dec_leading_one [of "n mod 10 ^ ?k" ?k] by auto
  have str: "fc_to_string N (int m) = dec m" for m using assms(1) by (simp add: num_text_ok_def)
  have q: "tdiv (int n) (10 ^ ?k) = int (n div 10 ^ ?k)" "tmod (int n) (10 ^ ?k) = int (n mod 10 ^ ?k)"
    by (simp_all add: zdiv_int zmod_int)
  have f: "fc_to_string N (10 ^ ?k + int (n mod 10 ^ ?k)) = CHR ''1'' # ds"
    using str [of "10 ^ ?k + n mod 10 ^ ?k"] ds(1) by simp
  have "(1 :: int) < 10 ^ ?k \<longleftrightarrow> ?k \<noteq> 0" by (cases "?k = 0") (simp_all add: one_less_power)
  then have "asset_to_string N \<lparr>amount = int n, symbol = bytes_word (d # map of_char nm)\<rparr> = Inr (decimal_text ?k n ds @ '' '' @ nm)"
    using precision_power [OF assms(2)] symbol_name_bytes [OF assms(3,4)]
    by (simp add: asset_to_string_def Let_def q f str decimal_text_def del: bytes_word.simps)
  then show thesis using that ds by blast
qed

lemma decimal_text_marks:
  assumes "dec (10 ^ k + m) = CHR ''1'' # ds" "\<forall>c\<in>set nm. \<not> is_space c \<and> c \<noteq> CHR ''.''" "nm \<noteq> []"
  shows "find_char (CHR '' '') (decimal_text k n ds @ '' '' @ nm) = Some (length (decimal_text k n ds))"
    and "find_char (CHR ''.'') (decimal_text k n ds @ '' '' @ nm) = (if k = 0 then None else Some (length (dec (n div 10 ^ k))))"
    and "num_text_ok N \<Longrightarrow> fc_trim N (decimal_text k n ds @ '' '' @ nm) = decimal_text k n ds @ '' '' @ nm"
proof -
  let ?t = "decimal_text k n ds"
  have ds: "c \<noteq> CHR ''.'' \<and> c \<noteq> CHR '' ''" if "c \<in> set ds" for c using that assms(1) dec_no_mark [of c "10 ^ k + m"] by simp
  have "CHR '' '' \<notin> set ?t" using ds [of "CHR '' ''"] dec_no_mark [of "CHR '' ''"] by (auto simp: decimal_text_def)
  then show "find_char (CHR '' '') (?t @ '' '' @ nm) = Some (length ?t)" using find_char_at by simp
  have dot: "CHR ''.'' \<notin> set (dec x)" for x using dec_no_mark by blast
  show "find_char (CHR ''.'') (?t @ '' '' @ nm) = (if k = 0 then None else Some (length (dec (n div 10 ^ k))))"
  proof (cases "k = 0")
    case True
    have "CHR ''.'' \<notin> set (dec n @ '' '' @ nm)" using dot assms(2) by auto
    then show ?thesis using True find_char_none by (simp add: decimal_text_def)
  next
    case False
    then show ?thesis using find_char_at [OF dot] by (simp add: decimal_text_def)
  qed
  have "\<exists>c cs. dec x = c # cs \<and> is_digit c" for x using dec_digits [of x] by (cases "dec x") simp_all
  from this [of n] this [of "n div 10 ^ k"] obtain c cs where "?t = c # cs" "is_digit c" by (cases "k = 0") (auto simp: decimal_text_def)
  then have "?t @ '' '' @ nm \<noteq> []" "\<not> is_space (hd (?t @ '' '' @ nm))" "\<not> is_space (last (?t @ '' '' @ nm))"
    using digit_not_space assms(2,3) by auto
  then show "num_text_ok N \<Longrightarrow> fc_trim N (?t @ '' '' @ nm) = ?t @ '' '' @ nm" by (simp add: num_text_ok_def)
qed

lemma read_amount_text:
  assumes "num_text_ok N" "d < 15" "int n + 10 ^ unat d < 2 ^ 63"
    and "dec (10 ^ unat d + n mod 10 ^ unat d) = CHR ''1'' # ds" "length ds = unat d"
  shows "read_amount N (decimal_text (unat d) n ds @ '' '' @ nm) (length (decimal_text (unat d) n ds))
      (if unat d = 0 then None else Some (length (dec (n div 10 ^ unat d)))) \<lparr>amount = 0, symbol = 0\<rparr>
    = Inr \<lparr>amount = int n, symbol = bytes_word [d]\<rparr>"
proof -
  let ?k = "unat d" let ?q = "n div 10 ^ unat d" let ?f = "n mod 10 ^ unat d"
  have num: "fc_to_int64 N (dec m) = Inr (int m)" if "int m < 2 ^ 63" for m
  proof -
    have "in64 (int m)" using that by (simp add: in64_def)
    moreover have "fc_to_string N (int m) = dec m" using assms(1) by (simp add: num_text_ok_def)
    moreover have "\<forall>n. in64 n \<longrightarrow> fc_to_int64 N (fc_to_string N n) = Inr n" using assms(1) unfolding num_text_ok_def by (elim conjE)
    ultimately show ?thesis by (metis (no_types))
  qed
  show ?thesis
  proof (cases "?k = 0")
    case True
    then have "d = 0" by (simp add: unat_eq_0)
    then show ?thesis using num [of n] assms(3) set_decimals_zero [of 0] by (simp add: read_amount_def decimal_text_def True)
  next
    case False
    have "int n = int (?q * 10 ^ ?k + ?f)" by (simp only: div_mult_mod_eq)
    then have n: "int n = int ?q * 10 ^ ?k + int ?f" by (simp only: of_nat_add of_nat_mult of_nat_power of_nat_numeral)
    have p: "?q \<le> n" "?f < 10 ^ ?k" by simp_all
    have qs: "int ?q < 2 ^ 63" 
    proof -
      have "int ?q \<le> int n" using p(1) by (rule of_nat_mono)
      moreover have "(0 :: int) \<le> 10 ^ ?k" by simp
      ultimately show ?thesis using assms(3) by linarith
    qed
    have fs: "int (10 ^ ?k + ?f) < 2 ^ 63" 
    proof -
      have "int ?f \<le> int n" by (rule of_nat_mono) (rule mod_less_eq_dividend)
      then have "10 ^ ?k + int ?f < 2 ^ 63" using assms(3) by linarith
      then show ?thesis by (simp only: of_nat_add of_nat_power of_nat_numeral)
    qed
    have v: "fc_to_int64 N (dec ?q) = Inr (int ?q)" "fc_to_int64 N (CHR ''1'' # ds) = Inr (10 ^ ?k + int ?f)"
      using num [OF qs] num [OF fs] assms(4) by simp_all
    have "in64 (int ?q * 10 ^ ?k)" "in64 (int ?q * 10 ^ ?k + (10 ^ ?k + int ?f))" "in64 (int n)"
    proof -
      have "0 \<le> int ?q * 10 ^ ?k" "0 \<le> int ?f" "(0 :: int) \<le> 10 ^ ?k" by simp_all
      then show "in64 (int ?q * 10 ^ ?k)" "in64 (int ?q * 10 ^ ?k + (10 ^ ?k + int ?f))" "in64 (int n)"
        using n assms(3) unfolding in64_def by linarith+
    qed
    then have w: "raw64 (raw64 (raw64 (int ?q * 10 ^ ?k) + (10 ^ ?k + int ?f)) - 10 ^ ?k) = int n"
      using n by (simp add: raw64_id)
    have "of_nat ?k = d" by simp
    then show ?thesis using v w assms(5) set_decimals_zero [OF assms(2)] precision_power [OF assms(2), of 0 "[]"] False
      by (simp add: read_amount_def decimal_text_def Let_def del: bytes_word.simps)
  qed
qed

section \<open>Properties\<close>

text \<open>
  (C36) Printing an asset and reading the text back gives the same asset, for every amount that is not
  negative, every number of decimals and every name of one to six characters without white space and
  dots, as long as the sum that the reader forms on the way fits in 64 bits.
\<close>

theorem asset_text_round_trip:
  assumes "num_text_ok N" "symbol a = bytes_word (d # map of_char nm)" "d < 15" "0 \<le> amount a" "amount a + 10 ^ unat d < 2 ^ 63"
    and "nm \<noteq> []" "length nm \<le> 6" "\<forall>c\<in>set nm. \<not> is_space c \<and> c \<noteq> CHR ''.'' \<and> c \<noteq> CHR 0x00"
  shows "\<exists>s. asset_to_string N a = Inr s \<and> asset_from_string N s = Inr a"
proof -
  define n where "n = nat (amount a)"
  have a: "a = \<lparr>amount = int n, symbol = bytes_word (d # map of_char nm)\<rparr>" "int n + 10 ^ unat d < 2 ^ 63"
    using assms(2,4,5) by (simp_all add: n_def)
  have nm: "CHR 0x00 \<notin> set nm" "\<forall>c\<in>set nm. \<not> is_space c \<and> c \<noteq> CHR ''.''" using assms(8) by auto
  obtain ds where s: "asset_to_string N a = Inr (decimal_text (unat d) n ds @ '' '' @ nm)"
    and ds: "dec (10 ^ unat d + n mod 10 ^ unat d) = CHR ''1'' # ds" "length ds = unat d"
    using asset_to_string_text [OF assms(1,3,7) nm(1), of n] unfolding a(1) [symmetric] .
  let ?s = "decimal_text (unat d) n ds @ '' '' @ nm"
  note marks = decimal_text_marks [OF ds(1) nm(2) assms(6), where n = n]
  have t: "fc_trim N ?s = ?s" by (rule marks(3) [OF assms(1)])
  have "asset_from_string N ?s = Inr a"
    unfolding asset_from_string_def Let_def t marks(1,2) option.case read_amount_text [OF assms(1,3) a(2) ds] ebind_simps
    using assms(7) by (simp add: a(1) or.assoc)
  with s show ?thesis by blast
qed

lemma plain_text_ok: "num_text_ok plain_text"
proof -
  have r: "read_int64 (if n < 0 then ''-'' @ dec (nat (- n)) else dec (nat n)) = Inr n" if "in64 n" for n
  proof -
    have d: "dec m \<noteq> []" "\<not> (\<exists>c\<in>set (dec m). \<not> is_digit c)" "digits_value (dec m) = m" for m using dec_digits [of m] by blast+
    obtain c cs where c: "dec (nat n) = c # cs" using d(1) by (cases "dec (nat n)") simp_all
    then have "c \<noteq> CHR ''-''" using digit_not_space [of c] dec_digits [of "nat n"] by auto
    then show ?thesis using that d [of "nat n"] d [of "nat (- n)"] c by (auto simp: read_int64_def Let_def)
  qed
  have t: "rev (dropWhile is_space (rev (dropWhile is_space s))) = s" if "s \<noteq> []" "\<not> is_space (hd s)" "\<not> is_space (last s)" for s
  proof -
    have "dropWhile is_space s = s" using that by (cases s) simp_all
    moreover have "dropWhile is_space (rev s) = rev s" using that by (cases s rule: rev_cases) simp_all
    ultimately show ?thesis by simp
  qed
  show ?thesis unfolding num_text_ok_def plain_text_def by (simp add: r t)
qed

theorem asset_text_round_trip_witness:
  "asset_to_string plain_text (WLS 1250007) = Inr ''1250.007 WLS'' \<and> asset_from_string plain_text ''1250.007 WLS'' = Inr (WLS 1250007)"
proof -
  have w: "symbol (WLS 1250007) = bytes_word (3 # map of_char ''WLS'')" by code_simp
  have "\<exists>s. asset_to_string plain_text (WLS 1250007) = Inr s \<and> asset_from_string plain_text s = Inr (WLS 1250007)"
    by (rule asset_text_round_trip [OF plain_text_ok w]) (simp_all add: is_space_def)
  moreover have "asset_to_string plain_text (WLS 1250007) = Inr ''1250.007 WLS''" by code_simp
  ultimately show ?thesis by simp
qed

text \<open>
  For negative amounts the text is wrong: the fraction is the remainder of a truncating division, which
  is negative, so that a digit is lost with the leading one, as is the sign of a whole part of zero; the reader
  adds the fraction to a negative whole part.
\<close>

theorem negative_asset_misprinted:
  "asset_to_string plain_text (WLS (- 5)) = Inr ''0.95 WLS''"
  "asset_from_string plain_text ''-1.500 WLS'' = Inr (WLS (- 500))"
  by code_simp+

end
