(* ===== verification/Chainbase.thy ===== *)
theory Chainbase
  imports WLS_Prelude
begin

text \<open>
  The object store: \<open>generic_index\<close> of \<open>libraries/chainbase/include/chainbase/chainbase.hpp\<close>.
  An index holds objects under integer ids, in id order, and a stack of undo states; every change
  is recorded in the top undo state, so that a session can be undone, merged into the one below
  (\<open>squash\<close>) or made permanent (\<open>commit\<close>).

  The objects of a multi-index container are here the pairs \<open>(id, value)\<close>; \<open>key\<close> is the tuple of
  the unique secondary keys of the container (such as the name of an account), the argument that
  decides whether an insertion or a modification violates a uniqueness constraint.  The stack is a
  list whose head is the back of the deque.

  The specification is a stack of snapshots: \<open>snapshots\<close> computes, from the recorded differences,
  the contents every enclosing session started from.  The lemmas show that creating, modifying and
  removing objects leaves all snapshots alone, that \<open>undo\<close> installs the top snapshot, \<open>squash\<close>
  forgets it, and \<open>commit\<close> forgets snapshots from the bottom.
\<close>

section \<open>Ordered maps as association lists\<close>

definition keys_of :: "(int \<times> 'a) list \<Rightarrow> int set" where
  "keys_of m = fst ` set m"

definition map_emplace :: "int \<Rightarrow> 'a \<Rightarrow> (int \<times> 'a) list \<Rightarrow> (int \<times> 'a) list" where
  "map_emplace k v m = (if k \<in> fst ` set m then m else insort_key fst (k, v) m)"

definition map_erase :: "int \<Rightarrow> (int \<times> 'a) list \<Rightarrow> (int \<times> 'a) list" where
  "map_erase k m = filter (\<lambda>p. fst p \<noteq> k) m"

definition map_assign :: "int \<Rightarrow> 'a \<Rightarrow> (int \<times> 'a) list \<Rightarrow> (int \<times> 'a) list" where
  "map_assign k v m = map (\<lambda>p. if fst p = k then (k, v) else p) m"

section \<open>The index and its undo states\<close>

record 'a undo_state =
  old_values :: "(int \<times> 'a) list"
  removed_values :: "(int \<times> 'a) list"
  new_ids :: "int list"
  old_next_id :: int
  undo_revision :: int

record 'a generic_index =
  stack :: "'a undo_state list"
  revision :: int
  next_id :: int
  indices :: "(int \<times> 'a) list"

definition empty_index :: "'a generic_index" where
  "empty_index = \<lparr>stack = [], revision = 0, next_id = 0, indices = []\<rparr>"

definition enabled :: "'a generic_index \<Rightarrow> bool" where
  "enabled g \<longleftrightarrow> stack g \<noteq> []"

definition on_modify :: "int \<Rightarrow> 'a \<Rightarrow> 'a undo_state list \<Rightarrow> 'a undo_state list" where
  "on_modify i v st = (case st of [] \<Rightarrow> []
     | head # rest \<Rightarrow>
        (if i \<in> set (new_ids head) then head
         else if i \<in> fst ` set (old_values head) then head
         else head\<lparr>old_values := map_emplace i v (old_values head)\<rparr>) # rest)"

definition on_remove :: "int \<Rightarrow> 'a \<Rightarrow> 'a undo_state list \<Rightarrow> 'a undo_state list" where
  "on_remove i v st = (case st of [] \<Rightarrow> []
     | head # rest \<Rightarrow>
        (if i \<in> set (new_ids head) then head\<lparr>new_ids := filter (\<lambda>j. j \<noteq> i) (new_ids head)\<rparr>
         else case map_of (old_values head) i of
             Some w \<Rightarrow> head\<lparr>removed_values := map_emplace i w (removed_values head),
                          old_values := map_erase i (old_values head)\<rparr>
           | None \<Rightarrow>
               if i \<in> fst ` set (removed_values head) then head
               else head\<lparr>removed_values := map_emplace i v (removed_values head)\<rparr>) # rest)"

definition on_create :: "int \<Rightarrow> 'a undo_state list \<Rightarrow> 'a undo_state list" where
  "on_create i st = (case st of [] \<Rightarrow> []
     | head # rest \<Rightarrow> head\<lparr>new_ids := insort i (filter (\<lambda>j. j \<noteq> i) (new_ids head))\<rparr> # rest)"

text \<open>\<open>emplace\<close> returns the new object with the index; the constructor sees the id.\<close>

definition emplace ::
  "('a \<Rightarrow> 'k) \<Rightarrow> (int \<Rightarrow> 'a) \<Rightarrow> 'a generic_index \<Rightarrow> (int \<times> 'a generic_index) result" where
  "emplace key c g =
     (let new_id = next_id g; v = c new_id in
      if \<exists>p\<in>set (indices g). fst p = new_id \<or> key (snd p) = key v then Inl logic_error
      else Inr (new_id, g\<lparr>next_id := new_id + 1, stack := on_create new_id (stack g),
                         indices := insort_key fst (new_id, v) (indices g)\<rparr>))"

definition set_row :: "('a \<Rightarrow> 'k) \<Rightarrow> int \<Rightarrow> 'a \<Rightarrow> (int \<times> 'a) list \<Rightarrow> (int \<times> 'a) list result" where
  "set_row key i v m =
     (if i \<notin> fst ` set m then Inl null_pointer
      else if \<exists>p\<in>set m. fst p \<noteq> i \<and> key (snd p) = key v then Inl logic_error
      else Inr (map_assign i v m))"

definition modify ::
  "('a \<Rightarrow> 'k) \<Rightarrow> int \<Rightarrow> ('a \<Rightarrow> 'a result) \<Rightarrow> 'a generic_index \<Rightarrow> 'a generic_index result" where
  "modify key i m g = (case map_of (indices g) i of
       None \<Rightarrow> Inl null_pointer
     | Some v \<Rightarrow> ebind (m v) (\<lambda>v'. ebind (set_row key i v' (indices g)) (\<lambda>rows.
         Inr (g\<lparr>stack := on_modify i v (stack g), indices := rows\<rparr>))))"

definition remove :: "int \<Rightarrow> 'a generic_index \<Rightarrow> 'a generic_index result" where
  "remove i g = (case map_of (indices g) i of
       None \<Rightarrow> Inl null_pointer
     | Some v \<Rightarrow> Inr (g\<lparr>stack := on_remove i v (stack g), indices := map_erase i (indices g)\<rparr>))"

definition find_id :: "int \<Rightarrow> 'a generic_index \<Rightarrow> 'a option" where
  "find_id i g = map_of (indices g) i"

definition get_id :: "int \<Rightarrow> 'a generic_index \<Rightarrow> 'a result" where
  "get_id i g = (case find_id i g of None \<Rightarrow> Inl out_of_range | Some v \<Rightarrow> Inr v)"

definition remove_object :: "int \<Rightarrow> 'a generic_index \<Rightarrow> 'a generic_index result" where
  "remove_object i g = (case find_id i g of None \<Rightarrow> Inl out_of_range | Some _ \<Rightarrow> remove i g)"

definition start_undo_session :: "bool \<Rightarrow> 'a generic_index \<Rightarrow> 'a generic_index" where
  "start_undo_session en g =
     (if en then g\<lparr>revision := revision g + 1,
        stack := \<lparr>old_values = [], removed_values = [], new_ids = [], old_next_id = next_id g,
                  undo_revision = revision g + 1\<rparr> # stack g\<rparr>
      else g)"

definition undo :: "('a \<Rightarrow> 'k) \<Rightarrow> 'a generic_index \<Rightarrow> 'a generic_index result" where
  "undo key g = (case stack g of [] \<Rightarrow> Inr g
     | head # rest \<Rightarrow>
        ebind (efold (\<lambda>p. set_row key (fst p) (snd p)) (old_values head) (indices g)) (\<lambda>rows.
        let rows = fold map_erase (new_ids head) rows in
        ebind (efold (\<lambda>p rows.
            if \<exists>q\<in>set rows. fst q = fst p \<or> key (snd q) = key (snd p) then Inl logic_error
            else Inr (insort_key fst p rows)) (removed_values head) rows) (\<lambda>rows.
        Inr (g\<lparr>indices := rows, next_id := old_next_id head, stack := rest,
               revision := revision g - 1\<rparr>))))"

definition squash_old :: "(int \<times> 'a) \<Rightarrow> 'a undo_state \<Rightarrow> 'a undo_state" where
  "squash_old p prev =
     (if fst p \<in> set (new_ids prev) then prev
      else if fst p \<in> fst ` set (old_values prev) then prev
      else prev\<lparr>old_values := map_emplace (fst p) (snd p) (old_values prev)\<rparr>)"

definition squash_removed :: "(int \<times> 'a) \<Rightarrow> 'a undo_state \<Rightarrow> 'a undo_state" where
  "squash_removed p prev =
     (if fst p \<in> set (new_ids prev) then
        prev\<lparr>new_ids := filter (\<lambda>j. j \<noteq> fst p) (new_ids prev)\<rparr>
      else case map_of (old_values prev) (fst p) of
          Some w \<Rightarrow> prev\<lparr>removed_values := map_emplace (fst p) w (removed_values prev),
                        old_values := map_erase (fst p) (old_values prev)\<rparr>
        | None \<Rightarrow> prev\<lparr>removed_values := map_emplace (fst p) (snd p) (removed_values prev)\<rparr>)"

definition squash_new :: "int \<Rightarrow> 'a undo_state \<Rightarrow> 'a undo_state" where
  "squash_new i prev = prev\<lparr>new_ids := insort i (filter (\<lambda>j. j \<noteq> i) (new_ids prev))\<rparr>"

definition squash :: "'a generic_index \<Rightarrow> 'a generic_index" where
  "squash g = (case stack g of [] \<Rightarrow> g
     | [_] \<Rightarrow> g\<lparr>stack := []\<rparr>
     | state # prev # rest \<Rightarrow>
        (let prev = fold squash_old (old_values state) prev;
             prev = fold squash_new (new_ids state) prev;
             prev = fold squash_removed (removed_values state) prev
         in g\<lparr>stack := prev # rest, revision := revision g - 1\<rparr>))"

text \<open>\<open>commit\<close> pops from the front of the deque, the end of the list.\<close>

fun commit_front :: "int \<Rightarrow> 'a undo_state list \<Rightarrow> 'a undo_state list" where
  "commit_front r [] = []"
| "commit_front r (u # us) = (if undo_revision u \<le> r then commit_front r us else u # us)"

definition commit :: "int \<Rightarrow> 'a generic_index \<Rightarrow> 'a generic_index" where
  "commit r g = g\<lparr>stack := rev (commit_front r (rev (stack g)))\<rparr>"

fun undo_levels :: "('a \<Rightarrow> 'k) \<Rightarrow> nat \<Rightarrow> 'a generic_index \<Rightarrow> 'a generic_index result" where
  "undo_levels key 0 g = Inr g"
| "undo_levels key (Suc n) g = ebind (undo key g) (undo_levels key n)"

definition undo_all :: "('a \<Rightarrow> 'k) \<Rightarrow> 'a generic_index \<Rightarrow> 'a generic_index result" where
  "undo_all key g = undo_levels key (length (stack g)) g"

definition set_revision :: "int \<Rightarrow> 'a generic_index \<Rightarrow> 'a generic_index result" where
  "set_revision r g = (if stack g \<noteq> [] then Inl logic_error else Inr (g\<lparr>revision := r\<rparr>))"

section \<open>The specification: contents and snapshots\<close>

text \<open>
  What an undo state records of one id: whether it was created, its old value and its removed
  value.  \<open>restore u m\<close> is what the container \<open>m\<close> holds after the undo state has been applied.
\<close>

type_synonym 'a cell = "bool \<times> 'a option \<times> 'a option"

definition cell_of :: "'a undo_state \<Rightarrow> int \<Rightarrow> 'a cell" where
  "cell_of u i = (i \<in> set (new_ids u), map_of (old_values u) i, map_of (removed_values u) i)"

fun restore_cell :: "'a cell \<Rightarrow> 'a option \<Rightarrow> 'a option" where
  "restore_cell (True, _, _) cur = None"
| "restore_cell (False, _, Some v) cur = Some v"
| "restore_cell (False, Some v, None) cur = Some v"
| "restore_cell (False, None, None) cur = cur"

definition restore :: "'a undo_state \<Rightarrow> (int \<rightharpoonup> 'a) \<Rightarrow> (int \<rightharpoonup> 'a)" where
  "restore u m = (\<lambda>i. restore_cell (cell_of u i) (m i))"

fun snapshots :: "'a undo_state list \<Rightarrow> (int \<rightharpoonup> 'a) \<Rightarrow> ((int \<rightharpoonup> 'a) \<times> int) list" where
  "snapshots [] m = []"
| "snapshots (u # us) m = (restore u m, old_next_id u) # snapshots us (restore u m)"

definition view :: "'a generic_index \<Rightarrow> (int \<rightharpoonup> 'a) \<times> int" where
  "view g = (map_of (indices g), next_id g)"

definition saved :: "'a generic_index \<Rightarrow> ((int \<rightharpoonup> 'a) \<times> int) list" where
  "saved g = snapshots (stack g) (map_of (indices g))"

definition sorted_ids :: "(int \<times> 'a) list \<Rightarrow> bool" where
  "sorted_ids m \<longleftrightarrow> sorted (map fst m) \<and> distinct (map fst m)"

definition unique_keys :: "('a \<Rightarrow> 'k) \<Rightarrow> (int \<rightharpoonup> 'a) \<Rightarrow> bool" where
  "unique_keys key m \<longleftrightarrow> (\<forall>i j v w. m i = Some v \<longrightarrow> m j = Some w \<longrightarrow> key v = key w \<longrightarrow> i = j)"

text \<open>Ids below \<open>n\<close> existed, or could have, when the session started; the others are created in it.\<close>

fun cell_ok :: "('a \<Rightarrow> 'k) \<Rightarrow> int \<Rightarrow> int \<Rightarrow> 'a cell \<Rightarrow> 'a option \<Rightarrow> bool" where
  "cell_ok key n i (new, old, rem) cur \<longleftrightarrow>
     (new \<longrightarrow> n \<le> i \<and> cur \<noteq> None)
   \<and> (old \<noteq> None \<longrightarrow> i < n \<and> cur \<noteq> None \<and> key (the cur) = key (the old))
   \<and> (rem \<noteq> None \<longrightarrow> i < n \<and> cur = None)
   \<and> (cur \<noteq> None \<longrightarrow> n \<le> i \<longrightarrow> new)"

definition undo_inv :: "('a \<Rightarrow> 'k) \<Rightarrow> 'a undo_state \<Rightarrow> (int \<rightharpoonup> 'a) \<Rightarrow> bool" where
  "undo_inv key u m \<longleftrightarrow>
     sorted_ids (old_values u) \<and> sorted_ids (removed_values u) \<and> distinct (new_ids u)
   \<and> (\<forall>i. cell_ok key (old_next_id u) i (cell_of u i) (m i))"

definition contents_inv :: "('a \<Rightarrow> 'k) \<Rightarrow> (int \<rightharpoonup> 'a) \<Rightarrow> int \<Rightarrow> bool" where
  "contents_inv key m n \<longleftrightarrow> (\<forall>i. m i \<noteq> None \<longrightarrow> i < n) \<and> unique_keys key m"

fun stack_inv :: "('a \<Rightarrow> 'k) \<Rightarrow> 'a undo_state list \<Rightarrow> int \<Rightarrow> (int \<rightharpoonup> 'a) \<Rightarrow> int \<Rightarrow> bool" where
  "stack_inv key [] r m n \<longleftrightarrow> contents_inv key m n"
| "stack_inv key (u # us) r m n \<longleftrightarrow> contents_inv key m n \<and> undo_inv key u m
     \<and> old_next_id u \<le> n \<and> undo_revision u = r
     \<and> stack_inv key us (r - 1) (restore u m) (old_next_id u)"

definition index_inv :: "('a \<Rightarrow> 'k) \<Rightarrow> 'a generic_index \<Rightarrow> bool" where
  "index_inv key g \<longleftrightarrow> sorted_ids (indices g)
     \<and> stack_inv key (stack g) (revision g) (map_of (indices g)) (next_id g)"

text \<open>The changes of one session: a modification keeps the unique secondary keys.\<close>

inductive change :: "('a \<Rightarrow> 'k) \<Rightarrow> 'a generic_index \<Rightarrow> 'a generic_index \<Rightarrow> bool" for key where
  create: "emplace key c g = Inr (i, g') \<Longrightarrow> change key g g'"
| alter: "modify key i m g = Inr g' \<Longrightarrow> (\<And>v v'. find_id i g = Some v \<Longrightarrow> m v = Inr v' \<Longrightarrow> key v' = key v)
    \<Longrightarrow> change key g g'"
| delete: "remove i g = Inr g' \<Longrightarrow> change key g g'"

section \<open>Association list lemmas\<close>

lemma map_of_None_iff: "map_of m k = None \<longleftrightarrow> k \<notin> fst ` set m"
  by (induction m) auto

lemma mem_keys_iff: "k \<in> fst ` set m \<longleftrightarrow> map_of m k \<noteq> None"
  by (simp add: map_of_None_iff)

lemma map_of_insort [simp]:
  "fst p \<notin> fst ` set m \<Longrightarrow> map_of (insort_key fst p m) = (map_of m)(fst p \<mapsto> snd p)"
  by (induction m) (auto simp: fun_eq_iff)

lemma sorted_ids_insort [simp]:
  "fst p \<notin> fst ` set m \<Longrightarrow> sorted_ids m \<Longrightarrow> sorted_ids (insort_key fst p m)"
  by (auto simp: sorted_ids_def sorted_insort_key distinct_insort_key)

lemma map_of_emplace [simp]:
  "map_of (map_emplace k v m) = (if k \<in> fst ` set m then map_of m else (map_of m)(k \<mapsto> v))"
  by (simp add: map_emplace_def)

lemma sorted_ids_emplace [simp]: "sorted_ids m \<Longrightarrow> sorted_ids (map_emplace k v m)"
  by (simp add: map_emplace_def)

lemma map_of_erase [simp]: "map_of (map_erase k m) = (map_of m)(k := None)"
  by (induction m) (auto simp: map_erase_def)

lemma sorted_ids_erase [simp]: "sorted_ids m \<Longrightarrow> sorted_ids (map_erase k m)"
  by (auto simp: sorted_ids_def map_erase_def sorted_filter intro: distinct_map_filter)

lemma map_fst_assign [simp]: "map fst (map_assign k v m) = map fst m"
  by (induction m) (auto simp: map_assign_def)

lemma sorted_ids_assign [simp]: "sorted_ids (map_assign k v m) = sorted_ids m"
  by (simp add: sorted_ids_def)

lemma map_of_assign [simp]:
  "map_of (map_assign k v m) = (if k \<in> fst ` set m then (map_of m)(k \<mapsto> v) else map_of m)"
  by (induction m) (auto simp: map_assign_def fun_eq_iff)

lemma sorted_ids_Nil [simp]: "sorted_ids []"
  by (simp add: sorted_ids_def)

lemma sorted_ids_eqI:
  assumes "sorted_ids xs" "sorted_ids ys" "map_of xs = map_of ys"
  shows "xs = ys"
proof -
  have "set xs = set ys"
    using assms by (auto simp: sorted_ids_def) (metis map_of_eq_Some_iff)+
  moreover have "distinct xs" "distinct ys"
    using assms by (auto simp: sorted_ids_def distinct_map)
  moreover have "inj_on fst (set xs \<union> set ys)"
    using assms(1) calculation(1) by (auto simp: sorted_ids_def distinct_map)
  ultimately show ?thesis
    using assms by (metis sorted_ids_def map_sorted_distinct_set_unique)
qed

section \<open>Changes keep every snapshot\<close>

definition modified :: "int \<Rightarrow> 'a \<Rightarrow> 'a undo_state \<Rightarrow> 'a undo_state" where
  "modified i v u = hd (on_modify i v [u])"

definition removed :: "int \<Rightarrow> 'a \<Rightarrow> 'a undo_state \<Rightarrow> 'a undo_state" where
  "removed i v u = hd (on_remove i v [u])"

definition created :: "int \<Rightarrow> 'a undo_state \<Rightarrow> 'a undo_state" where
  "created i u = hd (on_create i [u])"

lemma on_Cons [simp]:
  "on_modify i v (u # us) = modified i v u # us"
  "on_remove i v (u # us) = removed i v u # us"
  "on_create i (u # us) = created i u # us"
  by (simp_all add: modified_def removed_def created_def on_modify_def on_remove_def on_create_def)

lemma on_Nil [simp]: "on_modify i v [] = []" "on_remove i v [] = []" "on_create i [] = []"
  by (simp_all add: on_modify_def on_remove_def on_create_def)

lemmas on_defs = modified_def removed_def created_def on_modify_def on_remove_def on_create_def

lemma op_frame [simp]:
  "old_next_id (modified i v u) = old_next_id u" "undo_revision (modified i v u) = undo_revision u"
  "old_next_id (removed i v u) = old_next_id u" "undo_revision (removed i v u) = undo_revision u"
  "old_next_id (created i u) = old_next_id u" "undo_revision (created i u) = undo_revision u"
  by (simp_all add: on_defs split: option.split)

lemma op_sorted [simp]:
  "sorted_ids (old_values u) \<Longrightarrow> sorted_ids (old_values (modified i v u))"
  "sorted_ids (old_values u) \<Longrightarrow> sorted_ids (old_values (removed i v u))"
  "sorted_ids (old_values u) \<Longrightarrow> sorted_ids (old_values (created i u))"
  "sorted_ids (removed_values u) \<Longrightarrow> sorted_ids (removed_values (modified i v u))"
  "sorted_ids (removed_values u) \<Longrightarrow> sorted_ids (removed_values (removed i v u))"
  "sorted_ids (removed_values u) \<Longrightarrow> sorted_ids (removed_values (created i u))"
  "distinct (new_ids u) \<Longrightarrow> distinct (new_ids (modified i v u))"
  "distinct (new_ids u) \<Longrightarrow> distinct (new_ids (removed i v u))"
  "distinct (new_ids u) \<Longrightarrow> distinct (new_ids (created i u))"
  by (auto simp: on_defs distinct_insort split: option.split)

lemma modified_cell:
  "cell_of (modified i v u) j = (if j = i then
     (case cell_of u i of (new, old, rem) \<Rightarrow> (new, if new \<or> old \<noteq> None then old else Some v, rem))
     else cell_of u j)"
  by (cases "map_of (old_values u) i") (auto simp: cell_of_def on_defs mem_keys_iff simp del: map_of_eq_None_iff)

lemma removed_cell:
  "cell_of (removed i v u) j = (if j = i then
     (case cell_of u i of (new, old, rem) \<Rightarrow> if new then (False, old, rem)
        else (new, None, if rem \<noteq> None then rem else if old \<noteq> None then old else Some v))
     else cell_of u j)"
  by (cases "map_of (old_values u) i"; cases "map_of (removed_values u) i")
     (auto simp: cell_of_def on_defs mem_keys_iff)

lemma created_cell:
  "cell_of (created i u) j = (if j = i then
     (case cell_of u i of (new, old, rem) \<Rightarrow> (True, old, rem)) else cell_of u j)"
  by (auto simp: cell_of_def on_defs set_insort_key)

lemmas op_cells = modified_cell removed_cell created_cell

text \<open>Changes of one cell: all other ids keep what the undo state says of them.\<close>

lemma undo_inv_update:
  assumes inv: "undo_inv key u m" and n: "old_next_id u' = old_next_id u"
    and s: "sorted_ids (old_values u')" "sorted_ids (removed_values u')" "distinct (new_ids u')"
    and others: "\<And>j. j \<noteq> i \<Longrightarrow> cell_of u' j = cell_of u j"
    and ok: "cell_ok key (old_next_id u) i (cell_of u' i) x"
    and re: "restore_cell (cell_of u' i) x = restore_cell (cell_of u i) (m i)"
  shows "undo_inv key u' (m(i := x)) \<and> restore u' (m(i := x)) = restore u m"
proof -
  have "cell_ok key (old_next_id u') j (cell_of u' j) ((m(i := x)) j)" for j
    using inv ok others n by (cases "j = i") (auto simp: undo_inv_def)
  moreover have "restore u' (m(i := x)) j = restore u m j" for j
    using re others by (cases "j = i") (auto simp: restore_def)
  ultimately show ?thesis using s by (auto simp: undo_inv_def)
qed

lemma undo_invD:
  assumes "undo_inv key u m"
  shows "sorted_ids (old_values u)" "sorted_ids (removed_values u)" "distinct (new_ids u)"
    and "cell_ok key (old_next_id u) i (cell_of u i) (m i)"
  using assms by (simp_all add: undo_inv_def)

lemma modified_inv:
  assumes inv: "undo_inv key u m" and m: "m i = Some v" and k: "key v' = key v"
  shows "undo_inv key (modified i v u) (m(i \<mapsto> v')) \<and> restore (modified i v u) (m(i \<mapsto> v')) = restore u m"
  using undo_invD [OF inv] undo_invD(4) [OF inv, of i] m k
  by (intro undo_inv_update [OF inv])
     (cases "cell_of u i"; auto simp: op_cells split: if_splits elim!: restore_cell.elims)+

lemma removed_inv:
  assumes inv: "undo_inv key u m" and m: "m i = Some v"
  shows "undo_inv key (removed i v u) (m(i := None)) \<and> restore (removed i v u) (m(i := None)) = restore u m"
  using undo_invD [OF inv] undo_invD(4) [OF inv, of i] m
  by (intro undo_inv_update [OF inv])
     (cases "cell_of u i"; auto simp: op_cells split: if_splits)+

lemma created_inv:
  assumes inv: "undo_inv key u m" and m: "m i = None" and i: "old_next_id u \<le> i"
  shows "undo_inv key (created i u) (m(i \<mapsto> v)) \<and> restore (created i u) (m(i \<mapsto> v)) = restore u m"
  using undo_invD [OF inv] undo_invD(4) [OF inv, of i] m i
  by (intro undo_inv_update [OF inv])
     (cases "cell_of u i"; auto simp: op_cells split: if_splits)+

lemma contents_inv_insert:
  assumes "contents_inv key m n" and "\<forall>i w. m i = Some w \<longrightarrow> key w \<noteq> key v"
  shows "contents_inv key (m(n \<mapsto> v)) (n + 1)"
  using assms unfolding contents_inv_def unique_keys_def
  by (auto split: if_splits) metis

lemma contents_inv_update:
  assumes "contents_inv key m n" "m i = Some v" "key v' = key v"
  shows "contents_inv key (m(i \<mapsto> v')) n"
  using assms unfolding contents_inv_def unique_keys_def by auto

lemma contents_inv_delete:
  assumes "contents_inv key m n"
  shows "contents_inv key (m(i := None)) n"
  using assms unfolding contents_inv_def unique_keys_def by auto

lemma stack_inv_contents: "stack_inv key st r m n \<Longrightarrow> contents_inv key m n"
  by (cases st) auto

lemma emplace_cases:
  assumes "emplace key c g = Inr (i, g')" and "sorted_ids (indices g)"
  shows "i = next_id g" "next_id g' = next_id g + 1" "revision g' = revision g"
    and "stack g' = on_create (next_id g) (stack g)"
    and "map_of (indices g') = (map_of (indices g))(next_id g \<mapsto> c (next_id g))"
    and "sorted_ids (indices g')" "map_of (indices g) (next_id g) = None"
    and "\<forall>j w. map_of (indices g) j = Some w \<longrightarrow> key w \<noteq> key (c (next_id g))"
proof -
  have f: "next_id g \<notin> fst ` set (indices g)" and i: "i = next_id g"
    and k: "\<forall>p\<in>set (indices g). key (snd p) \<noteq> key (c (next_id g))"
    and g: "g' = g\<lparr>next_id := next_id g + 1, stack := on_create (next_id g) (stack g),
          indices := insort_key fst (next_id g, c (next_id g)) (indices g)\<rparr>"
    using assms(1) by (auto simp: emplace_def Let_def split: if_splits)
  show "i = next_id g" "next_id g' = next_id g + 1" "revision g' = revision g"
    "stack g' = on_create (next_id g) (stack g)"
    "map_of (indices g') = (map_of (indices g))(next_id g \<mapsto> c (next_id g))"
    "sorted_ids (indices g')" "map_of (indices g) (next_id g) = None"
    using f i g assms(2) by (simp_all add: map_of_None_iff)
  show "\<forall>j w. map_of (indices g) j = Some w \<longrightarrow> key w \<noteq> key (c (next_id g))"
    using k by (auto dest!: map_of_SomeD)
qed

lemma modify_cases:
  assumes "modify key i m g = Inr g'"
  obtains v v' where "map_of (indices g) i = Some v" "m v = Inr v'"
    and "next_id g' = next_id g" "revision g' = revision g" "stack g' = on_modify i v (stack g)"
    and "map_of (indices g') = (map_of (indices g))(i \<mapsto> v')"
    and "sorted_ids (indices g') = sorted_ids (indices g)"
  using assms by (auto simp: modify_def set_row_def mem_keys_iff split: option.splits if_splits)

lemma remove_cases:
  assumes "remove i g = Inr g'"
  obtains v where "map_of (indices g) i = Some v"
    and "next_id g' = next_id g" "revision g' = revision g" "stack g' = on_remove i v (stack g)"
    and "map_of (indices g') = (map_of (indices g))(i := None)"
    and "sorted_ids (indices g) \<Longrightarrow> sorted_ids (indices g')"
  using assms by (auto simp: remove_def split: option.splits)

lemma change_inv:
  assumes "change key g g'" "index_inv key g"
  shows "index_inv key g' \<and> saved g' = saved g"
  using assms
proof (cases rule: change.cases)
  case (create c i)
  have s: "sorted_ids (indices g)" using assms(2) by (simp add: index_inv_def)
  note E = emplace_cases [OF create s]
  show ?thesis
  proof (cases "stack g")
    case Nil
    then show ?thesis using assms(2) E by (auto simp: index_inv_def saved_def contents_inv_insert)
  next
    case (Cons u us)
    have u: "undo_inv key u (map_of (indices g))" "old_next_id u \<le> next_id g"
      using assms(2) Cons by (auto simp: index_inv_def)
    then show ?thesis using assms(2) E Cons created_inv [OF u(1) E(7) u(2)]
      by (auto simp: index_inv_def saved_def contents_inv_insert)
  qed
next
  case (alter i m)
  obtain v v' where E: "map_of (indices g) i = Some v" "m v = Inr v'"
    "next_id g' = next_id g" "revision g' = revision g" "stack g' = on_modify i v (stack g)"
    "map_of (indices g') = (map_of (indices g))(i \<mapsto> v')"
    "sorted_ids (indices g') = sorted_ids (indices g)"
    using modify_cases [OF alter(1)] by blast
  have k: "key v' = key v" using alter(2) E(1,2) by (simp add: find_id_def)
  show ?thesis
    using assms(2) E modified_inv [where m = "map_of (indices g)" and key = key, OF _ E(1) k]
      contents_inv_update [where m = "map_of (indices g)" and key = key, OF _ E(1) k]
    by (cases "stack g") (auto simp: index_inv_def saved_def)
next
  case (delete i)
  obtain v where E: "map_of (indices g) i = Some v"
    "next_id g' = next_id g" "revision g' = revision g" "stack g' = on_remove i v (stack g)"
    "map_of (indices g') = (map_of (indices g))(i := None)"
    "sorted_ids (indices g) \<Longrightarrow> sorted_ids (indices g')"
    using remove_cases [OF delete] by blast
  show ?thesis
    using assms(2) E removed_inv [where m = "map_of (indices g)" and key = key, OF _ E(1)]
    by (cases "stack g") (auto simp: index_inv_def saved_def contents_inv_delete)
qed

section \<open>Starting, undoing, merging and committing sessions\<close>

lemma fresh_undo_inv:
  assumes "contents_inv key m n"
  shows "undo_inv key \<lparr>old_values = [], removed_values = [], new_ids = [], old_next_id = n, undo_revision = r\<rparr> m"
    and "restore \<lparr>old_values = [], removed_values = [], new_ids = [], old_next_id = n, undo_revision = r\<rparr> m = m"
proof -
  have "n \<le> i \<Longrightarrow> m i = None" for i
    using assms by (cases "m i") (force simp: contents_inv_def)+
  then show "undo_inv key \<lparr>old_values = [], removed_values = [], new_ids = [], old_next_id = n, undo_revision = r\<rparr> m"
    by (auto simp: undo_inv_def cell_of_def)
qed (simp add: restore_def cell_of_def)

lemma start_inv:
  assumes "index_inv key g"
  shows "index_inv key (start_undo_session True g)"
    and "view (start_undo_session True g) = view g"
    and "saved (start_undo_session True g) = view g # saved g"
proof -
  have c: "contents_inv key (map_of (indices g)) (next_id g)"
    using assms by (auto simp: index_inv_def intro: stack_inv_contents)
  note F = fresh_undo_inv [OF c, of "revision g + 1"]
  show "index_inv key (start_undo_session True g)"
    using assms c F by (simp add: index_inv_def start_undo_session_def)
  show "view (start_undo_session True g) = view g"
    "saved (start_undo_session True g) = view g # saved g"
    using F(2) by (simp_all add: start_undo_session_def view_def saved_def)
qed

lemma stack_inv_revision:
  "stack_inv key st r m n \<Longrightarrow> u \<in> set st \<Longrightarrow> undo_revision u \<le> r"
proof (induction st arbitrary: r m n)
  case (Cons a st)
  then show ?case by auto (metis diff_ge_0_iff_ge diff_le_eq order_trans zle_diff1_eq less_imp_le)
qed simp

lemma commit_front_dropWhile: "commit_front c us = dropWhile (\<lambda>u. undo_revision u \<le> c) us"
  by (induction us) auto

lemma commit_front_rev:
  "stack_inv key st r m n \<Longrightarrow>
     rev (commit_front c (rev st)) = takeWhile (\<lambda>u. c < undo_revision u) st"
proof (induction st arbitrary: r m n)
  case Nil
  then show ?case by simp
next
  case (Cons a st)
  have IH: "rev (dropWhile (\<lambda>u. undo_revision u \<le> c) (rev st)) = takeWhile (\<lambda>u. c < undo_revision u) st"
    using Cons by (auto simp: commit_front_dropWhile)
  show ?case
  proof (cases "c < undo_revision a")
    case True
    then show ?thesis using IH
      by (auto simp: commit_front_dropWhile dropWhile_append dropWhile_eq_Nil_conv rev_swap
          takeWhile_eq_Nil_iff neq_Nil_conv)
  next
    case False
    have "\<forall>u\<in>set st. undo_revision u \<le> c"
      using Cons.prems False stack_inv_revision by fastforce
    then show ?thesis using False by (simp add: commit_front_dropWhile dropWhile_append)
  qed
qed

lemma stack_inv_take: "stack_inv key st r m n \<Longrightarrow> stack_inv key (takeWhile P st) r m n"
  by (induction st arbitrary: r m n) (auto intro: stack_inv_contents)

lemma snapshots_take: "snapshots (takeWhile P st) m = take (length (takeWhile P st)) (snapshots st m)"
  by (induction st arbitrary: m) auto

lemma commit_inv:
  assumes "index_inv key g"
  shows "index_inv key (commit c g)" and "view (commit c g) = view g"
    and "saved (commit c g) = take (length (takeWhile (\<lambda>u. c < undo_revision u) (stack g))) (saved g)"
  using assms
  by (auto simp: index_inv_def commit_def view_def saved_def commit_front_rev snapshots_take
      intro: stack_inv_take)

text \<open>
  Undoing: the three loops of \<open>undo\<close> succeed, because the recorded old values have the keys of
  the current ones and the snapshot they rebuild has unique keys.
\<close>

lemma map_add_if: "f ++ (\<lambda>a. if a = k then Some v else h a) = (f ++ h)(k \<mapsto> v)"
  by (auto simp: map_add_def fun_eq_iff)

lemma undo_old_loop:
  assumes "sorted_ids rows" "unique_keys key (map_of rows)" "distinct (map fst old)"
    and "\<forall>p\<in>set old. \<exists>w. map_of rows (fst p) = Some w \<and> key w = key (snd p)"
  shows "\<exists>rows'. efold (\<lambda>p. set_row key (fst p) (snd p)) old rows = Inr rows' \<and> sorted_ids rows'
    \<and> map_of rows' = map_of rows ++ map_of old"
  using assms
proof (induction old arbitrary: rows)
  case Nil
  then show ?case by simp
next
  case (Cons p old)
  obtain w where w: "map_of rows (fst p) = Some w" "key w = key (snd p)" using Cons.prems(4) by auto
  have d: "distinct (map fst rows)" using Cons.prems(1) by (simp add: sorted_ids_def)
  let ?rows = "map_assign (fst p) (snd p) rows"
  have ne: "fst q = fst p" if "q \<in> set rows" "key (snd q) = key (snd p)" for q
    using Cons.prems(2) w that d unfolding unique_keys_def
    by (metis map_of_eq_Some_iff prod.collapse)
  have mem: "fst p \<in> fst ` set rows" using w(1) by (simp add: mem_keys_iff)
  have step: "set_row key (fst p) (snd p) rows = Inr ?rows"
    using ne mem by (auto simp: set_row_def)
  have m: "map_of ?rows = (map_of rows)(fst p \<mapsto> snd p)" using mem by simp
  have "unique_keys key (map_of ?rows)"
    using Cons.prems(2) w m unfolding unique_keys_def by auto
  moreover have "\<forall>q\<in>set old. \<exists>w. map_of ?rows (fst q) = Some w \<and> key w = key (snd q)"
    using Cons.prems(3,4) m by auto
  ultimately have "\<exists>rows'. efold (\<lambda>p. set_row key (fst p) (snd p)) old ?rows = Inr rows'
      \<and> sorted_ids rows' \<and> map_of rows' = map_of ?rows ++ map_of old"
    using Cons.prems(1,3) by (intro Cons.IH) auto
  then show ?case
    using step m Cons.prems(3) by (auto simp: map_add_upd_left map_add_if map_of_None_iff dom_map_of_conv_image_fst)
qed

lemma undo_new_loop:
  "sorted_ids rows \<Longrightarrow> sorted_ids (fold map_erase ids rows)
     \<and> map_of (fold map_erase ids rows) = (\<lambda>i. if i \<in> set ids then None else map_of rows i)"
  by (induction ids arbitrary: rows) (auto simp: fun_eq_iff)

lemma undo_removed_loop:
  assumes "sorted_ids rows" "unique_keys key T" "distinct (map fst rm)"
    and "\<forall>p\<in>set rm. T (fst p) = Some (snd p) \<and> map_of rows (fst p) = None"
    and "\<forall>i v. map_of rows i = Some v \<longrightarrow> T i = Some v"
  shows "\<exists>rows'. efold (\<lambda>p rows.
            if \<exists>q\<in>set rows. fst q = fst p \<or> key (snd q) = key (snd p) then Inl logic_error
            else Inr (insort_key fst p rows)) rm rows = Inr rows' \<and> sorted_ids rows'
    \<and> map_of rows' = map_of rows ++ map_of rm"
  using assms
proof (induction rm arbitrary: rows)
  case Nil
  then show ?case by simp
next
  case (Cons p rm)
  have T: "T (fst p) = Some (snd p)" and n: "fst p \<notin> fst ` set rows"
    using Cons.prems(4) by (auto simp: map_of_None_iff)
  have d: "distinct (map fst rows)" using Cons.prems(1) by (simp add: sorted_ids_def)
  have "fst q = fst p" if "q \<in> set rows" "key (snd q) = key (snd p)" for q
    using Cons.prems(2,5) T that d unfolding unique_keys_def
    by (metis map_of_eq_Some_iff prod.collapse)
  then have c: "\<not> (\<exists>q\<in>set rows. fst q = fst p \<or> key (snd q) = key (snd p))" using n by (metis image_eqI)
  let ?rows = "insort_key fst p rows"
  have m: "map_of ?rows = (map_of rows)(fst p \<mapsto> snd p)" using n by simp
  have "\<exists>rows'. efold (\<lambda>p rows.
            if \<exists>q\<in>set rows. fst q = fst p \<or> key (snd q) = key (snd p) then Inl logic_error
            else Inr (insort_key fst p rows)) rm ?rows = Inr rows' \<and> sorted_ids rows'
    \<and> map_of rows' = map_of ?rows ++ map_of rm"
    using Cons.prems n m T by (intro Cons.IH) (auto, force)
  then show ?case
    using c m Cons.prems(3) by (auto simp: map_add_upd_left map_add_if map_of_None_iff dom_map_of_conv_image_fst)
qed

lemma undo_cells:
  assumes "undo_inv key u m"
  shows "i \<in> set (new_ids u) \<Longrightarrow> map_of (old_values u) i = None \<and> map_of (removed_values u) i = None"
    and "map_of (old_values u) i = Some v \<Longrightarrow> \<exists>w. m i = Some w \<and> key w = key v"
    and "map_of (removed_values u) i = Some v \<Longrightarrow> m i = None \<and> map_of (old_values u) i = None"
  using undo_invD(4) [OF assms, of i] by (auto simp: cell_of_def)

lemma restore_add:
  "restore u m i = (if i \<in> set (new_ids u) then None
      else (m ++ map_of (old_values u) ++ map_of (removed_values u)) i)"
  by (cases "map_of (old_values u) i"; cases "map_of (removed_values u) i")
     (simp_all add: restore_def cell_of_def map_add_def)

lemma undo_inv_step:
  assumes inv: "index_inv key g" and st: "stack g = u # us"
  shows "\<exists>g'. undo key g = Inr g' \<and> index_inv key g'
    \<and> view g' = (restore u (map_of (indices g)), old_next_id u) \<and> stack g' = us \<and> revision g' = revision g - 1"
proof -
  let ?m = "map_of (indices g)" and ?T = "restore u (map_of (indices g))"
  have I: "sorted_ids (indices g)" "contents_inv key ?m (next_id g)" "undo_inv key u ?m"
    "stack_inv key us (revision g - 1) ?T (old_next_id u)"
    using inv st by (simp_all add: index_inv_def)
  note U = undo_invD(1-3) [OF I(3)]
  note cN = undo_cells(1) [OF I(3)] and cO = undo_cells(2) [OF I(3)] and cR = undo_cells(3) [OF I(3)]
  note T = restore_add [of u "map_of (indices g)"]
  have uT: "unique_keys key ?T" using stack_inv_contents [OF I(4)] by (simp add: contents_inv_def)
  have dist: "distinct (map fst (old_values u))" "distinct (map fst (removed_values u))"
    using U(1,2) by (simp_all add: sorted_ids_def)
  have old: "\<forall>p\<in>set (old_values u). \<exists>w. ?m (fst p) = Some w \<and> key w = key (snd p)"
    using cO dist(1) by (metis map_of_eq_Some_iff prod.collapse)
  have um: "unique_keys key ?m" using I(2) by (simp add: contents_inv_def)
  obtain r1 where r1: "efold (\<lambda>p. set_row key (fst p) (snd p)) (old_values u) (indices g) = Inr r1"
    "sorted_ids r1" "map_of r1 = ?m ++ map_of (old_values u)"
    using undo_old_loop [OF I(1) um dist(1) old] by blast
  let ?r2 = "fold map_erase (new_ids u) r1"
  have r2: "sorted_ids ?r2" "map_of ?r2 = (\<lambda>i. if i \<in> set (new_ids u) then None else map_of r1 i)"
    using undo_new_loop [OF r1(2)] by auto
  have r2_i: "map_of ?r2 i = (if i \<in> set (new_ids u) then None
      else (?m ++ map_of (old_values u)) i)" for i
    using r1(3) r2(2) by simp
  have le: "\<forall>i v. map_of ?r2 i = Some v \<longrightarrow> ?T i = Some v"
  proof (intro allI impI)
    fix i v assume a: "map_of ?r2 i = Some v"
    then have "map_of (removed_values u) i = None"
      using cR [of i] r2_i [of i] by (cases "map_of (removed_values u) i") (auto split: if_splits)
    with a show "?T i = Some v" using T [of i] r2_i [of i] by (auto simp: map_add_def split: if_splits)
  qed
  have rm: "\<forall>p\<in>set (removed_values u). ?T (fst p) = Some (snd p) \<and> map_of ?r2 (fst p) = None"
  proof
    fix p assume "p \<in> set (removed_values u)"
    then have e: "map_of (removed_values u) (fst p) = Some (snd p)" using dist(2) by simp
    then have "fst p \<notin> set (new_ids u)" using cN by (metis option.distinct(1))
    then show "?T (fst p) = Some (snd p) \<and> map_of ?r2 (fst p) = None"
      using e cR [OF e] T [of "fst p"] r2_i [of "fst p"] by (simp add: map_add_def)
  qed
  obtain r3 where r3: "efold (\<lambda>p rows.
            if \<exists>q\<in>set rows. fst q = fst p \<or> key (snd q) = key (snd p) then Inl logic_error
            else Inr (insort_key fst p rows)) (removed_values u) ?r2 = Inr r3"
    "sorted_ids r3" "map_of r3 = map_of ?r2 ++ map_of (removed_values u)"
    using undo_removed_loop [OF r2(1) uT dist(2) rm le] by blast
  have "map_of r3 i = ?T i" for i
    using T [of i] cN [of i] r2_i [of i]
    by (cases "i \<in> set (new_ids u)") (simp_all add: r3(3) map_add_def split: option.split)
  then have "map_of r3 = ?T" by blast
  then show ?thesis using st r1(1) r3 I(4)
    by (auto simp: undo_def Let_def index_inv_def view_def)
qed

text \<open>
  Merging: every step of \<open>squash\<close> records in the lower undo state one change of the upper session,
  exactly as the change itself would have been recorded there.
\<close>

lemma squash_steps:
  "squash_old p = modified (fst p) (snd p)"
  "squash_new i = created i"
  by (auto simp: fun_eq_iff on_defs squash_old_def squash_new_def)

lemma squash_removed_step:
  "squash_removed p = removed (fst p) (snd p)"
  by (auto simp: fun_eq_iff on_defs squash_removed_def map_emplace_def split: option.split)

lemma ne_key: "k \<notin> fst ` set xs \<Longrightarrow> (k, b) \<notin> set xs"
  by (auto simp: image_iff)

lemma squash_old_fold:
  assumes "undo_inv key u m" "distinct (map fst old)"
    and "\<forall>p\<in>set old. m (fst p) = Some (snd p) \<and> (\<exists>w. m' (fst p) = Some w \<and> key w = key (snd p))"
  shows "undo_inv key (fold squash_old old u) (\<lambda>i. if i \<in> fst ` set old then m' i else m i)
    \<and> restore (fold squash_old old u) (\<lambda>i. if i \<in> fst ` set old then m' i else m i) = restore u m"
  using assms
proof (induction old arbitrary: u m)
  case Nil
  then show ?case by simp
next
  case (Cons p old)
  obtain w where w: "m' (fst p) = Some w" "key w = key (snd p)" and m: "m (fst p) = Some (snd p)"
    using Cons.prems(3) by auto
  note M = modified_inv [where i = "fst p" and v = "snd p", OF Cons.prems(1) m w(2)]
  have e: "(\<lambda>i. if i \<in> fst ` set (p # old) then m' i else m i)
      = (\<lambda>i. if i \<in> fst ` set old then m' i else (m(fst p \<mapsto> w)) i)"
    using w(1) by auto
  have "\<forall>q\<in>set old. (m(fst p \<mapsto> w)) (fst q) = Some (snd q) \<and> (\<exists>w. m' (fst q) = Some w \<and> key w = key (snd q))"
    using Cons.prems(2,3) by (auto simp: ne_key)
  then have "undo_inv key (fold squash_old old (modified (fst p) (snd p) u))
        (\<lambda>i. if i \<in> fst ` set old then m' i else (m(fst p \<mapsto> w)) i)
    \<and> restore (fold squash_old old (modified (fst p) (snd p) u))
        (\<lambda>i. if i \<in> fst ` set old then m' i else (m(fst p \<mapsto> w)) i)
      = restore (modified (fst p) (snd p) u) (m(fst p \<mapsto> w))"
    using M Cons.prems(2) by (intro Cons.IH [where m = "m(fst p \<mapsto> w)"]) (auto simp: fun_upd_def)
  then show ?case unfolding e using M by (simp add: squash_steps(1) [of p])
qed

lemma squash_new_fold:
  assumes "undo_inv key u m" "\<forall>i\<in>set ids. m i = None \<and> old_next_id u \<le> i \<and> m' i \<noteq> None" "distinct ids"
  shows "undo_inv key (fold squash_new ids u) (\<lambda>i. if i \<in> set ids then m' i else m i)
    \<and> restore (fold squash_new ids u) (\<lambda>i. if i \<in> set ids then m' i else m i) = restore u m"
  using assms
proof (induction ids arbitrary: u m)
  case Nil
  then show ?case by simp
next
  case (Cons k ids)
  obtain w where w: "m' k = Some w" and m: "m k = None" "old_next_id u \<le> k"
    using Cons.prems(2) by auto
  note M = created_inv [where v = w, OF Cons.prems(1) m]
  have e: "(\<lambda>i. if i \<in> set (k # ids) then m' i else m i)
      = (\<lambda>i. if i \<in> set ids then m' i else (m(k \<mapsto> w)) i)"
    using w by auto
  have "\<forall>i\<in>set ids. (m(k \<mapsto> w)) i = None \<and> old_next_id (created k u) \<le> i \<and> m' i \<noteq> None"
    using Cons.prems(2,3) by auto
  then have "undo_inv key (fold squash_new ids (created k u)) (\<lambda>i. if i \<in> set ids then m' i else (m(k \<mapsto> w)) i)
    \<and> restore (fold squash_new ids (created k u)) (\<lambda>i. if i \<in> set ids then m' i else (m(k \<mapsto> w)) i)
      = restore (created k u) (m(k \<mapsto> w))"
    using M Cons.prems(3) by (intro Cons.IH [where m = "m(k \<mapsto> w)"]) (auto simp: fun_upd_def)
  then show ?case unfolding e using M by (simp add: squash_steps(2) [of k])
qed

lemma squash_removed_fold:
  assumes "undo_inv key u m" "distinct (map fst rm)" "\<forall>p\<in>set rm. m (fst p) = Some (snd p)"
  shows "undo_inv key (fold squash_removed rm u) (\<lambda>i. if i \<in> fst ` set rm then None else m i)
    \<and> restore (fold squash_removed rm u) (\<lambda>i. if i \<in> fst ` set rm then None else m i) = restore u m"
  using assms
proof (induction rm arbitrary: u m)
  case Nil
  then show ?case by simp
next
  case (Cons p rm)
  have m: "m (fst p) = Some (snd p)" using Cons.prems(3) by auto
  note M = removed_inv [OF Cons.prems(1) m]
  have e: "(\<lambda>i. if i \<in> fst ` set (p # rm) then None else m i)
      = (\<lambda>i. if i \<in> fst ` set rm then None else (m(fst p := None)) i)"
    by auto
  have "\<forall>q\<in>set rm. (m(fst p := None)) (fst q) = Some (snd q)"
    using Cons.prems(2,3) by (auto simp: ne_key)
  then have "undo_inv key (fold squash_removed rm (removed (fst p) (snd p) u))
        (\<lambda>i. if i \<in> fst ` set rm then None else (m(fst p := None)) i)
    \<and> restore (fold squash_removed rm (removed (fst p) (snd p) u))
        (\<lambda>i. if i \<in> fst ` set rm then None else (m(fst p := None)) i)
      = restore (removed (fst p) (snd p) u) (m(fst p := None))"
    using M Cons.prems(2) by (intro Cons.IH [where m = "m(fst p := None)"]) (auto simp: fun_upd_def)
  then show ?case unfolding e using M by (simp add: squash_removed_step [of p])
qed

lemma squash_frame [simp]:
  "old_next_id (fold squash_old xs u) = old_next_id u \<and> undo_revision (fold squash_old xs u) = undo_revision u"
  "old_next_id (fold squash_new is u) = old_next_id u \<and> undo_revision (fold squash_new is u) = undo_revision u"
  "old_next_id (fold squash_removed xs u) = old_next_id u \<and> undo_revision (fold squash_removed xs u) = undo_revision u"
proof -
  show "old_next_id (fold squash_old xs u) = old_next_id u \<and> undo_revision (fold squash_old xs u) = undo_revision u"
    by (induction xs arbitrary: u) (simp_all add: squash_steps)
  show "old_next_id (fold squash_new is u) = old_next_id u \<and> undo_revision (fold squash_new is u) = undo_revision u"
    by (induction "is" arbitrary: u) (simp_all add: squash_steps)
  show "old_next_id (fold squash_removed xs u) = old_next_id u \<and> undo_revision (fold squash_removed xs u) = undo_revision u"
    by (induction xs arbitrary: u) (simp_all add: squash_removed_step)
qed

definition merge_undo :: "'a undo_state \<Rightarrow> 'a undo_state \<Rightarrow> 'a undo_state" where
  "merge_undo u p = fold squash_removed (removed_values u)
     (fold squash_new (new_ids u) (fold squash_old (old_values u) p))"

lemma merge_undo_inv:
  assumes u: "undo_inv key u m" and p: "undo_inv key p (restore u m)"
    and n: "old_next_id p \<le> old_next_id u"
  shows "undo_inv key (merge_undo u p) m \<and> restore (merge_undo u p) m = restore p (restore u m)"
proof -
  note U = undo_invD [OF u] and C = undo_cells [OF u]
  let ?O = "fst ` set (old_values u)" and ?N = "set (new_ids u)" and ?R = "fst ` set (removed_values u)"
  let ?m1 = "\<lambda>i. if i \<in> ?O then m i else restore u m i"
  let ?m2 = "\<lambda>i. if i \<in> ?N then m i else ?m1 i"
  let ?m3 = "\<lambda>i. if i \<in> ?R then None else ?m2 i"
  have dist: "distinct (map fst (old_values u))" "distinct (map fst (removed_values u))"
    using U(1,2) by (simp_all add: sorted_ids_def)
  have new: "i \<in> ?N \<Longrightarrow> m i \<noteq> None \<and> old_next_id u \<le> i" for i
    using U(4) [of i] by (simp add: cell_of_def)
  have old: "\<forall>q\<in>set (old_values u). restore u m (fst q) = Some (snd q) \<and> (\<exists>w. m (fst q) = Some w \<and> key w = key (snd q))"
  proof
    fix q assume "q \<in> set (old_values u)"
    then have e: "map_of (old_values u) (fst q) = Some (snd q)" using dist(1) by simp
    have "fst q \<notin> ?N" using e C(1) [of "fst q"] by auto
    moreover have "map_of (removed_values u) (fst q) = None"
      using e C(3) [of "fst q"] by (cases "map_of (removed_values u) (fst q)") auto
    ultimately show "restore u m (fst q) = Some (snd q) \<and> (\<exists>w. m (fst q) = Some w \<and> key w = key (snd q))"
      using e C(2) [OF e] by (simp add: restore_add map_add_def)
  qed
  note s1 = squash_old_fold [OF p dist(1) old]
  have nw: "\<forall>i\<in>?N. ?m1 i = None \<and> old_next_id (fold squash_old (old_values u) p) \<le> i \<and> m i \<noteq> None"
  proof
    fix i assume i: "i \<in> ?N"
    then have "i \<notin> ?O" using C(1) by (simp add: map_of_None_iff)
    then show "?m1 i = None \<and> old_next_id (fold squash_old (old_values u) p) \<le> i \<and> m i \<noteq> None"
      using i new [OF i] n by (simp add: restore_add)
  qed
  note s2 = squash_new_fold [OF conjunct1 [OF s1] nw U(3)]
  have rm: "\<forall>q\<in>set (removed_values u). ?m2 (fst q) = Some (snd q)"
  proof
    fix q assume "q \<in> set (removed_values u)"
    then have e: "map_of (removed_values u) (fst q) = Some (snd q)" using dist(2) by simp
    then have "fst q \<notin> ?N" "fst q \<notin> ?O"
      using C(1) [of "fst q"] C(3) [OF e] by (auto simp: mem_keys_iff)
    then show "?m2 (fst q) = Some (snd q)" using e by (simp add: restore_add map_add_def)
  qed
  note s3 = squash_removed_fold [OF conjunct1 [OF s2] dist(2) rm]
  have "?m3 i = m i" for i
  proof (cases "map_of (removed_values u) i")
    case None
    then show ?thesis
      by (cases "map_of (old_values u) i") (auto simp: restore_add map_add_def mem_keys_iff)
  next
    case (Some v)
    then show ?thesis using C(3) [OF Some] by (simp add: mem_keys_iff)
  qed
  then have "?m3 = m" by blast
  with s1 s2 s3 show ?thesis unfolding merge_undo_def by simp
qed

lemma squash_inv:
  assumes "index_inv key g" "stack g = u # us"
  shows "index_inv key (squash g) \<and> view (squash g) = view g \<and> saved (squash g) = tl (saved g)"
proof (cases us)
  case Nil
  then show ?thesis using assms by (auto simp: index_inv_def squash_def view_def saved_def)
next
  case (Cons p ps)
  have sq: "squash g = g\<lparr>stack := merge_undo u p # ps, revision := revision g - 1\<rparr>"
    using assms(2) Cons by (simp add: squash_def merge_undo_def)
  have I: "undo_inv key u (map_of (indices g))" "undo_inv key p (restore u (map_of (indices g)))"
    "old_next_id p \<le> old_next_id u" "old_next_id u \<le> next_id g"
    using assms Cons by (simp_all add: index_inv_def)
  note M = merge_undo_inv [OF I(1-3)]
  have "old_next_id (merge_undo u p) = old_next_id p" "undo_revision (merge_undo u p) = undo_revision p"
    by (simp_all add: merge_undo_def)
  then show ?thesis using assms Cons M I(3,4) sq
    by (simp add: index_inv_def view_def saved_def)
qed

section \<open>The interface of an undoable store\<close>

text \<open>
  What the clients of the store rely on: sessions behave as a stack of saved views.  A \<open>run\<close> of a
  session is any sequence of changes and of complete inner sessions, each undone or merged.
\<close>

locale undo_store =
  fixes inv :: "'s \<Rightarrow> bool"
    and vw :: "'s \<Rightarrow> 'v"
    and svd :: "'s \<Rightarrow> 'v list"
    and start :: "'s \<Rightarrow> 's"
    and und :: "'s \<Rightarrow> 's result"
    and sqsh :: "'s \<Rightarrow> 's"
    and chg :: "'s \<Rightarrow> 's \<Rightarrow> bool"
  assumes inv_start: "inv s \<Longrightarrow> inv (start s) \<and> vw (start s) = vw s \<and> svd (start s) = vw s # svd s"
    and inv_chg: "chg s t \<Longrightarrow> inv s \<Longrightarrow> inv t \<and> svd t = svd s"
    and inv_und: "inv s \<Longrightarrow> svd s = v # vs \<Longrightarrow> \<exists>t. und s = Inr t \<and> inv t \<and> vw t = v \<and> svd t = vs"
    and inv_sqsh: "inv s \<Longrightarrow> svd s = v # vs \<Longrightarrow> inv (sqsh s) \<and> vw (sqsh s) = vw s \<and> svd (sqsh s) = vs"
begin

inductive run :: "'s \<Rightarrow> 's \<Rightarrow> bool" where
  run_refl: "run s s"
| run_chg: "run s t \<Longrightarrow> chg t u \<Longrightarrow> run s u"
| run_undone: "run s t \<Longrightarrow> run (start t) u \<Longrightarrow> und u = Inr w \<Longrightarrow> run s w"
| run_merged: "run s t \<Longrightarrow> run (start t) u \<Longrightarrow> run s (sqsh u)"

lemma run_inv: "run s t \<Longrightarrow> inv s \<Longrightarrow> inv t \<and> svd t = svd s"
proof (induction rule: run.induct)
  case (run_refl s)
  then show ?case by simp
next
  case (run_chg s t u)
  then show ?case using inv_chg by metis
next
  case (run_undone s t u w)
  then have "inv u" "svd u = vw t # svd t" using inv_start by auto
  then show ?case using inv_und run_undone.IH(1) run_undone.hyps(3) run_undone.prems by fastforce
next
  case (run_merged s t u)
  then have "inv u" "svd u = vw t # svd t" using inv_start by auto
  then show ?case using inv_sqsh run_merged.IH(1) run_merged.prems by metis
qed

lemma session_undo:
  assumes "inv s" "run (start s) t"
  shows "\<exists>u. und t = Inr u \<and> inv u \<and> vw u = vw s \<and> svd u = svd s"
  using run_inv [OF assms(2)] inv_start [OF assms(1)] inv_und [of t] by auto

lemma session_squash:
  assumes "inv s" "run (start s) t"
  shows "inv (sqsh t) \<and> vw (sqsh t) = vw t \<and> svd (sqsh t) = svd s"
  using run_inv [OF assms(2)] inv_start [OF assms(1)] inv_sqsh [of t] by auto

end

lemma undo_pops:
  assumes "index_inv key g" "saved g = v # vs"
  shows "\<exists>t. undo key g = Inr t \<and> index_inv key t \<and> view t = v \<and> saved t = vs"
proof -
  obtain u us where st: "stack g = u # us" using assms(2) by (cases "stack g") (auto simp: saved_def)
  obtain g' where "undo key g = Inr g'" "index_inv key g'"
    "view g' = (restore u (map_of (indices g)), old_next_id u)" "stack g' = us"
    using undo_inv_step [OF assms(1) st] by blast
  then show ?thesis using assms(2) st by (auto simp: saved_def view_def)
qed

lemma squash_pops:
  assumes "index_inv key g" "saved g = v # vs"
  shows "index_inv key (squash g) \<and> view (squash g) = view g \<and> saved (squash g) = vs"
proof -
  obtain u us where st: "stack g = u # us" using assms(2) by (cases "stack g") (auto simp: saved_def)
  show ?thesis using squash_inv [OF assms(1) st] assms(2) by simp
qed

interpretation gi: undo_store "index_inv key" view saved "start_undo_session True" "undo key" squash
  "change key" for key :: "'a \<Rightarrow> 'k"
  using start_inv change_inv undo_pops squash_pops by unfold_locales blast+

lemma view_eqI:
  assumes "index_inv key g" "index_inv key g'" "view g = view g'"
  shows "indices g = indices g' \<and> next_id g = next_id g'"
  using assms by (auto simp: view_def index_inv_def intro: sorted_ids_eqI)

section \<open>Properties\<close>

abbreviation session_run :: "('a \<Rightarrow> 'k) \<Rightarrow> 'a generic_index \<Rightarrow> 'a generic_index \<Rightarrow> bool" where
  "session_run key \<equiv> undo_store.run (start_undo_session True) (undo key) squash (change key)"

text \<open>
  (C1) Undoing a session restores the index exactly.  Whatever a session does -- create, modify
  (keeping unique keys) and remove objects, and open inner sessions that it undoes or merges, in
  any order and to any depth -- \<open>undo\<close> at its end succeeds and gives back the rows and the next id
  the session started from, and the states saved by the enclosing sessions.
\<close>

theorem session_undo_restores:
  assumes "index_inv key g" "session_run key (start_undo_session True g) t"
  shows "\<exists>u. undo key t = Inr u \<and> indices u = indices g \<and> next_id u = next_id g
    \<and> saved u = saved g \<and> index_inv key u"
proof -
  obtain u where u: "undo key t = Inr u" "index_inv key u" "view u = view g" "saved u = saved g"
    using gi.session_undo [OF assms] by blast
  then show ?thesis using view_eqI [OF u(2) assms(1) u(3)] by blast
qed

lemma empty_index_inv: "index_inv key empty_index"
  by (simp add: index_inv_def empty_index_def contents_inv_def unique_keys_def)

definition one_object :: "nat generic_index" where
  "one_object = (case emplace (\<lambda>x. x) (\<lambda>_. 7) (start_undo_session True empty_index) of Inr (_, g) \<Rightarrow> g | Inl _ \<Rightarrow> empty_index)"

lemma one_object_run: "session_run (\<lambda>x. x) (start_undo_session True empty_index) one_object"
proof -
  have "change (\<lambda>x. x) (start_undo_session True empty_index) one_object"
    by (rule change.create [of _ "\<lambda>_. 7" _ 0])
       (simp add: one_object_def emplace_def start_undo_session_def empty_index_def)
  then show ?thesis by (rule gi.run.run_chg [OF gi.run.run_refl])
qed

theorem session_undo_restores_witness:
  "\<exists>u. undo (\<lambda>x. x) one_object = Inr u \<and> indices u = [] \<and> next_id u = 0"
  using session_undo_restores [OF empty_index_inv one_object_run] by (auto simp: empty_index_def)



text \<open>
  Committing up to a revision changes nothing that is visible and only makes the oldest
  sessions permanent: the index stays consistent, its rows and next id stay the same, and the
  states that can still be restored are a prefix of those before.
\<close>

theorem commit_keeps_view:
  assumes "index_inv key g"
  shows "index_inv key (commit r g) \<and> indices (commit r g) = indices g \<and> next_id (commit r g) = next_id g
    \<and> (\<exists>n. saved (commit r g) = take n (saved g))
    \<and> (\<forall>u\<in>set (stack (commit r g)). r < undo_revision u)"
proof -
  have "stack (commit r g) = takeWhile (\<lambda>u. r < undo_revision u) (stack g)"
    using assms commit_front_rev [of key "stack g"] by (auto simp: commit_def index_inv_def)
  then have "\<forall>u\<in>set (stack (commit r g)). r < undo_revision u" by (auto dest: set_takeWhileD)
  moreover have "indices (commit r g) = indices g" "next_id (commit r g) = next_id g" by (simp_all add: commit_def)
  ultimately show ?thesis using commit_inv(1,3) [OF assms, of r] by blast
qed

theorem commit_keeps_view_witness:
  "indices (commit 1 one_object) = indices one_object \<and> stack (commit 1 one_object) = []"
proof -
  have "index_inv (\<lambda>x. x) one_object"
    using gi.run_inv [OF one_object_run] start_inv [OF empty_index_inv] by blast
  from commit_keeps_view [OF this, of 1] have "indices (commit 1 one_object) = indices one_object"
    "\<forall>u\<in>set (stack (commit 1 one_object)). 1 < undo_revision u" by blast+
  then show ?thesis
    by (simp add: commit_def one_object_def emplace_def start_undo_session_def empty_index_def on_create_def)
qed

end
