(* ===== verification/Authority.thy ===== *)
theory Authority
  imports WLS_Prelude "HOL-Library.Char_ord" "HOL-Library.List_Lexorder"
begin

text \<open>
  Account names, authorities and the search for signatures: \<open>libraries/protocol/authority.cpp\<close>
  and \<open>sign_state.cpp\<close>.

  \<open>is_valid_account_name\<close> is the index loop of the source; the lemmas show that it decides the
  grammar of the comment in \<open>authority.hpp\<close> (dot-separated labels).  \<open>check_authority\<close> threads the
  state that the source mutates (which signatures were used, which accounts were already
  approved).  Its specification is the inductive predicate \<open>authorized\<close>: the weights of the keys
  that sign and of the accounts that are themselves authorized reach the threshold.
\<close>

section \<open>Flat sets and maps\<close>

text \<open>\<open>boost::container::flat_set\<close> keeps its elements sorted.\<close>

definition flat_insert :: "'a::linorder \<Rightarrow> 'a list \<Rightarrow> 'a list" where
  "flat_insert x xs = (if x \<in> set xs then xs else insort x xs)"

definition flat_insert_all :: "'a::linorder list \<Rightarrow> 'a list \<Rightarrow> 'a list" where
  "flat_insert_all ys xs = fold flat_insert ys xs"

lemma set_flat_insert [simp]: "set (flat_insert x xs) = insert x (set xs)"
  by (auto simp: flat_insert_def set_insort_key)

lemma set_flat_insert_all [simp]: "set (flat_insert_all ys xs) = set ys \<union> set xs"
  by (induction ys arbitrary: xs) (auto simp: flat_insert_all_def)

section \<open>Account names\<close>

definition WLS_MIN_ACCOUNT_NAME_LENGTH :: nat where
  "WLS_MIN_ACCOUNT_NAME_LENGTH = 3"

definition WLS_MAX_ACCOUNT_NAME_LENGTH :: nat where
  "WLS_MAX_ACCOUNT_NAME_LENGTH = 16"

definition is_letter :: "char \<Rightarrow> bool" where
  "is_letter c \<longleftrightarrow> c \<in> set ''abcdefghijklmnopqrstuvwxyz''"

definition is_let_dig :: "char \<Rightarrow> bool" where
  "is_let_dig c \<longleftrightarrow> is_letter c \<or> c \<in> set ''0123456789''"

definition is_let_dig_hyp :: "char \<Rightarrow> bool" where
  "is_let_dig_hyp c \<longleftrightarrow> is_let_dig c \<or> c = CHR ''-''"

definition find_first_of :: "string \<Rightarrow> char \<Rightarrow> nat \<Rightarrow> nat option" where
  "find_first_of s c b = find (\<lambda>i. s ! i = c) [b..<length s]"

function name_loop :: "string \<Rightarrow> nat \<Rightarrow> bool" where
  "name_loop name begin =
     (let len = length name;
          end = (case find_first_of name (CHR ''.'') begin of None \<Rightarrow> len | Some e \<Rightarrow> e)
      in if end - begin < 3 then False
         else if \<not> is_letter (name ! begin) then False
         else if \<not> is_let_dig (name ! (end - 1)) then False
         else if \<exists>i\<in>set [begin + 1..<end - 1]. \<not> is_let_dig_hyp (name ! i) then False
         else if end = len then True
         else name_loop name (end + 1))"
  by pat_completeness auto

lemma find_upt_Some:
  "find P [b..<n] = Some e \<longleftrightarrow> b \<le> e \<and> e < n \<and> P e \<and> (\<forall>i. b \<le> i \<and> i < e \<longrightarrow> \<not> P i)"
proof -
  have nth: "j < n - b \<Longrightarrow> [b..<n] ! j = b + j" for j by simp
  show ?thesis
  proof
    assume "find P [b..<n] = Some e"
    then obtain j where j: "j < n - b" "P (b + j)" "e = b + j" "\<forall>k<j. \<not> P (b + k)"
      by (auto simp: find_Some_iff)
    moreover have "\<not> P i" if "b \<le> i" "i < e" for i
      using j(3,4) that by (metis add_diff_inverse_nat add_less_cancel_left not_less)
    ultimately show "b \<le> e \<and> e < n \<and> P e \<and> (\<forall>i. b \<le> i \<and> i < e \<longrightarrow> \<not> P i)" by auto
  next
    assume "b \<le> e \<and> e < n \<and> P e \<and> (\<forall>i. b \<le> i \<and> i < e \<longrightarrow> \<not> P i)"
    then show "find P [b..<n] = Some e"
      unfolding find_Some_iff by (intro exI [of _ "e - b"]) auto
  qed
qed

lemma find_first_of_Some:
  "find_first_of s c b = Some e \<longleftrightarrow> b \<le> e \<and> e < length s \<and> s ! e = c \<and> (\<forall>i. b \<le> i \<and> i < e \<longrightarrow> s ! i \<noteq> c)"
  by (simp add: find_first_of_def find_upt_Some)

lemma find_first_of_None:
  "find_first_of s c b = None \<longleftrightarrow> (\<forall>i. b \<le> i \<and> i < length s \<longrightarrow> s ! i \<noteq> c)"
  by (auto simp: find_first_of_def find_None_iff)

termination name_loop
  by (relation "measure (\<lambda>(name, begin). length name - begin)")
     (auto simp: find_first_of_Some split: option.splits)

definition is_valid_account_name :: "string \<Rightarrow> bool" where
  "is_valid_account_name name =
     (let len = length name in
      if len < WLS_MIN_ACCOUNT_NAME_LENGTH then False
      else if len > WLS_MAX_ACCOUNT_NAME_LENGTH then False
      else name_loop name 0)"

section \<open>Authorities\<close>

type_synonym public_key_type = "264 word"
type_synonym weight_type = u16
type_synonym account_name_type = string

record authority =
  weight_threshold :: u32
  account_auths :: "(account_name_type \<times> weight_type) list"
  key_auths :: "(public_key_type \<times> weight_type) list"

definition flat_assign :: "'k::linorder \<Rightarrow> 'v \<Rightarrow> ('k \<times> 'v) list \<Rightarrow> ('k \<times> 'v) list" where
  "flat_assign k v m =
     (if k \<in> fst ` set m then map (\<lambda>p. if fst p = k then (k, v) else p) m
      else insort_key fst (k, v) m)"

definition add_authority_key :: "public_key_type \<Rightarrow> weight_type \<Rightarrow> authority \<Rightarrow> authority" where
  "add_authority_key k w a = a\<lparr>key_auths := flat_assign k w (key_auths a)\<rparr>"

definition add_authority_account :: "account_name_type \<Rightarrow> weight_type \<Rightarrow> authority \<Rightarrow> authority" where
  "add_authority_account k w a = a\<lparr>account_auths := flat_assign k w (account_auths a)\<rparr>"

definition get_keys :: "authority \<Rightarrow> public_key_type list" where
  "get_keys a = map fst (key_auths a)"

definition is_impossible :: "authority \<Rightarrow> bool" where
  "is_impossible a =
     (let auth_weights = fold (\<lambda>item (s :: u64). s + ucast (snd item)) (account_auths a) 0;
          auth_weights = fold (\<lambda>item (s :: u64). s + ucast (snd item)) (key_auths a) auth_weights
      in auth_weights < ucast (weight_threshold a))"

definition num_auths :: "authority \<Rightarrow> u32" where
  "num_auths a = of_nat (length (account_auths a) + length (key_auths a))"

definition authority_clear :: "authority \<Rightarrow> authority" where
  "authority_clear a = a\<lparr>account_auths := [], key_auths := []\<rparr>"

definition authority_validate :: "authority \<Rightarrow> unit result" where
  "authority_validate a =
     efold (\<lambda>item _. require (is_valid_account_name (fst item)) (Inr ())) (account_auths a) ()"

definition add_authority_accounts :: "account_name_type list \<Rightarrow> authority \<Rightarrow> account_name_type list" where
  "add_authority_accounts result a = fold (\<lambda>item r. flat_insert (fst item) r) (account_auths a) result"

section \<open>The signature search\<close>

type_synonym authority_getter = "account_name_type \<Rightarrow> authority result"

record sign_state =
  available_keys :: "public_key_type list"
  provided_signatures :: "(public_key_type \<times> bool) list"
  approved_by :: "account_name_type list"

definition signed_by :: "public_key_type \<Rightarrow> sign_state \<Rightarrow> bool \<times> sign_state" where
  "signed_by k s =
     (if k \<notin> fst ` set (provided_signatures s) then
        if k \<in> set (available_keys s) then
          (True, s\<lparr>provided_signatures := flat_assign k True (provided_signatures s)\<rparr>)
        else (False, s)
      else (True, s\<lparr>provided_signatures := flat_assign k True (provided_signatures s)\<rparr>))"

text \<open>The first loop of \<open>check_authority\<close>; \<open>True\<close> in the result is the early return.\<close>

fun check_keys :: "u32 \<Rightarrow> (public_key_type \<times> weight_type) list \<Rightarrow> u32 \<Rightarrow> sign_state
    \<Rightarrow> bool \<times> u32 \<times> sign_state" where
  "check_keys thr [] total_weight s = (False, total_weight, s)"
| "check_keys thr ((k, w) # ks) total_weight s =
     (case signed_by k s of (ok, s) \<Rightarrow>
        if ok then
          (let total_weight = total_weight + ucast w in
           if thr \<le> total_weight then (True, total_weight, s) else check_keys thr ks total_weight s)
        else check_keys thr ks total_weight s)"

text \<open>
  The second loop.  \<open>rec\<close> is the recursive call with \<open>depth + 1\<close>, and is \<open>None\<close> when
  \<open>depth == max_recursion\<close>.
\<close>

fun check_accounts ::
  "authority_getter \<Rightarrow> (authority \<Rightarrow> sign_state \<Rightarrow> (bool \<times> sign_state) result) option \<Rightarrow> u32
    \<Rightarrow> (account_name_type \<times> weight_type) list \<Rightarrow> u32 \<Rightarrow> sign_state \<Rightarrow> (bool \<times> sign_state) result" where
  "check_accounts get_active rec thr [] total_weight s = Inr (thr \<le> total_weight, s)"
| "check_accounts get_active rec thr ((a, w) # as) total_weight s =
     (if a \<notin> set (approved_by s) then
        case rec of
          None \<Rightarrow> check_accounts get_active rec thr as total_weight s
        | Some call \<Rightarrow>
            ebind (get_active a) (\<lambda>au. ebind (call au s) (\<lambda>(ok, s).
              if ok then
                (let s = s\<lparr>approved_by := flat_insert a (approved_by s)\<rparr>; total_weight = total_weight + ucast w in
                 if thr \<le> total_weight then Inr (True, s)
                 else check_accounts get_active rec thr as total_weight s)
              else check_accounts get_active rec thr as total_weight s))
      else
        (let total_weight = total_weight + ucast w in
         if thr \<le> total_weight then Inr (True, s)
         else check_accounts get_active rec thr as total_weight s))"

text \<open>\<open>levels\<close> is \<open>max_recursion - depth\<close>.\<close>

primrec check_authority_levels ::
  "nat \<Rightarrow> authority_getter \<Rightarrow> authority \<Rightarrow> sign_state \<Rightarrow> (bool \<times> sign_state) result" where
  "check_authority_levels 0 get_active auth s =
     (case check_keys (weight_threshold auth) (key_auths auth) 0 s of (done, total_weight, s) \<Rightarrow>
        if done then Inr (True, s)
        else check_accounts get_active None (weight_threshold auth) (account_auths auth) total_weight s)"
| "check_authority_levels (Suc n) get_active auth s =
     (case check_keys (weight_threshold auth) (key_auths auth) 0 s of (done, total_weight, s) \<Rightarrow>
        if done then Inr (True, s)
        else check_accounts get_active (Some (check_authority_levels n get_active))
               (weight_threshold auth) (account_auths auth) total_weight s)"

definition check_authority ::
  "nat \<Rightarrow> authority_getter \<Rightarrow> authority \<Rightarrow> sign_state \<Rightarrow> (bool \<times> sign_state) result" where
  "check_authority max_recursion get_active auth s = check_authority_levels max_recursion get_active auth s"

definition check_authority_id ::
  "nat \<Rightarrow> authority_getter \<Rightarrow> account_name_type \<Rightarrow> sign_state \<Rightarrow> (bool \<times> sign_state) result" where
  "check_authority_id max_recursion get_active i s =
     (if i \<in> set (approved_by s) then Inr (True, s)
      else ebind (get_active i) (\<lambda>au. check_authority max_recursion get_active au s))"

definition remove_unused_signatures :: "sign_state \<Rightarrow> bool \<times> sign_state" where
  "remove_unused_signatures s =
     (let remove_sigs = map fst (filter (\<lambda>sig. \<not> snd sig) (provided_signatures s)) in
      (remove_sigs \<noteq> [],
       s\<lparr>provided_signatures := filter (\<lambda>sig. fst sig \<notin> set remove_sigs) (provided_signatures s)\<rparr>))"

definition init_sign_state :: "public_key_type list \<Rightarrow> public_key_type list \<Rightarrow> sign_state" where
  "init_sign_state sigs keys =
     \<lparr>available_keys = keys,
      provided_signatures = fold (\<lambda>key m. flat_assign key False m) sigs [],
      approved_by = [''temp'']\<rparr>"

section \<open>The grammar of account names\<close>

fun split_on :: "char \<Rightarrow> string \<Rightarrow> string list" where
  "split_on c [] = [[]]"
| "split_on c (x # xs) =
     (if x = c then [] # split_on c xs
      else case split_on c xs of [] \<Rightarrow> [[x]] | l # ls \<Rightarrow> (x # l) # ls)"

definition valid_label :: "string \<Rightarrow> bool" where
  "valid_label l \<longleftrightarrow> 3 \<le> length l \<and> is_letter (hd l) \<and> is_let_dig (last l) \<and> (\<forall>c\<in>set l. is_let_dig_hyp c)"

lemma split_on_none: "c \<notin> set xs \<Longrightarrow> split_on c xs = [xs]"
  by (induction xs) auto

lemma split_on_first: "c \<notin> set xs \<Longrightarrow> split_on c (xs @ c # ys) = xs # split_on c ys"
  by (induction xs) auto

lemma valid_label_slice:
  assumes "b + 3 \<le> e" "e \<le> length s"
  shows "valid_label (take (e - b) (drop b s)) \<longleftrightarrow>
    is_letter (s ! b) \<and> is_let_dig (s ! (e - 1)) \<and> (\<forall>i\<in>set [b + 1..<e - 1]. is_let_dig_hyp (s ! i))"
proof -
  let ?l = "take (e - b) (drop b s)"
  have len: "length ?l = e - b" and nth: "\<And>i. i < e - b \<Longrightarrow> ?l ! i = s ! (b + i)"
    using assms by auto
  have hd: "hd ?l = s ! b" using assms nth [of 0] by (subst hd_conv_nth) auto
  have last: "last ?l = s ! (e - 1)"
    using assms nth [of "e - b - 1"] by (subst last_conv_nth) auto
  have all: "(\<forall>c\<in>set ?l. P c) \<longleftrightarrow> (\<forall>i. b \<le> i \<and> i < e \<longrightarrow> P (s ! i))" for P
  proof -
    have "(\<forall>c\<in>set ?l. P c) \<longleftrightarrow> (\<forall>i<e - b. P (s ! (b + i)))"
      using len nth by (metis all_set_conv_all_nth)
    also have "\<dots> \<longleftrightarrow> (\<forall>i. b \<le> i \<and> i < e \<longrightarrow> P (s ! i))"
      by (metis add_diff_inverse_nat le_add1 less_diff_conv2 nat_add_left_cancel_less not_less
          less_diff_conv add.commute)
    finally show ?thesis .
  qed
  have imp: "is_letter c \<Longrightarrow> is_let_dig_hyp c" "is_let_dig c \<Longrightarrow> is_let_dig_hyp c" for c
    by (auto simp: is_let_dig_def is_let_dig_hyp_def)
  have split: "b \<le> i \<and> i < e \<longleftrightarrow> i = b \<or> i = e - 1 \<or> (b + 1 \<le> i \<and> i < e - 1)" for i
    using assms by auto
  show ?thesis
    unfolding valid_label_def hd last all len split
    using assms imp by auto
qed

lemma name_loop_labels:
  "b \<le> length name \<Longrightarrow>
     name_loop name b \<longleftrightarrow> (\<forall>l\<in>set (split_on (CHR ''.'') (drop b name)). valid_label l)"
proof (induction name b rule: name_loop.induct)
  case (1 name b)
  let ?L = "length name"
  show ?case
  proof (cases "find_first_of name (CHR ''.'') b")
    case None
    then have nd: "CHR ''.'' \<notin> set (drop b name)"
      by (auto simp: find_first_of_None in_set_conv_nth)
    have lab: "take (?L - b) (drop b name) = drop b name" by simp
    show ?thesis
    proof (cases "?L - b < 3")
      case True
      then show ?thesis using None nd by (simp add: split_on_none valid_label_def)
    next
      case False
      then show ?thesis using None nd valid_label_slice [of b ?L name]
        by (auto simp: split_on_none Let_def)
    qed
  next
    case (Some e)
    then have e: "b \<le> e" "e < ?L" "name ! e = CHR ''.''" "\<forall>i. b \<le> i \<and> i < e \<longrightarrow> name ! i \<noteq> CHR ''.''"
      by (auto simp: find_first_of_Some)
    let ?l = "take (e - b) (drop b name)"
    have dr: "drop b name = ?l @ CHR ''.'' # drop (e + 1) name"
      using e by (metis append_take_drop_id drop_drop id_take_nth_drop Cons_nth_drop_Suc Suc_eq_plus1
          le_add_diff_inverse2)
    have "CHR ''.'' \<notin> set ?l" using e by (auto simp: in_set_conv_nth)
    then have sp: "split_on (CHR ''.'') (drop b name) = ?l # split_on (CHR ''.'') (drop (e + 1) name)"
      by (subst dr) (rule split_on_first)
    show ?thesis
    proof (cases "e - b < 3")
      case True
      then show ?thesis using Some sp e by (simp add: valid_label_def)
    next
      case False
      have "name_loop name (e + 1) \<longleftrightarrow> (\<forall>l\<in>set (split_on (CHR ''.'') (drop (e + 1) name)). valid_label l)"
        if "is_letter (name ! b)" "is_let_dig (name ! (e - 1))" "\<forall>i\<in>set [b + 1..<e - 1]. is_let_dig_hyp (name ! i)"
        using that False e Some by (intro "1.IH") auto
      then show ?thesis using Some sp e False valid_label_slice [of b e name]
        by (subst name_loop.simps) (auto simp: Let_def simp del: name_loop.simps)
    qed
  qed
qed

declare name_loop.simps [simp del]

section \<open>Soundness and completeness of the signature search\<close>

text \<open>The weight of those entries of an authority map whose key is in a set.\<close>

definition weight_of :: "'k set \<Rightarrow> ('k \<times> weight_type) list \<Rightarrow> nat" where
  "weight_of S m = sum_list (map (\<lambda>(k, w). if k \<in> S then unat w else 0) m)"

lemma weight_of_simps [simp]:
  "weight_of S [] = 0"
  "weight_of S ((k, w) # m) = (if k \<in> S then unat w else 0) + weight_of S m"
  by (simp_all add: weight_of_def)

lemma weight_of_mono: "S \<subseteq> T \<Longrightarrow> weight_of S m \<le> weight_of T m"
  by (induction m) (auto intro: add_mono)

lemma weight_of_append [simp]: "weight_of S (xs @ ys) = weight_of S xs + weight_of S ys"
  by (simp add: weight_of_def)

text \<open>
  \<open>authorized get K A au\<close>: the keys of \<open>K\<close>, the accounts of \<open>A\<close> and accounts whose own
  authority is authorized reach the threshold of \<open>au\<close>.
\<close>

inductive authorized :: "authority_getter \<Rightarrow> public_key_type set \<Rightarrow> account_name_type set \<Rightarrow> authority \<Rightarrow> bool"
  for get_active K A where
  authorizedI: "\<lbrakk>\<And>a. a \<in> B \<Longrightarrow> a \<in> A \<or> (\<exists>au. get_active a = Inr au \<and> authorized get_active K A au);
     unat (weight_threshold au) \<le> weight_of K (key_auths au) + weight_of B (account_auths au)\<rbrakk>
    \<Longrightarrow> authorized get_active K A au"

definition approvable :: "authority_getter \<Rightarrow> public_key_type set \<Rightarrow> account_name_type set \<Rightarrow> account_name_type set" where
  "approvable get_active K A = {a. a \<in> A \<or> (\<exists>au. get_active a = Inr au \<and> authorized get_active K A au)}"

text \<open>The same with a bound on the depth, for completeness.\<close>

primrec authorized_within ::
  "nat \<Rightarrow> authority_getter \<Rightarrow> public_key_type set \<Rightarrow> account_name_type set \<Rightarrow> authority \<Rightarrow> bool" where
  "authorized_within 0 get_active K A au \<longleftrightarrow>
     unat (weight_threshold au) \<le> weight_of K (key_auths au) + weight_of A (account_auths au)"
| "authorized_within (Suc n) get_active K A au \<longleftrightarrow>
     unat (weight_threshold au) \<le> weight_of K (key_auths au)
       + weight_of {a. a \<in> A \<or> (\<exists>b. get_active a = Inr b \<and> authorized_within n get_active K A b)} (account_auths au)"

definition signing_keys :: "sign_state \<Rightarrow> public_key_type set" where
  "signing_keys s = fst ` set (provided_signatures s) \<union> set (available_keys s)"

lemma keys_flat_assign [simp]: "fst ` set (flat_assign k v m) = insert k (fst ` set m)"
proof -
  have "map fst (map (\<lambda>p. if fst p = k then (k, v) else p) m) = map fst m" by (induction m) auto
  then have "fst ` set (map (\<lambda>p. if fst p = k then (k, v) else p) m) = fst ` set m"
    by (metis list.set_map)
  then show ?thesis by (simp add: flat_assign_def set_insort_key insert_absorb)
qed

lemma signed_by_result:
  assumes "signed_by k s = (ok, s')"
  shows "(ok \<longleftrightarrow> k \<in> signing_keys s) \<and> signing_keys s' = signing_keys s \<and> approved_by s' = approved_by s"
proof (cases "k \<in> signing_keys s")
  case True
  then have "ok" and s': "s' = s\<lparr>provided_signatures := flat_assign k True (provided_signatures s)\<rparr>"
    using assms by (auto simp: signed_by_def signing_keys_def split: if_splits)
  moreover have "signing_keys s' = insert k (signing_keys s)"
    unfolding s' signing_keys_def by simp
  ultimately show ?thesis using True by (simp add: insert_absorb)
next
  case False
  then show ?thesis using assms by (simp add: signed_by_def signing_keys_def)
qed

lemma unat_ucast_16_32: "unat (ucast (w :: u16) :: u32) = unat w"
proof -
  have "unat w < 2 ^ 16" using unsigned_less [of w] by simp
  then show ?thesis by (simp add: unsigned_ucast_eq take_bit_nat_eq_self)
qed

lemma unat_add_ucast_le: "unat (t + ucast (w :: u16) :: u32) \<le> unat t + unat w"
proof -
  have "unat (t + ucast w :: u32) \<le> unat t + unat (ucast w :: u32)"
    by (metis mod_less_eq_dividend unat_word_ariths(1))
  then show ?thesis by (simp add: unat_ucast_16_32)
qed

lemma unat_add_ucast_eq:
  assumes "unat t + unat (w :: u16) < 2 ^ 32"
  shows "unat (t + ucast w :: u32) = unat t + unat w"
proof -
  show ?thesis using assms by (simp add: unat_word_ariths unat_ucast_16_32)
qed

lemma check_keys_result:
  assumes "check_keys thr ks t s = (d, t', s')"
  shows "signing_keys s' = signing_keys s \<and> approved_by s' = approved_by s
    \<and> unat t' \<le> unat t + weight_of (signing_keys s) ks \<and> (d \<longrightarrow> thr \<le> t')"
  using assms
proof (induction thr ks t s rule: check_keys.induct)
  case (1 thr t s)
  then show ?case by simp
next
  case (2 thr k w ks t s)
  obtain ok s1 where s1: "signed_by k s = (ok, s1)" by fastforce
  note R = signed_by_result [OF s1]
  show ?case
  proof (cases "ok \<and> \<not> thr \<le> t + ucast w")
    case True
    then have "check_keys thr ks (t + ucast w) s1 = (d, t', s')" using 2(3) s1 by simp
    then show ?thesis using 2(1) [OF s1 [symmetric]] True R unat_add_ucast_le [of t w] by auto
  next
    case False
    then show ?thesis using 2(2) [OF s1 [symmetric]] 2(3) s1 R unat_add_ucast_le [of t w]
      by (cases ok) auto
  qed
qed

lemma check_keys_complete:
  assumes "check_keys thr ks t s = (d, t', s')" "\<not> d"
    and "unat t + weight_of (signing_keys s) ks < 2 ^ 32"
  shows "unat t' = unat t + weight_of (signing_keys s) ks"
  using assms
proof (induction thr ks t s rule: check_keys.induct)
  case (1 thr t s)
  then show ?case by simp
next
  case (2 thr k w ks t s)
  obtain ok s1 where s1: "signed_by k s = (ok, s1)" by fastforce
  note R = signed_by_result [OF s1]
  show ?case
  proof (cases ok)
    case True
    then have k: "k \<in> signing_keys s" using R by simp
    then have e: "unat (t + ucast w) = unat t + unat w" using 2(5) by (intro unat_add_ucast_eq) simp
    then show ?thesis using 2(1) [OF s1 [symmetric] True refl] 2(3-5) s1 True R k
      by (auto simp: Let_def split: if_splits)
  next
    case False
    then show ?thesis using 2(2) [OF s1 [symmetric] False] 2(3-5) s1 R by auto
  qed
qed

text \<open>One call of the account loop, over what the recursive call guarantees.\<close>

definition call_sound ::
  "authority_getter \<Rightarrow> public_key_type set \<Rightarrow> account_name_type set
    \<Rightarrow> (authority \<Rightarrow> sign_state \<Rightarrow> (bool \<times> sign_state) result) \<Rightarrow> bool" where
  "call_sound get_active K A call \<longleftrightarrow> (\<forall>au s ok s'.
     call au s = Inr (ok, s') \<longrightarrow> signing_keys s = K \<longrightarrow> set (approved_by s) \<subseteq> approvable get_active K A \<longrightarrow>
     signing_keys s' = K \<and> set (approved_by s) \<subseteq> set (approved_by s')
       \<and> set (approved_by s') \<subseteq> approvable get_active K A \<and> (ok \<longrightarrow> authorized get_active K A au))"

lemma call_soundD:
  assumes "call_sound g K A call" "call au s = Inr (ok, s')" "signing_keys s = K"
    and "set (approved_by s) \<subseteq> approvable g K A"
  shows "signing_keys s' = K" "set (approved_by s) \<subseteq> set (approved_by s')"
    and "set (approved_by s') \<subseteq> approvable g K A" "ok \<Longrightarrow> authorized g K A au"
  using assms unfolding call_sound_def by blast+

lemma check_accounts_sound:
  assumes "check_accounts g rec thr as t s = Inr (ok, s')"
    and "\<forall>call. rec = Some call \<longrightarrow> call_sound g K A call"
    and "signing_keys s = K" "set (approved_by s) \<subseteq> approvable g K A"
    and "unat t \<le> n"
  shows "signing_keys s' = K \<and> set (approved_by s) \<subseteq> set (approved_by s')
    \<and> set (approved_by s') \<subseteq> approvable g K A
    \<and> (ok \<longrightarrow> unat thr \<le> n + weight_of (approvable g K A) as)"
  using assms(1,3-5)
proof (induction "as" arbitrary: t s n)
  case Nil
  then show ?case by (auto simp: word_le_nat_alt)
next
  case (Cons p as)
  obtain a w where p: "p = (a, w)" by fastforce
  note prems = Cons.prems [unfolded p]
  let ?P = "approvable g K A"
  have le: "unat (t + ucast w) \<le> n + unat w"
    using unat_add_ucast_le [of t w] prems(4) by linarith
  have hit: "unat thr \<le> n + unat w" if "thr \<le> t + ucast w"
    using that le by (simp add: word_le_nat_alt)
  show ?case
  proof (cases "a \<in> set (approved_by s)")
    case True
    then have a: "a \<in> ?P" using prems(3) by blast
    show ?thesis
      using Cons.IH [of "t + ucast w" s "n + unat w", OF _ prems(2,3) le] prems hit True a
      by (auto simp: p Let_def split: if_splits)
  next
    case na: False
    show ?thesis
    proof (cases rec)
      case None
      then show ?thesis using Cons.IH [of t s n, OF _ prems(2-4)] prems(1) na by (auto simp: p)
    next
      case (Some call)
      obtain au ok1 s1 where g: "g a = Inr au" and c: "call au s = Inr (ok1, s1)"
        using prems(1) na Some by auto
      have "call_sound g K A call" using assms(2) Some by simp
      note C = call_soundD [OF this c prems(2,3)]
      show ?thesis
      proof (cases ok1)
        case False
        then show ?thesis
          using Cons.IH [of t s1 n, OF _ C(1,3) prems(4)] prems(1) na Some g c C(2) by (auto simp: p)
      next
        case True
        define s2 where "s2 = s1\<lparr>approved_by := flat_insert a (approved_by s1)\<rparr>"
        have a: "a \<in> ?P" using C(4) [OF True] g by (auto simp: approvable_def)
        have s2: "signing_keys s2 = K" "set (approved_by s2) \<subseteq> ?P" "set (approved_by s) \<subseteq> set (approved_by s2)"
          using C a by (auto simp: s2_def signing_keys_def)
        have r: "(if thr \<le> t + ucast w then Inr (True, s2)
            else check_accounts g rec thr as (t + ucast w) s2) = Inr (ok, s')"
          using prems(1) na Some g c True by (simp add: Let_def s2_def split: if_splits)
        show ?thesis
          using Cons.IH [of "t + ucast w" s2 "n + unat w", OF _ s2(1,2) le] r s2 hit a
          by (auto simp: p split: if_splits)
      qed
    qed
  qed
qed

lemma check_levels_unfold:
  "check_authority_levels n g au s =
     (case check_keys (weight_threshold au) (key_auths au) 0 s of (done, t, s) \<Rightarrow>
        if done then Inr (True, s)
        else check_accounts g (case n of 0 \<Rightarrow> None | Suc m \<Rightarrow> Some (check_authority_levels m g))
               (weight_threshold au) (account_auths au) t s)"
  by (cases n) (simp_all split: prod.split)

lemma check_levels_sound: "call_sound g K A (check_authority_levels n g)"
proof (induction n rule: less_induct)
  case (less n)
  show ?case unfolding call_sound_def
  proof (intro allI impI)
    fix au s ok s'
    assume r: "check_authority_levels n g au s = Inr (ok, s')" and K: "signing_keys s = K"
      and ap: "set (approved_by s) \<subseteq> approvable g K A"
    obtain d t s1 where k: "check_keys (weight_threshold au) (key_auths au) 0 s = (d, t, s1)"
      by (metis prod_cases3)
    have R: "signing_keys s1 = K" "approved_by s1 = approved_by s" "unat t \<le> weight_of K (key_auths au)"
      "d \<Longrightarrow> weight_threshold au \<le> t"
      using check_keys_result [OF k] K by auto
    let ?rec = "case n of 0 \<Rightarrow> None | Suc m \<Rightarrow> Some (check_authority_levels m g)"
    have rec: "\<forall>call. ?rec = Some call \<longrightarrow> call_sound g K A call"
      using less by (auto split: nat.splits)
    have auth: "authorized g K A au"
      if "unat (weight_threshold au) \<le> weight_of K (key_auths au) + weight_of (approvable g K A) (account_auths au)"
      using that by (intro authorizedI [of "approvable g K A"]) (auto simp: approvable_def)
    show "signing_keys s' = K \<and> set (approved_by s) \<subseteq> set (approved_by s')
       \<and> set (approved_by s') \<subseteq> approvable g K A \<and> (ok \<longrightarrow> authorized g K A au)"
    proof (cases d)
      case True
      then have "unat (weight_threshold au) \<le> weight_of K (key_auths au)"
        using R(3,4) by (simp add: word_le_nat_alt)
      then show ?thesis using r k True R ap auth by (auto simp: check_levels_unfold [of n])
    next
      case False
      then have "check_accounts g ?rec (weight_threshold au) (account_auths au) t s1 = Inr (ok, s')"
        using r k by (simp add: check_levels_unfold [of n])
      from check_accounts_sound [OF this rec R(1) _ R(3)] R(2) ap auth show ?thesis by auto
    qed
  qed
qed

text \<open>Completeness needs that every account has an authority and that weights do not wrap around.\<close>

definition auth_fits :: "authority \<Rightarrow> bool" where
  "auth_fits au \<longleftrightarrow> weight_of UNIV (key_auths au) + weight_of UNIV (account_auths au) < 2 ^ 32"

definition getter_ok :: "authority_getter \<Rightarrow> bool" where
  "getter_ok g \<longleftrightarrow> (\<forall>a. \<exists>au. g a = Inr au \<and> auth_fits au)"

definition call_complete ::
  "public_key_type set \<Rightarrow> account_name_type set \<Rightarrow> (authority \<Rightarrow> bool)
    \<Rightarrow> (authority \<Rightarrow> sign_state \<Rightarrow> (bool \<times> sign_state) result) \<Rightarrow> bool" where
  "call_complete K A P call \<longleftrightarrow> (\<forall>au s. auth_fits au \<longrightarrow> signing_keys s = K \<longrightarrow> A \<subseteq> set (approved_by s) \<longrightarrow>
     (\<exists>ok s'. call au s = Inr (ok, s') \<and> signing_keys s' = K \<and> A \<subseteq> set (approved_by s') \<and> (P au \<longrightarrow> ok)))"

lemma check_accounts_complete:
  assumes g: "getter_ok g"
    and rec: "\<forall>call. rec = Some call \<longrightarrow> call_complete K A P call"
    and B: "\<And>a. a \<in> B \<Longrightarrow> a \<in> A \<or> (rec \<noteq> None \<and> (\<exists>au. g a = Inr au \<and> P au))"
    and "signing_keys s = K" "A \<subseteq> set (approved_by s)"
    and "unat t + weight_of UNIV as < 2 ^ 32"
  shows "\<exists>ok s'. check_accounts g rec thr as t s = Inr (ok, s') \<and> signing_keys s' = K
    \<and> A \<subseteq> set (approved_by s') \<and> (unat thr \<le> unat t + weight_of B as \<longrightarrow> ok)"
  using assms(4-6)
proof (induction "as" arbitrary: t s)
  case Nil
  then show ?case by (simp add: word_le_nat_alt)
next
  case (Cons p as)
  obtain a w where p: "p = (a, w)" by fastforce
  note prems = Cons.prems [unfolded p]
  have eq: "unat (t + ucast w) = unat t + unat w"
    using prems(3) by (intro unat_add_ucast_eq) simp
  have fits: "unat (t + ucast w) + weight_of UNIV as < 2 ^ 32" using prems(3) eq by simp
  have fits0: "unat t + weight_of UNIV as < 2 ^ 32" using prems(3) by simp
  show ?case
  proof (cases "a \<in> set (approved_by s)")
    case True
    then show ?thesis using Cons.IH [OF prems(1,2) fits] prems(1,2) eq by (auto simp: p Let_def)
  next
    case na: False
    then have aA: "a \<notin> A" using prems(2) by blast
    show ?thesis
    proof (cases rec)
      case None
      then have "a \<notin> B" using B aA by blast
      then show ?thesis using Cons.IH [OF prems(1,2) fits0] na None by (auto simp: p)
    next
      case (Some call)
      obtain au where au: "g a = Inr au" "auth_fits au" using g by (auto simp: getter_ok_def)
      have "call_complete K A P call" using rec Some by simp
      then obtain ok1 s1 where c: "call au s = Inr (ok1, s1)" "signing_keys s1 = K"
        "A \<subseteq> set (approved_by s1)" "P au \<longrightarrow> ok1"
        using au(2) prems(1,2) unfolding call_complete_def by blast
      show ?thesis
      proof (cases ok1)
        case False
        then have "a \<notin> B" using B aA au(1) c(4) by fastforce
        then show ?thesis using Cons.IH [OF c(2,3) fits0] na Some au(1) c(1) False by (auto simp: p)
      next
        case True
        define s2 where "s2 = s1\<lparr>approved_by := flat_insert a (approved_by s1)\<rparr>"
        have s2: "signing_keys s2 = K" "A \<subseteq> set (approved_by s2)"
          using c by (auto simp: s2_def signing_keys_def)
        have r: "check_accounts g rec thr ((a, w) # as) t s = (if thr \<le> t + ucast w then Inr (True, s2)
            else check_accounts g rec thr as (t + ucast w) s2)"
          using na Some au(1) c(1) True by (simp add: Let_def s2_def)
        show ?thesis using Cons.IH [OF s2 fits] s2 r eq by (auto simp: p)
      qed
    qed
  qed
qed

lemma weight_of_UNIV: "weight_of S m \<le> weight_of UNIV m"
  by (rule weight_of_mono) simp

lemma check_levels_complete:
  assumes g: "getter_ok g"
  shows "call_complete K A (authorized_within n g K A) (check_authority_levels n g)"
proof (induction n)
  case 0
  show ?case unfolding call_complete_def
  proof (intro allI impI)
    fix au s assume s: "auth_fits au" "signing_keys s = K" "A \<subseteq> set (approved_by s)"
    obtain d t s1 where k: "check_keys (weight_threshold au) (key_auths au) 0 s = (d, t, s1)"
      by (metis prod_cases3)
    note R = check_keys_result [OF k]
    have fit: "unat t + weight_of UNIV (account_auths au) < 2 ^ 32"
      using R s weight_of_UNIV [of "signing_keys s" "key_auths au"] by (simp add: auth_fits_def)
    have t: "\<not> d \<Longrightarrow> unat t = weight_of K (key_auths au)"
      using check_keys_complete [OF k] s weight_of_UNIV [of K "key_auths au"] by (simp add: auth_fits_def)
    show "\<exists>ok s'. check_authority_levels 0 g au s = Inr (ok, s') \<and> signing_keys s' = K \<and>
        A \<subseteq> set (approved_by s') \<and> (authorized_within 0 g K A au \<longrightarrow> ok)"
      using check_accounts_complete [OF g, of None K A "\<lambda>_. False" A s1 t "account_auths au" "weight_threshold au"]
        R s fit t k by (cases d) auto
  qed
next
  case (Suc n)
  let ?B = "{a. a \<in> A \<or> (\<exists>b. g a = Inr b \<and> authorized_within n g K A b)}"
  show ?case unfolding call_complete_def
  proof (intro allI impI)
    fix au s assume s: "auth_fits au" "signing_keys s = K" "A \<subseteq> set (approved_by s)"
    obtain d t s1 where k: "check_keys (weight_threshold au) (key_auths au) 0 s = (d, t, s1)"
      by (metis prod_cases3)
    note R = check_keys_result [OF k]
    have fit: "unat t + weight_of UNIV (account_auths au) < 2 ^ 32"
      using R s weight_of_UNIV [of "signing_keys s" "key_auths au"] by (simp add: auth_fits_def)
    have t: "\<not> d \<Longrightarrow> unat t = weight_of K (key_auths au)"
      using check_keys_complete [OF k] s weight_of_UNIV [of K "key_auths au"] by (simp add: auth_fits_def)
    show "\<exists>ok s'. check_authority_levels (Suc n) g au s = Inr (ok, s') \<and> signing_keys s' = K \<and>
        A \<subseteq> set (approved_by s') \<and> (authorized_within (Suc n) g K A au \<longrightarrow> ok)"
      using check_accounts_complete [OF g, of "Some (check_authority_levels n g)" K A
          "authorized_within n g K A" ?B s1 t "account_auths au" "weight_threshold au"]
        R s fit t k Suc.IH by (cases d) auto
  qed
qed

section \<open>Properties\<close>

text \<open>
  (C37) Account names: the index-based scanner accepts exactly the names of 3 to 16 characters that
  split at dots into labels of at least three characters, each starting with a letter, ending
  with a letter or digit and containing only letters, digits and hyphens.
\<close>

theorem account_name_grammar:
  "is_valid_account_name name \<longleftrightarrow>
     3 \<le> length name \<and> length name \<le> 16 \<and> list_all valid_label (split_on (CHR ''.'') name)"
  using name_loop_labels [of 0 name]
  by (auto simp: is_valid_account_name_def Let_def WLS_MIN_ACCOUNT_NAME_LENGTH_def
      WLS_MAX_ACCOUNT_NAME_LENGTH_def list_all_iff)

text \<open>
  (C6) The signature search is sound: if \<open>check_authority\<close> answers yes, at whatever recursion
  depth and from whatever state of the search, then the keys that signed (or are available) and
  the accounts already approved reach the weight threshold of the authority, directly or through
  accounts whose own authority they satisfy.
\<close>

theorem check_authority_sound:
  assumes "check_authority max_recursion get_active auth s = Inr (True, s')"
  shows "authorized get_active (signing_keys s) (set (approved_by s)) auth
    \<and> signing_keys s' = signing_keys s
    \<and> set (approved_by s') \<subseteq> approvable get_active (signing_keys s) (set (approved_by s))"
proof -
  have "set (approved_by s) \<subseteq> approvable get_active (signing_keys s) (set (approved_by s))"
    by (auto simp: approvable_def)
  then show ?thesis
    using check_levels_sound [of get_active "signing_keys s" "set (approved_by s)" max_recursion] assms
    unfolding check_authority_def call_sound_def by blast
qed

definition sample_authority :: authority where
  "sample_authority = \<lparr>weight_threshold = 2, account_auths = [], key_auths = [(5, 1), (6, 1)]\<rparr>"

theorem check_authority_sound_witness:
  "authorized (\<lambda>_. Inl out_of_range) (signing_keys (init_sign_state [5, 6] []))
     (set (approved_by (init_sign_state [5, 6] []))) sample_authority"
proof -
  have "\<exists>s'. check_authority 2 (\<lambda>_. Inl out_of_range) sample_authority (init_sign_state [5, 6] []) = Inr (True, s')"
    by (simp add: check_authority_def numeral_2_eq_2 sample_authority_def init_sign_state_def signed_by_def flat_assign_def)
  then show ?thesis using check_authority_sound by blast
qed



end
