(* ===== verification/Config.thy ===== *)
theory Config
  imports Authority
begin

text \<open>
  The constants of \<open>libraries/protocol/include/wls/protocol/config.hpp\<close> that the components use,
  with the values of the live network (\<open>IS_TEST_NET\<close> undefined).  They are abbreviations, so
  that the simplifier computes with the numerals; a constant is polymorphic because the source
  uses the same macro at several integer types.
\<close>

abbreviation (input) WLS_BLOCK_INTERVAL :: "'a::numeral" where "WLS_BLOCK_INTERVAL \<equiv> 3"
abbreviation (input) WLS_BLOCKS_PER_YEAR :: "'a::numeral" where "WLS_BLOCKS_PER_YEAR \<equiv> 10512000"
abbreviation (input) WLS_BLOCKS_PER_DAY :: "'a::numeral" where "WLS_BLOCKS_PER_DAY \<equiv> 28800"
abbreviation (input) WLS_START_MINER_VOTING_BLOCK :: "'a::numeral" where "WLS_START_MINER_VOTING_BLOCK \<equiv> 30"
abbreviation (input) WLS_GENESIS_TIME :: u32 where "WLS_GENESIS_TIME \<equiv> 1534070000"
abbreviation (input) WLS_CASHOUT_WINDOW_SECONDS :: "'a::numeral" where "WLS_CASHOUT_WINDOW_SECONDS \<equiv> 604800"
abbreviation (input) WLS_UPVOTE_LOCKOUT :: "'a::numeral" where "WLS_UPVOTE_LOCKOUT \<equiv> 43200"
abbreviation (input) WLS_MIN_ACCOUNT_CREATION_FEE :: "'a::numeral" where "WLS_MIN_ACCOUNT_CREATION_FEE \<equiv> 10"
abbreviation (input) WLS_OWNER_UPDATE_LIMIT :: "'a::numeral" where "WLS_OWNER_UPDATE_LIMIT \<equiv> 3600"

abbreviation (input) WLS_INIT_MINER_NAME :: string where "WLS_INIT_MINER_NAME \<equiv> ''initminer''"
abbreviation (input) WLS_MINER_ACCOUNT :: string where "WLS_MINER_ACCOUNT \<equiv> ''miners''"
abbreviation (input) WLS_NULL_ACCOUNT :: string where "WLS_NULL_ACCOUNT \<equiv> ''null''"
abbreviation (input) WLS_TEMP_ACCOUNT :: string where "WLS_TEMP_ACCOUNT \<equiv> ''temp''"
abbreviation (input) WLS_PROXY_TO_SELF_ACCOUNT :: string where "WLS_PROXY_TO_SELF_ACCOUNT \<equiv> []"
abbreviation (input) WLS_ROOT_POST_PARENT :: string where "WLS_ROOT_POST_PARENT \<equiv> []"
abbreviation (input) WLS_DEV_FUND_ACC_NAME :: string where "WLS_DEV_FUND_ACC_NAME \<equiv> ''devfund''"
abbreviation (input) WLS_WHALESHARE_ACC_NAME :: string where "WLS_WHALESHARE_ACC_NAME \<equiv> ''wls''"

abbreviation (input) WLS_MAX_WITNESSES :: "'a::numeral" where "WLS_MAX_WITNESSES \<equiv> 21"
abbreviation (input) WLS_MAX_VOTED_WITNESSES :: "'a::numeral" where "WLS_MAX_VOTED_WITNESSES \<equiv> 20"
abbreviation (input) WLS_MAX_RUNNER_WITNESSES :: "'a::one" where "WLS_MAX_RUNNER_WITNESSES \<equiv> 1"
abbreviation (input) WLS_HARDFORK_REQUIRED_WITNESSES :: "'a::numeral" where "WLS_HARDFORK_REQUIRED_WITNESSES \<equiv> 17"
abbreviation (input) WLS_MAX_TIME_UNTIL_EXPIRATION :: "'a::numeral" where "WLS_MAX_TIME_UNTIL_EXPIRATION \<equiv> 3600"
abbreviation (input) WLS_MAX_MEMO_SIZE :: "'a::numeral" where "WLS_MAX_MEMO_SIZE \<equiv> 2048"
abbreviation (input) WLS_MAX_PROXY_RECURSION_DEPTH :: "'a::numeral" where "WLS_MAX_PROXY_RECURSION_DEPTH \<equiv> 4"
abbreviation (input) WLS_VESTING_WITHDRAW_INTERVALS :: "'a::numeral" where "WLS_VESTING_WITHDRAW_INTERVALS \<equiv> 13"
abbreviation (input) WLS_VESTING_WITHDRAW_INTERVAL_SECONDS :: "'a::numeral" where "WLS_VESTING_WITHDRAW_INTERVAL_SECONDS \<equiv> 604800"
abbreviation (input) WLS_MAX_WITHDRAW_ROUTES :: "'a::numeral" where "WLS_MAX_WITHDRAW_ROUTES \<equiv> 10"
abbreviation (input) WLS_VOTE_REGENERATION_SECONDS :: "'a::numeral" where "WLS_VOTE_REGENERATION_SECONDS \<equiv> 432000"
abbreviation (input) WLS_MAX_VOTE_CHANGES :: "'a::numeral" where "WLS_MAX_VOTE_CHANGES \<equiv> 5"
abbreviation (input) WLS_REVERSE_AUCTION_WINDOW_SECONDS :: "'a::numeral" where "WLS_REVERSE_AUCTION_WINDOW_SECONDS \<equiv> 1800"
abbreviation (input) WLS_MIN_VOTE_INTERVAL_SEC :: "'a::numeral" where "WLS_MIN_VOTE_INTERVAL_SEC \<equiv> 3"
abbreviation (input) WLS_VOTE_DUST_THRESHOLD :: "'a::numeral" where "WLS_VOTE_DUST_THRESHOLD \<equiv> 50"
abbreviation (input) WLS_MIN_ROOT_COMMENT_INTERVAL :: "'a::numeral" where "WLS_MIN_ROOT_COMMENT_INTERVAL \<equiv> 300"
abbreviation (input) WLS_MIN_REPLY_INTERVAL :: "'a::numeral" where "WLS_MIN_REPLY_INTERVAL \<equiv> 20"
abbreviation (input) WLS_MAX_ACCOUNT_WITNESS_VOTES :: "'a::numeral" where "WLS_MAX_ACCOUNT_WITNESS_VOTES \<equiv> 30"
abbreviation (input) WLS_100_PERCENT :: "'a::numeral" where "WLS_100_PERCENT \<equiv> 10000"
abbreviation (input) WLS_1_PERCENT :: "'a::numeral" where "WLS_1_PERCENT \<equiv> 100"
abbreviation (input) WLS_INFLATION_RATE_START_PERCENT :: "'a::numeral" where "WLS_INFLATION_RATE_START_PERCENT \<equiv> 10000"
abbreviation (input) WLS_INFLATION_RATE_STOP_PERCENT :: "'a::numeral" where "WLS_INFLATION_RATE_STOP_PERCENT \<equiv> 488"
abbreviation (input) WLS_CONTENT_REWARD_PERCENT :: "'a::numeral" where "WLS_CONTENT_REWARD_PERCENT \<equiv> 8500"
abbreviation (input) WLS_CONTENT_CURATE_REWARD_PERCENT :: "'a::numeral" where "WLS_CONTENT_CURATE_REWARD_PERCENT \<equiv> 2500"
abbreviation (input) WLS_DEV_FUND_PERCENT :: "'a::numeral" where "WLS_DEV_FUND_PERCENT \<equiv> 500"
abbreviation (input) WLS_MAX_COMMENT_DEPTH :: "'a::numeral" where "WLS_MAX_COMMENT_DEPTH \<equiv> 0xffff"
abbreviation (input) WLS_SOFT_MAX_COMMENT_DEPTH :: "'a::numeral" where "WLS_SOFT_MAX_COMMENT_DEPTH \<equiv> 0xff"
abbreviation (input) WLS_RECENT_RSHARES_DECAY_RATE :: "'a::numeral" where "WLS_RECENT_RSHARES_DECAY_RATE \<equiv> 1296000"
abbreviation (input) WLS_CONTENT_CONSTANT :: "'a::numeral" where "WLS_CONTENT_CONSTANT \<equiv> 2000000000000"
abbreviation (input) WLS_MIN_PAYOUT_STEEM :: "'a::numeral" where "WLS_MIN_PAYOUT_STEEM \<equiv> 20"
abbreviation (input) WLS_MAX_PERMLINK_LENGTH :: "'a::numeral" where "WLS_MAX_PERMLINK_LENGTH \<equiv> 256"
abbreviation (input) WLS_MAX_WITNESS_URL_LENGTH :: "'a::numeral" where "WLS_MAX_WITNESS_URL_LENGTH \<equiv> 2048"
abbreviation (input) WLS_INIT_SUPPLY :: "'a::numeral" where "WLS_INIT_SUPPLY \<equiv> 21000000000"
abbreviation (input) WLS_MAX_SIG_CHECK_DEPTH :: "'a::numeral" where "WLS_MAX_SIG_CHECK_DEPTH \<equiv> 2"
abbreviation (input) WLS_MAX_TRANSACTION_SIZE :: "'a::numeral" where "WLS_MAX_TRANSACTION_SIZE \<equiv> 65536"
abbreviation (input) WLS_MIN_BLOCK_SIZE_LIMIT :: "'a::numeral" where "WLS_MIN_BLOCK_SIZE_LIMIT \<equiv> 65536"
abbreviation (input) WLS_MAX_BLOCK_SIZE :: "'a::numeral" where "WLS_MAX_BLOCK_SIZE \<equiv> 393216000"
abbreviation (input) WLS_SOFT_MAX_BLOCK_SIZE :: "'a::numeral" where "WLS_SOFT_MAX_BLOCK_SIZE \<equiv> 2097152"
abbreviation (input) WLS_MIN_UNDO_HISTORY :: "'a::numeral" where "WLS_MIN_UNDO_HISTORY \<equiv> 10"
abbreviation (input) WLS_MAX_UNDO_HISTORY :: "'a::numeral" where "WLS_MAX_UNDO_HISTORY \<equiv> 10000"
abbreviation (input) WLS_IRREVERSIBLE_THRESHOLD :: "'a::numeral" where "WLS_IRREVERSIBLE_THRESHOLD \<equiv> 7500"
abbreviation (input) WLS_BANDWIDTH_AVERAGE_WINDOW_SECONDS :: "'a::numeral" where "WLS_BANDWIDTH_AVERAGE_WINDOW_SECONDS \<equiv> 604800"
abbreviation (input) WLS_BANDWIDTH_PRECISION :: "'a::numeral" where "WLS_BANDWIDTH_PRECISION \<equiv> 1000000"
abbreviation (input) WLS_MAX_RESERVE_RATIO :: "'a::numeral" where "WLS_MAX_RESERVE_RATIO \<equiv> 20000"

text \<open>\<open>fc::time_point_sec\<close> counts seconds in 32 bits; differences are signed.\<close>

type_synonym time_point_sec = u32

abbreviation (input) time_maximum :: time_point_sec where "time_maximum \<equiv> 0xFFFFFFFF"
abbreviation (input) time_min :: time_point_sec where "time_min \<equiv> 0"

definition time_diff :: "time_point_sec \<Rightarrow> time_point_sec \<Rightarrow> int" where
  "time_diff a b = uint a - uint b"

end
