(* ===== verification/Operations.thy ===== *)
theory Operations
  imports Config Asset Version
begin

text \<open>
  The operations of the protocol: \<open>libraries/protocol/include/wls/protocol/wls_operations.hpp\<close>,
  \<open>wls_virtual_operations.hpp\<close> and \<open>wls_operations.cpp\<close>.  One record per operation structure, its
  \<open>validate\<close> method as a function that returns \<open>Inl\<close> when an \<open>FC_ASSERT\<close> fails, and the static
  variant \<open>operation\<close> as a datatype.  UTF-8 and JSON validation belong to \<open>fc\<close> and are fields of
  the parameter \<open>F\<close>.
\<close>

section \<open>Operation structures\<close>

record account_create_operation =
  acr_fee :: asset
  acr_creator :: account_name_type
  acr_new_account_name :: account_name_type
  acr_owner :: authority
  acr_active :: authority
  acr_posting :: authority
  acr_memo_key :: public_key_type
  acr_json_metadata :: string

record account_update_operation =
  aup_account :: account_name_type
  aup_owner :: "authority option"
  aup_active :: "authority option"
  aup_posting :: "authority option"
  aup_memo_key :: public_key_type
  aup_json_metadata :: string

record account_forsale_operation =
  fs_account :: account_name_type
  fs_for_sale :: bool
  fs_to :: account_name_type
  fs_price :: asset

record account_buying_operation =
  by_account :: account_name_type
  by_account_buy :: account_name_type
  by_price :: asset

record comment_operation =
  cmo_parent_author :: account_name_type
  cmo_parent_permlink :: string
  cmo_author :: account_name_type
  cmo_permlink :: string
  cmo_title :: string
  cmo_body :: string
  cmo_json_metadata :: string

record beneficiary_route_type =
  ben_account :: account_name_type
  ben_weight :: u16

type_synonym comment_payout_beneficiaries = "beneficiary_route_type list"

record comment_options_operation =
  cop_author :: account_name_type
  cop_permlink :: string
  cop_max_accepted_payout :: asset
  cop_allow_votes :: bool
  cop_allow_curation_rewards :: bool
  cop_extensions :: "comment_payout_beneficiaries list"

record delete_comment_operation =
  dco_author :: account_name_type
  dco_permlink :: string

record vote_operation =
  vto_voter :: account_name_type
  vto_author :: account_name_type
  vto_permlink :: string
  vto_weight :: u16

record transfer_operation =
  tro_from :: account_name_type
  tro_to :: account_name_type
  tro_amount :: asset
  tro_memo :: string

record transfer_to_vesting_operation =
  tvo_from :: account_name_type
  tvo_to :: account_name_type
  tvo_amount :: asset

record withdraw_vesting_operation =
  wvo_account :: account_name_type
  wvo_vesting_shares :: asset

record set_withdraw_vesting_route_operation =
  swr_from_account :: account_name_type
  swr_to_account :: account_name_type
  swr_percent :: u16
  swr_auto_vest :: bool

record chain_properties =
  cp_account_creation_fee :: asset
  cp_maximum_block_size :: u32

record witness_update_operation =
  wuo_owner :: account_name_type
  wuo_url :: string
  wuo_block_signing_key :: public_key_type
  wuo_props :: chain_properties
  wuo_fee :: asset

record account_witness_vote_operation =
  awv_account :: account_name_type
  awv_witness :: account_name_type
  awv_approve :: bool

record account_witness_proxy_operation =
  awp_account :: account_name_type
  awp_proxy :: account_name_type

record custom_operation =
  cuo_required_auths :: "account_name_type list"
  cuo_id :: u16
  cuo_data :: "char list"

record custom_json_operation =
  cjo_required_auths :: "account_name_type list"
  cjo_required_posting_auths :: "account_name_type list"
  cjo_id :: string
  cjo_json :: string

record custom_binary_operation =
  cbo_required_owner_auths :: "account_name_type list"
  cbo_required_active_auths :: "account_name_type list"
  cbo_required_posting_auths :: "account_name_type list"
  cbo_required_auths :: "authority list"
  cbo_id :: string
  cbo_data :: "char list"

record claim_reward_balance_operation =
  cro_account :: account_name_type
  cro_reward_steem :: asset
  cro_reward_vests :: asset

datatype virtual_operation =
    author_reward_operation account_name_type string asset asset
  | curation_reward_operation account_name_type asset account_name_type string
  | comment_reward_operation account_name_type string asset
  | fill_vesting_withdraw_operation account_name_type account_name_type asset asset
  | shutdown_witness_operation account_name_type
  | hardfork_operation u32
  | comment_payout_update_operation account_name_type string
  | comment_benefactor_reward_operation account_name_type account_name_type string asset
  | producer_reward_operation account_name_type asset
  | devfund_operation account_name_type asset

datatype operation =
    Vote vote_operation
  | Comment comment_operation
  | Transfer transfer_operation
  | TransferToVesting transfer_to_vesting_operation
  | WithdrawVesting withdraw_vesting_operation
  | AccountCreate account_create_operation
  | AccountUpdate account_update_operation
  | AccountForsale account_forsale_operation
  | AccountBuying account_buying_operation
  | WitnessUpdate witness_update_operation
  | AccountWitnessVote account_witness_vote_operation
  | AccountWitnessProxy account_witness_proxy_operation
  | Custom custom_operation
  | DeleteComment delete_comment_operation
  | CustomJson custom_json_operation
  | CommentOptions comment_options_operation
  | SetWithdrawVestingRoute set_withdraw_vesting_route_operation
  | CustomBinary custom_binary_operation
  | ClaimRewardBalance claim_reward_balance_operation
  | Virtual virtual_operation

section \<open>Validation\<close>

definition validate_account_name :: "string \<Rightarrow> 'a result \<Rightarrow> 'a result" where
  "validate_account_name name m = require (is_valid_account_name name) m"

definition validate_permlink :: "fc_lib \<Rightarrow> string \<Rightarrow> 'a result \<Rightarrow> 'a result" where
  "validate_permlink F permlink m =
     require (length permlink < WLS_MAX_PERMLINK_LENGTH) (require (fc_is_utf8 F permlink) m)"

definition is_asset_type :: "asset \<Rightarrow> asset_symbol_type \<Rightarrow> bool" where
  "is_asset_type a s \<longleftrightarrow> symbol a = s"

definition check_json_metadata :: "fc_lib \<Rightarrow> string \<Rightarrow> 'a result \<Rightarrow> 'a result" where
  "check_json_metadata F js m =
     (if js \<noteq> [] then require (fc_is_utf8 F js) (require (fc_json_is_valid F js) m) else m)"

definition account_create_validate :: "fc_lib \<Rightarrow> account_create_operation \<Rightarrow> unit result" where
  "account_create_validate F op =
     validate_account_name (acr_new_account_name op)
     (require (is_asset_type (acr_fee op) WLS_SYMBOL)
     (ebind (authority_validate (acr_owner op)) (\<lambda>_.
     ebind (authority_validate (acr_active op)) (\<lambda>_.
     check_json_metadata F (acr_json_metadata op)
     (ebind (asset_ge (acr_fee op) (WLS 0)) (\<lambda>ok. require ok (Inr ())))))))"

definition account_update_validate :: "fc_lib \<Rightarrow> account_update_operation \<Rightarrow> unit result" where
  "account_update_validate F op =
     validate_account_name (aup_account op) (check_json_metadata F (aup_json_metadata op) (Inr ()))"

definition account_forsale_validate :: "account_forsale_operation \<Rightarrow> unit result" where
  "account_forsale_validate op =
     validate_account_name (fs_account op) (validate_account_name (fs_to op)
     (require (is_asset_type (fs_price op) WLS_SYMBOL)
     (ebind (asset_ge (fs_price op) (WLS 0)) (\<lambda>ok. require ok (Inr ())))))"

definition account_buying_validate :: "account_buying_operation \<Rightarrow> unit result" where
  "account_buying_validate op =
     validate_account_name (by_account op) (validate_account_name (by_account_buy op)
     (require (is_asset_type (by_price op) WLS_SYMBOL)
     (ebind (asset_ge (by_price op) (WLS 0)) (\<lambda>ok. require ok (Inr ())))))"

definition comment_validate :: "fc_lib \<Rightarrow> comment_operation \<Rightarrow> unit result" where
  "comment_validate F op =
     require (length (cmo_title op) < 256)
     (require (fc_is_utf8 F (cmo_title op))
     (require (length (cmo_body op) > 0)
     (require (fc_is_utf8 F (cmo_body op))
     (let rest = validate_account_name (cmo_author op)
            (validate_permlink F (cmo_parent_permlink op)
            (validate_permlink F (cmo_permlink op)
            (if cmo_json_metadata op \<noteq> [] then require (fc_json_is_valid F (cmo_json_metadata op)) (Inr ())
             else Inr ())))
      in if cmo_parent_author op \<noteq> [] then validate_account_name (cmo_parent_author op) rest else rest))))"

text \<open>The body of the loop over the beneficiaries after the first, with the running sum.\<close>

fun beneficiaries_loop :: "beneficiary_route_type \<Rightarrow> beneficiary_route_type list \<Rightarrow> u32 \<Rightarrow> unit result" where
  "beneficiaries_loop prev [] wsum = Inr ()"
| "beneficiaries_loop prev (b # bs) wsum =
     validate_account_name (ben_account b)
     (require (ben_weight b \<le> WLS_100_PERCENT)
     (let wsum = wsum + ucast (ben_weight b) in
      require (wsum \<le> WLS_100_PERCENT)
      (require (ben_account prev < ben_account b) (beneficiaries_loop b bs wsum))))"

definition comment_payout_beneficiaries_validate :: "comment_payout_beneficiaries \<Rightarrow> unit result" where
  "comment_payout_beneficiaries_validate bens =
     require (length bens \<noteq> 0) (require (length bens < 128)
     (case bens of [] \<Rightarrow> Inl assert_exception
      | b # bs \<Rightarrow>
         validate_account_name (ben_account b)
         (require (ben_weight b \<le> WLS_100_PERCENT)
         (let wsum = (0 :: u32) + ucast (ben_weight b) in
          require (wsum \<le> WLS_100_PERCENT) (beneficiaries_loop b bs wsum)))))"

definition comment_options_validate :: "fc_lib \<Rightarrow> comment_options_operation \<Rightarrow> unit result" where
  "comment_options_validate F op =
     validate_account_name (cop_author op)
     (require (symbol (cop_max_accepted_payout op) = WLS_SYMBOL)
     (require (amount (cop_max_accepted_payout op) \<ge> 0)
     (validate_permlink F (cop_permlink op)
     (efold (\<lambda>e _. comment_payout_beneficiaries_validate e) (cop_extensions op) ()))))"

definition delete_comment_validate :: "fc_lib \<Rightarrow> delete_comment_operation \<Rightarrow> unit result" where
  "delete_comment_validate F op =
     validate_permlink F (dco_permlink op) (validate_account_name (dco_author op) (Inr ()))"

definition vote_validate :: "fc_lib \<Rightarrow> vote_operation \<Rightarrow> unit result" where
  "vote_validate F op =
     validate_account_name (vto_voter op) (validate_account_name (vto_author op)
     (require (\<bar>sint (vto_weight op)\<bar> \<le> WLS_100_PERCENT) (validate_permlink F (vto_permlink op) (Inr ()))))"

definition transfer_validate :: "fc_lib \<Rightarrow> transfer_operation \<Rightarrow> unit result" where
  "transfer_validate F op =
     validate_account_name (tro_from op) (validate_account_name (tro_to op)
     (require (symbol (tro_amount op) \<noteq> VESTS_SYMBOL)
     (require (amount (tro_amount op) > 0)
     (require (length (tro_memo op) < WLS_MAX_MEMO_SIZE)
     (require (fc_is_utf8 F (tro_memo op)) (Inr ()))))))"

definition transfer_to_vesting_validate :: "transfer_to_vesting_operation \<Rightarrow> unit result" where
  "transfer_to_vesting_validate op =
     validate_account_name (tvo_from op)
     (require (is_asset_type (tvo_amount op) WLS_SYMBOL)
     (let rest = ebind (asset_gt (tvo_amount op) (WLS 0)) (\<lambda>ok. require ok (Inr ())) in
      if tvo_to op \<noteq> [] then validate_account_name (tvo_to op) rest else rest))"

definition withdraw_vesting_validate :: "withdraw_vesting_operation \<Rightarrow> unit result" where
  "withdraw_vesting_validate op =
     validate_account_name (wvo_account op) (require (is_asset_type (wvo_vesting_shares op) VESTS_SYMBOL) (Inr ()))"

definition set_withdraw_vesting_route_validate :: "set_withdraw_vesting_route_operation \<Rightarrow> unit result" where
  "set_withdraw_vesting_route_validate op =
     validate_account_name (swr_from_account op) (validate_account_name (swr_to_account op)
     (require (0 \<le> swr_percent op \<and> swr_percent op \<le> WLS_100_PERCENT) (Inr ())))"

definition chain_properties_validate :: "chain_properties \<Rightarrow> unit result" where
  "chain_properties_validate p =
     require (amount (cp_account_creation_fee p) \<ge> WLS_MIN_ACCOUNT_CREATION_FEE)
     (require (cp_maximum_block_size p \<ge> WLS_MIN_BLOCK_SIZE_LIMIT) (Inr ()))"

definition witness_update_validate :: "fc_lib \<Rightarrow> witness_update_operation \<Rightarrow> unit result" where
  "witness_update_validate F op =
     validate_account_name (wuo_owner op)
     (require (length (wuo_url op) > 0)
     (require (fc_is_utf8 F (wuo_url op))
     (ebind (asset_ge (wuo_fee op) (WLS 0)) (\<lambda>ok. require ok
     (chain_properties_validate (wuo_props op))))))"

definition account_witness_vote_validate :: "account_witness_vote_operation \<Rightarrow> unit result" where
  "account_witness_vote_validate op =
     validate_account_name (awv_account op) (validate_account_name (awv_witness op) (Inr ()))"

definition account_witness_proxy_validate :: "account_witness_proxy_operation \<Rightarrow> unit result" where
  "account_witness_proxy_validate op =
     validate_account_name (awp_account op)
     (let rest = require (awp_proxy op \<noteq> awp_account op) (Inr ()) in
      if awp_proxy op \<noteq> [] then validate_account_name (awp_proxy op) rest else rest)"

definition custom_validate :: "custom_operation \<Rightarrow> unit result" where
  "custom_validate op = require (length (cuo_required_auths op) > 0) (Inr ())"

definition custom_json_validate :: "fc_lib \<Rightarrow> custom_json_operation \<Rightarrow> unit result" where
  "custom_json_validate F op =
     require (length (cjo_required_auths op) + length (cjo_required_posting_auths op) > 0)
     (require (length (cjo_id op) \<le> 32)
     (require (fc_is_utf8 F (cjo_json op)) (require (fc_json_is_valid F (cjo_json op)) (Inr ()))))"

definition custom_binary_validate :: "custom_binary_operation \<Rightarrow> unit result" where
  "custom_binary_validate op =
     require (length (cbo_required_owner_auths op) + length (cbo_required_active_auths op)
         + length (cbo_required_posting_auths op) > 0)
     (require (length (cbo_id op) \<le> 32)
     (efold (\<lambda>a _. authority_validate a) (cbo_required_auths op) ()))"

definition claim_reward_balance_validate :: "claim_reward_balance_operation \<Rightarrow> unit result" where
  "claim_reward_balance_validate op =
     validate_account_name (cro_account op)
     (require (is_asset_type (cro_reward_steem op) WLS_SYMBOL)
     (require (is_asset_type (cro_reward_vests op) VESTS_SYMBOL)
     (require (amount (cro_reward_steem op) \<ge> 0)
     (require (amount (cro_reward_vests op) \<ge> 0)
     (require (amount (cro_reward_steem op) > 0 \<or> amount (cro_reward_vests op) > 0) (Inr ()))))))"

fun operation_validate :: "fc_lib \<Rightarrow> operation \<Rightarrow> unit result" where
  "operation_validate F (Vote op) = vote_validate F op"
| "operation_validate F (Comment op) = comment_validate F op"
| "operation_validate F (Transfer op) = transfer_validate F op"
| "operation_validate F (TransferToVesting op) = transfer_to_vesting_validate op"
| "operation_validate F (WithdrawVesting op) = withdraw_vesting_validate op"
| "operation_validate F (AccountCreate op) = account_create_validate F op"
| "operation_validate F (AccountUpdate op) = account_update_validate F op"
| "operation_validate F (AccountForsale op) = account_forsale_validate op"
| "operation_validate F (AccountBuying op) = account_buying_validate op"
| "operation_validate F (WitnessUpdate op) = witness_update_validate F op"
| "operation_validate F (AccountWitnessVote op) = account_witness_vote_validate op"
| "operation_validate F (AccountWitnessProxy op) = account_witness_proxy_validate op"
| "operation_validate F (Custom op) = custom_validate op"
| "operation_validate F (DeleteComment op) = delete_comment_validate F op"
| "operation_validate F (CustomJson op) = custom_json_validate F op"
| "operation_validate F (CommentOptions op) = comment_options_validate F op"
| "operation_validate F (SetWithdrawVestingRoute op) = set_withdraw_vesting_route_validate op"
| "operation_validate F (CustomBinary op) = custom_binary_validate op"
| "operation_validate F (ClaimRewardBalance op) = claim_reward_balance_validate op"
| "operation_validate F (Virtual op) = require False (Inr ())"

section \<open>Required authorities\<close>

record required_auths =
  req_active :: "account_name_type list"
  req_owner :: "account_name_type list"
  req_posting :: "account_name_type list"
  req_other :: "authority list"

definition need_active :: "account_name_type \<Rightarrow> required_auths \<Rightarrow> required_auths" where
  "need_active a r = r\<lparr>req_active := flat_insert a (req_active r)\<rparr>"

definition need_owner :: "account_name_type \<Rightarrow> required_auths \<Rightarrow> required_auths" where
  "need_owner a r = r\<lparr>req_owner := flat_insert a (req_owner r)\<rparr>"

definition need_posting :: "account_name_type \<Rightarrow> required_auths \<Rightarrow> required_auths" where
  "need_posting a r = r\<lparr>req_posting := flat_insert a (req_posting r)\<rparr>"

fun operation_get_required_authorities :: "operation \<Rightarrow> required_auths \<Rightarrow> required_auths" where
  "operation_get_required_authorities (Vote op) r = need_posting (vto_voter op) r"
| "operation_get_required_authorities (Comment op) r = need_posting (cmo_author op) r"
| "operation_get_required_authorities (Transfer op) r =
     (let r = (if symbol (tro_amount op) \<noteq> VESTS_SYMBOL then need_active (tro_from op) r else r) in
      if symbol (tro_amount op) = VESTS_SYMBOL then need_owner (tro_from op) r else r)"
| "operation_get_required_authorities (TransferToVesting op) r = need_active (tvo_from op) r"
| "operation_get_required_authorities (WithdrawVesting op) r = need_active (wvo_account op) r"
| "operation_get_required_authorities (AccountCreate op) r = need_active (acr_creator op) r"
| "operation_get_required_authorities (AccountUpdate op) r =
     (let r = (if aup_owner op = None then need_active (aup_account op) r else r) in
      if aup_owner op \<noteq> None then need_owner (aup_account op) r else r)"
| "operation_get_required_authorities (AccountForsale op) r = need_owner (fs_account op) r"
| "operation_get_required_authorities (AccountBuying op) r = need_active (by_account op) r"
| "operation_get_required_authorities (WitnessUpdate op) r = need_active (wuo_owner op) r"
| "operation_get_required_authorities (AccountWitnessVote op) r = need_active (awv_account op) r"
| "operation_get_required_authorities (AccountWitnessProxy op) r = need_active (awp_account op) r"
| "operation_get_required_authorities (Custom op) r = fold need_active (cuo_required_auths op) r"
| "operation_get_required_authorities (DeleteComment op) r = need_posting (dco_author op) r"
| "operation_get_required_authorities (CustomJson op) r =
     fold need_posting (cjo_required_posting_auths op) (fold need_active (cjo_required_auths op) r)"
| "operation_get_required_authorities (CommentOptions op) r = need_posting (cop_author op) r"
| "operation_get_required_authorities (SetWithdrawVestingRoute op) r = need_active (swr_from_account op) r"
| "operation_get_required_authorities (CustomBinary op) r =
     (let r = fold need_active (cbo_required_active_auths op) r;
          r = fold need_owner (cbo_required_owner_auths op) r;
          r = fold need_posting (cbo_required_posting_auths op) r
      in r\<lparr>req_other := req_other r @ cbo_required_auths op\<rparr>)"
| "operation_get_required_authorities (ClaimRewardBalance op) r = need_posting (cro_account op) r"
| "operation_get_required_authorities (Virtual op) r = r"

fun is_market_operation :: "operation \<Rightarrow> bool" where
  "is_market_operation (Transfer _) = True"
| "is_market_operation (TransferToVesting _) = True"
| "is_market_operation _ = False"

fun is_virtual_operation :: "operation \<Rightarrow> bool" where
  "is_virtual_operation (Virtual _) = True"
| "is_virtual_operation _ = False"

section \<open>Lemmas\<close>

lemma validate_account_name_Inr [simp]:
  "validate_account_name n m = Inr x \<longleftrightarrow> is_valid_account_name n \<and> m = Inr x"
  by (simp add: validate_account_name_def)

lemma beneficiaries_loop_ok:
  assumes "beneficiaries_loop prev bs s = Inr ()" "unat s \<le> 10000"
  shows "sorted_wrt (<) (map ben_account (prev # bs)) \<and> (\<forall>b\<in>set bs. is_valid_account_name (ben_account b))
    \<and> unat s + sum_list (map (\<lambda>b. unat (ben_weight b)) bs) \<le> 10000"
  using assms
proof (induction prev bs s rule: beneficiaries_loop.induct)
  case (1 prev s)
  then show ?case by simp
next
  case (2 prev b bs s)
  let ?s = "s + ucast (ben_weight b)"
  have w: "unat (ben_weight b) \<le> 10000" and v: "is_valid_account_name (ben_account b)"
    and le: "?s \<le> 10000" and lt: "ben_account prev < ben_account b" and r: "beneficiaries_loop b bs ?s = Inr ()"
    using 2(2) by (auto simp: Let_def word_le_nat_alt)
  have e: "unat ?s = unat s + unat (ben_weight b)"
    using w 2(3) by (intro unat_add_ucast_eq) simp
  have s': "unat ?s \<le> 10000" using le by (simp add: word_le_nat_alt)
  have IH: "sorted_wrt (<) (map ben_account (b # bs)) \<and> (\<forall>b\<in>set bs. is_valid_account_name (ben_account b))
    \<and> unat ?s + sum_list (map (\<lambda>b. unat (ben_weight b)) bs) \<le> 10000"
    by (rule 2(1) [OF refl r s'])
  have "\<forall>x\<in>set bs. ben_account prev < ben_account x"
    using IH lt by (auto intro: less_trans)
  then show ?case using IH v lt e by auto
qed

text \<open>
  A beneficiary list that passes validation has between 1 and 127 entries, in strictly
  ascending order of account names (so no account occurs twice), only valid names, and the
  weights of all of them, summed without overflow, are at most 100%.
\<close>

theorem beneficiaries_valid:
  assumes "comment_payout_beneficiaries_validate bens = Inr ()"
  shows "0 < length bens \<and> length bens < 128 \<and> sorted_wrt (<) (map ben_account bens)
    \<and> (\<forall>b\<in>set bens. is_valid_account_name (ben_account b))
    \<and> sum_list (map (\<lambda>b. unat (ben_weight b)) bens) \<le> 10000"
proof -
  obtain b bs where b: "bens = b # bs"
    using assms by (cases bens) (auto simp: comment_payout_beneficiaries_validate_def)
  have A: "length bens < 128" "is_valid_account_name (ben_account b)" "unat (ben_weight b) \<le> 10000"
    and r: "beneficiaries_loop b bs (ucast (ben_weight b)) = Inr ()"
    using assms by (auto simp: comment_payout_beneficiaries_validate_def b Let_def word_le_nat_alt)
  have u: "unat (ucast (ben_weight b) :: u32) = unat (ben_weight b)" by (rule unat_ucast_16_32)
  show ?thesis using beneficiaries_loop_ok [OF r] u A by (auto simp: b)
qed

theorem beneficiaries_valid_witness:
  "0 < length [\<lparr>ben_account = ''alice'', ben_weight = 6000\<rparr>, \<lparr>ben_account = ''bob'', ben_weight = 4000\<rparr>]
   \<and> sum_list (map (\<lambda>b. unat (ben_weight b))
       [\<lparr>ben_account = ''alice'', ben_weight = 6000\<rparr>, \<lparr>ben_account = ''bob'', ben_weight = 4000\<rparr>]) \<le> 10000"
proof -
  have "comment_payout_beneficiaries_validate
      [\<lparr>ben_account = ''alice'', ben_weight = 6000\<rparr>, \<lparr>ben_account = ''bob'', ben_weight = 4000\<rparr>] = Inr ()"
    by code_simp
  from beneficiaries_valid [OF this] show ?thesis by blast
qed

end
