(* ===== verification/Transaction.thy ===== *)
theory Transaction
  imports Operations
begin

text \<open>
  Transactions and blocks: \<open>libraries/protocol/transaction.cpp\<close> and \<open>block.cpp\<close>.

  Serialisation, hashing and elliptic curve operations belong to \<open>fc\<close>; they are the record
  \<open>fc_crypto\<close>, an argument \<open>C\<close> of the definitions that use them.  A digest is the list of the
  32-bit words of its memory (eight for \<open>sha256\<close>, seven for \<open>sha224\<close>, five for \<open>ripemd160\<close>).

  The lemmas show that \<open>verify_authority\<close> accepts only transactions whose required authorities are
  all authorized by the signatures, that block numbers survive the block id, and that the in-place
  computation of the Merkle root is the pairwise reduction of the digests.
\<close>

type_synonym digest_type = "u32 list"
type_synonym checksum_type = "u32 list"
type_synonym block_id_type = "u32 list"
type_synonym transaction_id_type = "u32 list"
type_synonym chain_id_type = "u32 list"
type_synonym signature_type = "520 word"
type_synonym private_key_type = "256 word"

record transaction =
  ref_block_num :: u16
  ref_block_prefix :: u32
  expiration :: time_point_sec
  operations :: "operation list"
  trx_extensions :: "unit list"

record signed_transaction = transaction +
  signatures :: "signature_type list"

datatype block_header_extension =
    ext_void
  | ext_version version
  | ext_hardfork_version_vote hardfork_version_vote

record block_header =
  previous :: block_id_type
  timestamp :: time_point_sec
  witness :: account_name_type
  transaction_merkle_root :: checksum_type
  extensions :: "block_header_extension list"

record signed_block_header = block_header +
  witness_signature :: signature_type

record signed_block = signed_block_header +
  transactions :: "signed_transaction list"

record fc_crypto =
  fc_digest :: "transaction \<Rightarrow> digest_type"
  fc_sig_digest :: "chain_id_type \<Rightarrow> transaction \<Rightarrow> digest_type"
  fc_merkle_digest :: "signed_transaction \<Rightarrow> digest_type"
  fc_header_digest :: "block_header \<Rightarrow> digest_type"
  fc_sha224 :: "signed_block_header \<Rightarrow> u32 list"
  fc_hash_pair :: "digest_type \<Rightarrow> digest_type \<Rightarrow> digest_type"
  fc_checksum :: "digest_type \<Rightarrow> checksum_type"
  fc_recover :: "signature_type \<Rightarrow> digest_type \<Rightarrow> public_key_type result"
  fc_sign_compact :: "private_key_type \<Rightarrow> digest_type \<Rightarrow> signature_type"
  fc_endian_reverse_u32 :: "u32 \<Rightarrow> u32"
  fc_pack_size :: "signed_block \<Rightarrow> nat"
  fc_trx_pack_size :: "signed_transaction \<Rightarrow> nat"

text \<open>What the proofs rely on: digest sizes and that reversing the byte order is an involution.\<close>

definition crypto_ok :: "fc_crypto \<Rightarrow> bool" where
  "crypto_ok C \<longleftrightarrow> (\<forall>h. length (fc_sha224 C h) = 7) \<and> (\<forall>t. length (fc_digest C t) = 8)
     \<and> (\<forall>x. fc_endian_reverse_u32 C (fc_endian_reverse_u32 C x) = x)"

text \<open>
  Serialization (\<open>fc::raw\<close>): \<open>raw_unpack\<close> reads a block from the front of a stream and returns the rest;
  \<open>None\<close> is an exception.  What the proofs rely on: the packed blocks of a given set are read back, and
  reading does not lengthen the stream.
\<close>

record fc_raw =
  raw_pack :: "signed_block \<Rightarrow> u8 list"
  raw_unpack :: "u8 list \<Rightarrow> (signed_block \<times> u8 list) option"

definition raw_ok :: "fc_raw \<Rightarrow> signed_block set \<Rightarrow> bool" where
  "raw_ok R B \<longleftrightarrow> (\<forall>b\<in>B. \<forall>rest. raw_unpack R (raw_pack R b @ rest) = Some (b, rest))
     \<and> (\<forall>s b rest. raw_unpack R s = Some (b, rest) \<longrightarrow> length rest \<le> length s)"

definition null_id :: block_id_type where
  "null_id = replicate 5 0"

section \<open>Transactions\<close>

definition transaction_validate :: "fc_lib \<Rightarrow> 'a transaction_scheme \<Rightarrow> unit result" where
  "transaction_validate F t =
     require (length (operations t) > 0) (efold (\<lambda>op _. operation_validate F op) (operations t) ())"

definition transaction_id :: "fc_crypto \<Rightarrow> 'a transaction_scheme \<Rightarrow> transaction_id_type" where
  "transaction_id C t = take 5 (fc_digest C (transaction.truncate t))"

definition sign :: "fc_crypto \<Rightarrow> private_key_type \<Rightarrow> chain_id_type \<Rightarrow> signed_transaction \<Rightarrow> signed_transaction" where
  "sign C key chain_id t =
     (let h = fc_sig_digest C chain_id (transaction.truncate t) in
      t\<lparr>signatures := signatures t @ [fc_sign_compact C key h]\<rparr>)"

definition set_expiration :: "time_point_sec \<Rightarrow> signed_transaction \<Rightarrow> signed_transaction" where
  "set_expiration e t = t\<lparr>expiration := e\<rparr>"

definition set_reference_block :: "fc_crypto \<Rightarrow> block_id_type \<Rightarrow> signed_transaction \<Rightarrow> signed_transaction" where
  "set_reference_block C reference_block t =
     t\<lparr>ref_block_num := ucast (fc_endian_reverse_u32 C (reference_block ! 0)),
       ref_block_prefix := reference_block ! 1\<rparr>"

definition no_auths :: required_auths where
  "no_auths = \<lparr>req_active = [], req_owner = [], req_posting = [], req_other = []\<rparr>"

definition get_required_authorities :: "operation list \<Rightarrow> required_auths" where
  "get_required_authorities ops = fold operation_get_required_authorities ops no_auths"

text \<open>\<open>a || b\<close> where both sides change the signature state.\<close>

definition or_else ::
  "(sign_state \<Rightarrow> (bool \<times> sign_state) result) \<Rightarrow> (sign_state \<Rightarrow> (bool \<times> sign_state) result)
    \<Rightarrow> sign_state \<Rightarrow> (bool \<times> sign_state) result" where
  "or_else m1 m2 s = ebind (m1 s) (\<lambda>(ok, s). if ok then Inr (True, s) else m2 s)"

definition assert_auth :: "exc \<Rightarrow> (sign_state \<Rightarrow> (bool \<times> sign_state) result) \<Rightarrow> sign_state \<Rightarrow> sign_state result" where
  "assert_auth e m s = ebind (m s) (\<lambda>(ok, s). wls_assert ok e (Inr s))"

definition check_via :: "nat \<Rightarrow> authority_getter \<Rightarrow> authority_getter \<Rightarrow> account_name_type
    \<Rightarrow> sign_state \<Rightarrow> (bool \<times> sign_state) result" where
  "check_via depth getter get_auth i s = ebind (get_auth i) (\<lambda>au. check_authority depth getter au s)"

definition verify_authority ::
  "operation list \<Rightarrow> public_key_type list \<Rightarrow> authority_getter \<Rightarrow> authority_getter \<Rightarrow> authority_getter
    \<Rightarrow> nat \<Rightarrow> account_name_type list \<Rightarrow> account_name_type list \<Rightarrow> account_name_type list \<Rightarrow> unit result" where
  "verify_authority ops sigs get_active get_owner get_posting max_recursion_depth
       active_aprovals owner_approvals posting_approvals =
     (let r = get_required_authorities ops in
      if length (req_posting r) \<noteq> 0 then
        require (length (req_active r) = 0) (require (length (req_owner r) = 0) (require (length (req_other r) = 0)
        (let s = init_sign_state sigs [];
             s = s\<lparr>approved_by := flat_insert_all posting_approvals (approved_by s)\<rparr>
         in ebind (efold (\<lambda>i. assert_auth tx_missing_posting_auth
                (or_else (check_authority_id max_recursion_depth get_posting i)
                (or_else (check_via max_recursion_depth get_posting get_active i)
                         (check_via max_recursion_depth get_posting get_owner i)))) (req_posting r) s) (\<lambda>s.
            wls_assert (\<not> fst (remove_unused_signatures s)) tx_irrelevant_sig (Inr ())))))
      else
        (let s = init_sign_state sigs [];
             s = s\<lparr>approved_by := flat_insert_all owner_approvals
                     (flat_insert_all active_aprovals (approved_by s))\<rparr>
         in ebind (efold (\<lambda>auth. assert_auth tx_missing_other_auth
                (check_authority max_recursion_depth get_active auth)) (req_other r) s) (\<lambda>s.
            ebind (efold (\<lambda>i. assert_auth tx_missing_active_auth
                (or_else (check_authority_id max_recursion_depth get_active i)
                         (check_via max_recursion_depth get_active get_owner i))) (req_active r) s) (\<lambda>s.
            ebind (efold (\<lambda>i. assert_auth tx_missing_owner_auth
                (\<lambda>s. if i \<in> set owner_approvals then Inr (True, s)
                     else check_via max_recursion_depth get_active get_owner i s)) (req_owner r) s) (\<lambda>s.
            wls_assert (\<not> fst (remove_unused_signatures s)) tx_irrelevant_sig (Inr ()))))))"

definition get_signature_keys :: "fc_crypto \<Rightarrow> chain_id_type \<Rightarrow> signed_transaction \<Rightarrow> public_key_type list result" where
  "get_signature_keys C chain_id t =
     (let d = fc_sig_digest C chain_id (transaction.truncate t) in
      efold (\<lambda>sig result. ebind (fc_recover C sig d) (\<lambda>k.
        wls_assert (k \<notin> set result) tx_duplicate_sig (Inr (flat_insert k result)))) (signatures t) [])"

text \<open>The result of a signature search whose outcome is ignored; only the state matters.\<close>

definition ignore_result :: "(bool \<times> sign_state) result \<Rightarrow> sign_state result" where
  "ignore_result r = ebind r (\<lambda>(ok, s). Inr s)"

definition usable_signatures :: "public_key_type list \<Rightarrow> sign_state \<Rightarrow> public_key_type list" where
  "usable_signatures keys s =
     fold (\<lambda>p result. if fst p \<in> set keys then flat_insert (fst p) result else result)
       (provided_signatures (snd (remove_unused_signatures s))) []"

definition get_required_signatures ::
  "fc_crypto \<Rightarrow> chain_id_type \<Rightarrow> public_key_type list \<Rightarrow> authority_getter \<Rightarrow> authority_getter \<Rightarrow> authority_getter
    \<Rightarrow> nat \<Rightarrow> signed_transaction \<Rightarrow> public_key_type list result" where
  "get_required_signatures C chain_id keys get_active get_owner get_posting depth t =
     (let r = get_required_authorities (operations t) in
      if length (req_posting r) \<noteq> 0 then
        ebind (get_signature_keys C chain_id t) (\<lambda>sigs.
        require (length (req_owner r) = 0) (require (length (req_active r) = 0)
        (ebind (efold (\<lambda>i s. ignore_result (check_authority_id depth get_posting i s)) (req_posting r)
            (init_sign_state sigs keys)) (\<lambda>s. Inr (usable_signatures keys s)))))
      else
        ebind (get_signature_keys C chain_id t) (\<lambda>sigs.
        ebind (efold (\<lambda>auth s. ignore_result (check_authority depth get_active auth s)) (req_other r)
            (init_sign_state sigs keys)) (\<lambda>s.
        ebind (efold (\<lambda>i s. ignore_result (check_via depth get_active get_owner i s)) (req_owner r) s) (\<lambda>s.
        ebind (efold (\<lambda>i s. ignore_result (check_authority_id depth get_active i s)) (req_active r) s) (\<lambda>s.
        Inr (usable_signatures keys s))))))"

definition minimize_required_signatures ::
  "fc_crypto \<Rightarrow> chain_id_type \<Rightarrow> public_key_type list \<Rightarrow> authority_getter \<Rightarrow> authority_getter \<Rightarrow> authority_getter
    \<Rightarrow> nat \<Rightarrow> signed_transaction \<Rightarrow> public_key_type list result" where
  "minimize_required_signatures C chain_id keys get_active get_owner get_posting max_recursion t =
     ebind (get_required_signatures C chain_id keys get_active get_owner get_posting max_recursion t) (\<lambda>s.
     efold (\<lambda>k result.
       (let less = filter (\<lambda>j. j \<noteq> k) result in
        case verify_authority (operations t) less get_active get_owner get_posting max_recursion [] [] [] of
          Inr _ \<Rightarrow> Inr less
        | Inl e \<Rightarrow>
            if e \<in> {tx_missing_owner_auth, tx_missing_active_auth, tx_missing_posting_auth, tx_missing_other_auth}
            then Inr (flat_insert k less) else Inl e)) s s)"

definition signed_transaction_verify_authority ::
  "fc_crypto \<Rightarrow> chain_id_type \<Rightarrow> authority_getter \<Rightarrow> authority_getter \<Rightarrow> authority_getter \<Rightarrow> nat
    \<Rightarrow> signed_transaction \<Rightarrow> unit result" where
  "signed_transaction_verify_authority C chain_id get_active get_owner get_posting max_recursion t =
     ebind (get_signature_keys C chain_id t) (\<lambda>sigs.
       verify_authority (operations t) sigs get_active get_owner get_posting max_recursion [] [] [])"

section \<open>Blocks\<close>

definition num_from_id :: "fc_crypto \<Rightarrow> block_id_type \<Rightarrow> u32" where
  "num_from_id C i = fc_endian_reverse_u32 C (i ! 0)"

definition block_num :: "fc_crypto \<Rightarrow> 'a block_header_scheme \<Rightarrow> u32" where
  "block_num C b = num_from_id C (previous b) + 1"

definition block_id :: "fc_crypto \<Rightarrow> 'a signed_block_header_scheme \<Rightarrow> block_id_type" where
  "block_id C b =
     (let tmp = fc_sha224 C (signed_block_header.truncate b);
          tmp = tmp[0 := fc_endian_reverse_u32 C (block_num C b)]
      in take 5 tmp)"

definition signee :: "fc_crypto \<Rightarrow> 'a signed_block_header_scheme \<Rightarrow> public_key_type result" where
  "signee C b = fc_recover C (witness_signature b) (fc_header_digest C (block_header.truncate b))"

definition sign_block :: "fc_crypto \<Rightarrow> private_key_type \<Rightarrow> signed_block \<Rightarrow> signed_block" where
  "sign_block C key b =
     b\<lparr>witness_signature := fc_sign_compact C key (fc_header_digest C (block_header.truncate b))\<rparr>"

definition validate_signee :: "fc_crypto \<Rightarrow> 'a signed_block_header_scheme \<Rightarrow> public_key_type \<Rightarrow> bool result" where
  "validate_signee C b expected_signee = ebind (signee C b) (\<lambda>k. Inr (k = expected_signee))"

text \<open>The inner loop of \<open>calculate_merkle_root\<close>: it overwrites the front of the array it reads.\<close>

function merkle_pass :: "fc_crypto \<Rightarrow> nat \<Rightarrow> nat \<Rightarrow> nat \<Rightarrow> digest_type list \<Rightarrow> nat \<times> digest_type list" where
  "merkle_pass C i_max i k ids =
     (if i < i_max then merkle_pass C i_max (i + 2) (k + 1) (ids[k := fc_hash_pair C (ids ! i) (ids ! (i + 1))])
      else (k, ids))"
  by pat_completeness auto

termination merkle_pass
  by (relation "measure (\<lambda>(C, i_max, i, k, ids). i_max - i)") auto

definition merkle_round :: "fc_crypto \<Rightarrow> nat \<Rightarrow> digest_type list \<Rightarrow> nat \<times> digest_type list" where
  "merkle_round C n ids =
     (let i_max = n - n mod 2;
          (k, ids) = merkle_pass C i_max 0 0 ids
      in if n mod 2 = 1 then (k + 1, ids[k := ids ! i_max]) else (k, ids))"

declare merkle_pass.simps [simp del]

lemma merkle_pass_done: "\<not> i < i_max \<Longrightarrow> merkle_pass C i_max i k ids = (k, ids)"
  by (subst merkle_pass.simps) simp

lemma merkle_pass_count:
  "i \<le> i_max \<Longrightarrow> even (i_max - i) \<Longrightarrow> fst (merkle_pass C i_max i k ids) = k + (i_max - i) div 2"
proof (induction C i_max i k ids rule: merkle_pass.induct)
  case (1 C i_max i k ids)
  show ?case
  proof (cases "i < i_max")
    case True
    with 1(3) have le: "i + 2 \<le> i_max" by presburger
    moreover have "even (i_max - (i + 2))" using 1(3) le by presburger
    ultimately have "fst (merkle_pass C i_max (i + 2) (k + 1) (ids[k := fc_hash_pair C (ids ! i) (ids ! (i + 1))]))
        = k + 1 + (i_max - (i + 2)) div 2"
      using 1(1) [OF True] by simp
    then show ?thesis using True le by (simp add: merkle_pass.simps [of C i_max i k ids])
  next
    case False
    then show ?thesis using 1(2) by (simp add: merkle_pass_done)
  qed
qed

lemma merkle_round_count: "fst (merkle_round C n ids) = (n + 1) div 2"
  using merkle_pass_count [of 0 "n - n mod 2" C 0 ids]
  by (cases "n mod 2 = 1") (auto simp: merkle_round_def Let_def split: prod.splits, presburger+)

function merkle_loop :: "fc_crypto \<Rightarrow> nat \<Rightarrow> digest_type list \<Rightarrow> digest_type list" where
  "merkle_loop C n ids =
     (if 1 < n then (case merkle_round C n ids of (k, ids') \<Rightarrow> merkle_loop C k ids') else ids)"
  by pat_completeness auto

termination merkle_loop
  by (relation "measure (\<lambda>(C, n, ids). n)")
     (auto simp: case_prod_unfold merkle_round_count)

definition calculate_merkle_root :: "fc_crypto \<Rightarrow> signed_block \<Rightarrow> checksum_type" where
  "calculate_merkle_root C b =
     (if length (transactions b) = 0 then replicate 5 0
      else
       (let ids = map (fc_merkle_digest C) (transactions b);
            ids = merkle_loop C (length ids) ids
        in fc_checksum C (ids ! 0)))"

section \<open>Lemmas\<close>

declare merkle_loop.simps [simp del]

text \<open>The specification of a Merkle round: hash the digests in pairs, keep a last odd one.\<close>

fun pair_up :: "('d \<Rightarrow> 'd \<Rightarrow> 'd) \<Rightarrow> 'd list \<Rightarrow> 'd list" where
  "pair_up h (x # y # zs) = h x y # pair_up h zs"
| "pair_up h zs = zs"

lemma length_pair_up: "length (pair_up h zs) = (length zs + 1) div 2"
  by (induction h zs rule: pair_up.induct) auto

function merkle_tree :: "('d \<Rightarrow> 'd \<Rightarrow> 'd) \<Rightarrow> 'd list \<Rightarrow> 'd list" where
  "merkle_tree h zs = (if 1 < length zs then merkle_tree h (pair_up h zs) else zs)"
  by pat_completeness auto

termination merkle_tree
  by (relation "measure (\<lambda>(h, zs). length zs)") (auto simp: length_pair_up)

declare merkle_tree.simps [simp del]

lemma merkle_tree_nonempty: "zs \<noteq> [] \<Longrightarrow> merkle_tree h zs \<noteq> []"
proof (induction h zs rule: merkle_tree.induct)
  case (1 h zs)
  have "pair_up h zs \<noteq> []" if "1 < length zs" using length_pair_up [of h zs] that by fastforce
  then show ?case using 1 by (simp add: merkle_tree.simps [of h zs])
qed

lemma merkle_pass_pairs:
  assumes "i \<le> i_max" "even (i_max - i)" "i_max \<le> length ids" "k \<le> i"
  shows "snd (merkle_pass C i_max i k ids) =
    take k ids @ pair_up (fc_hash_pair C) (drop i (take i_max ids)) @ drop (k + (i_max - i) div 2) ids"
  using assms
proof (induction C i_max i k ids rule: merkle_pass.induct)
  case (1 C i_max i k ids)
  show ?case
  proof (cases "i < i_max")
    case False
    then show ?thesis using 1(2-5) by (simp add: merkle_pass_done)
  next
    case True
    with 1(3) have le: "i + 2 \<le> i_max" and ev: "even (i_max - (i + 2))" by presburger+
    let ?h = "fc_hash_pair C (ids ! i) (ids ! (i + 1))"
    have IH: "snd (merkle_pass C i_max (i + 2) (k + 1) (ids[k := ?h])) =
      take (k + 1) (ids[k := ?h]) @ pair_up (fc_hash_pair C) (drop (i + 2) (take i_max (ids[k := ?h])))
        @ drop (k + 1 + (i_max - (i + 2)) div 2) (ids[k := ?h])"
      using 1(1) [OF True] le ev 1(4,5) by simp
    have k: "k < length ids" using True 1(4,5) by simp
    have tk: "take (k + 1) (ids[k := ?h]) = take k ids @ [?h]"
      using k by (simp add: take_Suc_conv_app_nth)
    have dr: "drop i (take i_max ids) = ids ! i # ids ! (i + 1) # drop (i + 2) (take i_max ids)"
      using le 1(4) by (simp add: Cons_nth_drop_Suc [symmetric, of _ "take i_max ids"])
    have rest: "drop (i + 2) (take i_max (ids[k := ?h])) = drop (i + 2) (take i_max ids)"
      using 1(5) by (simp add: drop_take drop_update_cancel)
    have cnt: "k + 1 + (i_max - (i + 2)) div 2 = k + (i_max - i) div 2" using le by simp
    have dk: "drop (k + 1 + (i_max - (i + 2)) div 2) (ids[k := ?h]) = drop (k + (i_max - i) div 2) ids"
      unfolding cnt [symmetric] by (rule drop_update_cancel) simp
    have step: "merkle_pass C i_max i k ids = merkle_pass C i_max (i + 2) (k + 1) (ids[k := ?h])"
      using True by (subst merkle_pass.simps) simp
    show ?thesis unfolding step IH tk rest dk dr by simp
  qed
qed

lemma pair_up_append_odd:
  "even (length zs) \<Longrightarrow> pair_up h (zs @ [x]) = pair_up h zs @ [x]"
  by (induction h zs rule: pair_up.induct) auto

lemma take_append_length: "length xs = k \<Longrightarrow> take k (xs @ ys) = xs"
  by simp

lemma merkle_round_pairs:
  assumes "n \<le> length ids"
  shows "take ((n + 1) div 2) (snd (merkle_round C n ids)) = pair_up (fc_hash_pair C) (take n ids)
    \<and> length (snd (merkle_round C n ids)) = length ids"
proof -
  let ?m = "n - n mod 2"
  obtain k ids' where p: "merkle_pass C ?m 0 0 ids = (k, ids')" by fastforce
  have ev: "even ?m" by presburger
  have k: "k = ?m div 2" using merkle_pass_count [of 0 ?m C 0 ids] p ev by simp
  have ids': "ids' = pair_up (fc_hash_pair C) (take ?m ids) @ drop (?m div 2) ids"
    using merkle_pass_pairs [of 0 ?m ids 0 C] p ev assms by simp
  have len: "length (pair_up (fc_hash_pair C) (take ?m ids)) = ?m div 2"
    using assms ev by (simp add: length_pair_up)
  have len': "length ids' = length ids" using ids' len assms by simp
  show ?thesis
  proof (cases "n mod 2 = 1")
    case True
    then have n: "n = ?m + 1" by presburger
    have half: "(n + 1) div 2 = ?m div 2 + 1" using n ev by presburger
    have at: "ids' ! ?m = ids ! ?m"
    proof -
      have "\<not> ?m < ?m div 2" by (simp only: not_less div_le_dividend)
      then have "ids' ! ?m = drop (?m div 2) ids ! (?m - ?m div 2)"
        unfolding ids' nth_append len by (simp only: if_False)
      also have "\<dots> = ids ! ?m" using assms n by (subst nth_drop) auto
      finally show ?thesis .
    qed
    have "take n ids = take ?m ids @ [ids ! ?m]" using n assms by (metis Suc_eq_plus1 Suc_le_eq take_Suc_conv_app_nth)
    moreover have "even (length (take ?m ids))" using assms ev by simp
    ultimately have "pair_up (fc_hash_pair C) (take n ids) = pair_up (fc_hash_pair C) (take ?m ids) @ [ids ! ?m]"
      by (simp add: pair_up_append_odd)
    moreover have "take ((n + 1) div 2) (ids'[k := ids' ! ?m]) = pair_up (fc_hash_pair C) (take ?m ids) @ [ids ! ?m]"
    proof -
      have "k < length ids'" using k len' assms n by linarith
      then have "take (k + 1) (ids'[k := ids' ! ?m]) = take k ids' @ [ids' ! ?m]"
        by (simp add: take_Suc_conv_app_nth)
      moreover have "take k ids' = pair_up (fc_hash_pair C) (take ?m ids)"
        using take_append_length [OF len, of "drop (?m div 2) ids"] by (simp only: k ids')
      moreover have "(n + 1) div 2 = k + 1" by (simp only: half k)
      ultimately show ?thesis by (simp only: at)
    qed
    moreover have "merkle_round C n ids = (k + 1, ids'[k := ids' ! ?m])"
      unfolding merkle_round_def Let_def p by (simp only: True prod.case if_True simp_thms)
    ultimately show ?thesis using len' by (simp only: snd_conv length_list_update simp_thms)
  next
    case False
    then have "?m = n" and "(n + 1) div 2 = ?m div 2" by presburger+
    moreover have "merkle_round C n ids = (k, ids')"
      unfolding merkle_round_def Let_def p using False by (simp only: prod.case if_False)
    ultimately show ?thesis using ids' len len' by simp
  qed
qed

lemma merkle_loop_tree:
  "n \<le> length ids \<Longrightarrow> take 1 (merkle_loop C n ids) = (if n = 0 then take 1 ids else take 1 (merkle_tree (fc_hash_pair C) (take n ids)))"
proof (induction C n ids rule: merkle_loop.induct)
  case (1 C n ids)
  obtain k ids' where r: "merkle_round C n ids = (k, ids')" by fastforce
  have k: "k = (n + 1) div 2" using merkle_round_count [of C n ids] r by simp
  have p: "take k ids' = pair_up (fc_hash_pair C) (take n ids)" "length ids' = length ids"
    using merkle_round_pairs [OF 1(2), of C] r k by auto
  show ?case
  proof (cases "1 < n")
    case True
    then have "take 1 (merkle_loop C k ids') = take 1 (merkle_tree (fc_hash_pair C) (take k ids'))"
      using 1(1) [OF True, of k ids'] r k p(2) 1(2) by auto
    then show ?thesis using True r p(1) 1(2)
      by (simp add: merkle_loop.simps [of C n ids] merkle_tree.simps [of _ "take n ids"])
  next
    case False
    then show ?thesis using 1(2) by (auto simp: merkle_loop.simps [of C n ids] merkle_tree.simps take_Suc_conv_app_nth)
  qed
qed

text \<open>The state of a search: the signatures are those of \<open>K\<close>, approved accounts are approvable.\<close>

definition search_inv :: "authority_getter \<Rightarrow> public_key_type set \<Rightarrow> account_name_type set \<Rightarrow> sign_state \<Rightarrow> bool" where
  "search_inv g K A s \<longleftrightarrow> signing_keys s = K \<and> set (approved_by s) \<subseteq> approvable g K A"

lemma check_authority_search:
  assumes "check_authority n g au s = Inr (ok, s')" "search_inv g K A s"
  shows "search_inv g K A s' \<and> (ok \<longrightarrow> authorized g K A au)"
  using call_soundD [OF check_levels_sound assms(1) [unfolded check_authority_def]] assms(2)
  by (auto simp: search_inv_def)

lemma check_authority_id_search:
  assumes "check_authority_id n g i s = Inr (ok, s')" "search_inv g K A s"
  shows "search_inv g K A s' \<and> (ok \<longrightarrow> i \<in> approvable g K A)"
proof (cases "i \<in> set (approved_by s)")
  case True
  then show ?thesis using assms by (auto simp: check_authority_id_def search_inv_def)
next
  case False
  then obtain au where "g i = Inr au" "check_authority n g au s = Inr (ok, s')"
    using assms(1) by (auto simp: check_authority_id_def)
  then show ?thesis using check_authority_search [OF _ assms(2)] by (auto simp: approvable_def)
qed

lemma check_via_search:
  assumes "check_via n g h i s = Inr (ok, s')" "search_inv g K A s"
  shows "search_inv g K A s' \<and> (ok \<longrightarrow> (\<exists>au. h i = Inr au \<and> authorized g K A au))"
proof -
  obtain au where "h i = Inr au" "check_authority n g au s = Inr (ok, s')"
    using assms(1) by (auto simp: check_via_def)
  then show ?thesis using check_authority_search [OF _ assms(2)] by auto
qed

lemma or_else_search:
  assumes "or_else m1 m2 s = Inr (ok, s')" "search_inv g K A s"
    and "\<And>s ok s'. m1 s = Inr (ok, s') \<Longrightarrow> search_inv g K A s \<Longrightarrow> search_inv g K A s' \<and> (ok \<longrightarrow> P)"
    and "\<And>s ok s'. m2 s = Inr (ok, s') \<Longrightarrow> search_inv g K A s \<Longrightarrow> search_inv g K A s' \<and> (ok \<longrightarrow> Q)"
  shows "search_inv g K A s' \<and> (ok \<longrightarrow> P \<or> Q)"
  using assms unfolding or_else_def by (fastforce split: if_splits prod.splits)

lemma assert_auth_search:
  assumes "assert_auth e m s = Inr s'" "search_inv g K A s"
    and "\<And>s ok s'. m s = Inr (ok, s') \<Longrightarrow> search_inv g K A s \<Longrightarrow> search_inv g K A s' \<and> (ok \<longrightarrow> P)"
  shows "search_inv g K A s' \<and> P"
  using assms unfolding assert_auth_def by fastforce

lemma keys_init_sign_state: "signing_keys (init_sign_state sigs keys) = set sigs \<union> set keys"
proof -
  have "fst ` set (fold (\<lambda>key m. flat_assign key False m) sigs m) = set sigs \<union> fst ` set m" for m
    by (induction sigs arbitrary: m) auto
  then show ?thesis by (simp add: signing_keys_def init_sign_state_def)
qed

lemma search_inv_init:
  assumes "A = insert ''temp'' (set xs)"
  shows "search_inv g (set sigs) A ((init_sign_state sigs [])\<lparr>approved_by := flat_insert_all xs (approved_by (init_sign_state sigs []))\<rparr>)"
proof -
  have "signing_keys ((init_sign_state sigs [])\<lparr>approved_by := ys\<rparr>) = set sigs" for ys
    using keys_init_sign_state [of sigs "[]"] by (simp add: signing_keys_def)
  then show ?thesis using assms by (auto simp: search_inv_def approvable_def init_sign_state_def)
qed

lemma verify_posting:
  assumes v: "verify_authority ops sigs get_active get_owner get_posting depth aa oa pa = Inr ()"
    and r: "r = get_required_authorities ops" and p: "req_posting r \<noteq> []"
    and A: "A = insert ''temp'' (set pa)"
  shows "req_active r = [] \<and> req_owner r = [] \<and> req_other r = []
    \<and> (\<forall>i\<in>set (req_posting r). i \<in> approvable get_posting (set sigs) A
         \<or> (\<exists>au. get_active i = Inr au \<and> authorized get_posting (set sigs) A au)
         \<or> (\<exists>au. get_owner i = Inr au \<and> authorized get_posting (set sigs) A au))"
proof -
  let ?s0 = "(init_sign_state sigs [])\<lparr>approved_by := flat_insert_all pa (approved_by (init_sign_state sigs []))\<rparr>"
  obtain s where e: "req_active r = []" "req_owner r = []" "req_other r = []"
    and l: "efold (\<lambda>i. assert_auth tx_missing_posting_auth
                (or_else (check_authority_id depth get_posting i)
                (or_else (check_via depth get_posting get_active i)
                         (check_via depth get_posting get_owner i)))) (req_posting r) ?s0 = Inr s"
    using v p unfolding verify_authority_def r [symmetric] by (auto simp: Let_def)
  have "search_inv get_posting (set sigs) A s \<and> (\<forall>i\<in>set (req_posting r). i \<in> approvable get_posting (set sigs) A
         \<or> (\<exists>au. get_active i = Inr au \<and> authorized get_posting (set sigs) A au)
         \<or> (\<exists>au. get_owner i = Inr au \<and> authorized get_posting (set sigs) A au))"
    by (rule efold_all [where P = "search_inv get_posting (set sigs) A", OF l search_inv_init [OF A]])
       (erule assert_auth_search, assumption,
        erule or_else_search, assumption, erule (1) check_authority_id_search,
        erule or_else_search, assumption, (erule (1) check_via_search)+)
  then show ?thesis using e by simp
qed

lemma verify_active:
  assumes v: "verify_authority ops sigs get_active get_owner get_posting depth aa oa pa = Inr ()"
    and r: "r = get_required_authorities ops" and p: "req_posting r = []"
    and A: "A = insert ''temp'' (set oa \<union> set aa)"
  shows "(\<forall>au\<in>set (req_other r). authorized get_active (set sigs) A au)
    \<and> (\<forall>i\<in>set (req_active r). i \<in> approvable get_active (set sigs) A
         \<or> (\<exists>au. get_owner i = Inr au \<and> authorized get_active (set sigs) A au))
    \<and> (\<forall>i\<in>set (req_owner r). i \<in> set oa \<or> (\<exists>au. get_owner i = Inr au \<and> authorized get_active (set sigs) A au))"
proof -
  let ?I = "search_inv get_active (set sigs) A"
  let ?s0 = "(init_sign_state sigs [])\<lparr>approved_by := flat_insert_all oa
      (flat_insert_all aa (approved_by (init_sign_state sigs [])))\<rparr>"
  obtain s1 s2 s3 where
    l1: "efold (\<lambda>auth. assert_auth tx_missing_other_auth (check_authority depth get_active auth)) (req_other r) ?s0 = Inr s1"
    and l2: "efold (\<lambda>i. assert_auth tx_missing_active_auth
                (or_else (check_authority_id depth get_active i)
                         (check_via depth get_active get_owner i))) (req_active r) s1 = Inr s2"
    and l3: "efold (\<lambda>i. assert_auth tx_missing_owner_auth
                (\<lambda>s. if i \<in> set oa then Inr (True, s)
                     else check_via depth get_active get_owner i s)) (req_owner r) s2 = Inr s3"
    using v p unfolding verify_authority_def r [symmetric] by (auto simp: Let_def)
  have i0: "?I ?s0"
    using keys_init_sign_state [of sigs "[]"] A
    by (auto simp: search_inv_def approvable_def signing_keys_def init_sign_state_def)
  have 1: "?I s1 \<and> (\<forall>au\<in>set (req_other r). authorized get_active (set sigs) A au)"
    by (rule efold_all [where P = ?I, OF l1 i0])
       (erule assert_auth_search, assumption, erule (1) check_authority_search)
  have 2: "?I s2 \<and> (\<forall>i\<in>set (req_active r). i \<in> approvable get_active (set sigs) A
         \<or> (\<exists>au. get_owner i = Inr au \<and> authorized get_active (set sigs) A au))"
    by (rule efold_all [where P = ?I, OF l2 conjunct1 [OF 1]])
       (erule assert_auth_search, assumption, erule or_else_search, assumption,
        erule (1) check_authority_id_search, erule (1) check_via_search)
  have step: "?I s' \<and> (ok \<longrightarrow> i \<in> set oa \<or> (\<exists>au. get_owner i = Inr au \<and> authorized get_active (set sigs) A au))"
    if "(if i \<in> set oa then Inr (True, s) else check_via depth get_active get_owner i s) = Inr (ok, s')" "?I s"
    for i s ok s'
    using that check_via_search [of depth get_active get_owner i s ok s' "set sigs" A] by (auto split: if_splits)
  have 3: "?I s3 \<and> (\<forall>i\<in>set (req_owner r). i \<in> set oa \<or> (\<exists>au. get_owner i = Inr au \<and> authorized get_active (set sigs) A au))"
    by (rule efold_all [where P = ?I, OF l3 conjunct1 [OF 2]])
       (erule assert_auth_search, assumption, erule (1) step)
  from 1 2 3 show ?thesis by blast
qed

lemma block_num_of_id:
  assumes "crypto_ok C"
  shows "num_from_id C (block_id C b) = block_num C b"
proof -
  have "length (fc_sha224 C (signed_block_header.truncate b)) = 7" using assms by (simp add: crypto_ok_def)
  then show ?thesis using assms by (simp add: num_from_id_def block_id_def Let_def crypto_ok_def)
qed

lemma length_block_id: "crypto_ok C \<Longrightarrow> length (block_id C b) = 5"
  by (simp add: crypto_ok_def block_id_def Let_def)

section \<open>Properties\<close>

definition sample_crypto :: fc_crypto where
  "sample_crypto = \<lparr>fc_digest = (\<lambda>t. replicate 8 (of_nat (length (operations t)))),
     fc_sig_digest = (\<lambda>c t. [of_nat (length (operations t))]), fc_merkle_digest = (\<lambda>t. [expiration t]),
     fc_header_digest = (\<lambda>h. [timestamp h]), fc_sha224 = (\<lambda>h. replicate 7 (timestamp h)),
     fc_hash_pair = (\<lambda>x y. [hd x * 31 + hd y]), fc_checksum = (\<lambda>x. replicate 5 (hd x)),
     fc_recover = (\<lambda>sig d. Inr (ucast sig)), fc_sign_compact = (\<lambda>k d. ucast k),
     fc_endian_reverse_u32 = (\<lambda>x. x), fc_pack_size = (\<lambda>b. length (transactions b)),
     fc_trx_pack_size = (\<lambda>t. length (operations t))\<rparr>"

lemma sample_crypto_ok: "crypto_ok sample_crypto"
  by (simp add: crypto_ok_def sample_crypto_def)

text \<open>
  (C10) Transactions that need posting authority: if \<open>verify_authority\<close> accepts one, it needs no
  other kind of authority, and every account it needs is approved beforehand or has a posting,
  active or owner authority that the signatures satisfy.
\<close>

theorem posting_authority_enforced:
  assumes "verify_authority ops sigs get_active get_owner get_posting depth aa oa pa = Inr ()"
    and "req_posting (get_required_authorities ops) \<noteq> []"
  shows "req_active (get_required_authorities ops) = [] \<and> req_owner (get_required_authorities ops) = []
    \<and> req_other (get_required_authorities ops) = []
    \<and> (\<forall>i\<in>set (req_posting (get_required_authorities ops)).
         i \<in> approvable get_posting (set sigs) (insert ''temp'' (set pa))
         \<or> (\<exists>au. get_active i = Inr au \<and> authorized get_posting (set sigs) (insert ''temp'' (set pa)) au)
         \<or> (\<exists>au. get_owner i = Inr au \<and> authorized get_posting (set sigs) (insert ''temp'' (set pa)) au))"
  using verify_posting [OF assms(1) refl assms(2) refl] .

theorem posting_authority_enforced_witness:
  "''alice'' \<in> approvable (\<lambda>_. Inr sample_authority) {5, 6} {''temp''}
   \<or> (\<exists>au. Inr sample_authority = (Inr au :: authority result) \<and> authorized (\<lambda>_. Inr sample_authority) {5, 6} {''temp''} au)"
proof -
  let ?ops = "[DeleteComment \<lparr>dco_author = ''alice'', dco_permlink = ''p''\<rparr>]"
  have r: "get_required_authorities ?ops = \<lparr>req_active = [], req_owner = [], req_posting = [''alice''], req_other = []\<rparr>"
    by (simp add: get_required_authorities_def no_auths_def need_posting_def flat_insert_def)
  have "verify_authority ?ops [5, 6] (\<lambda>_. Inr sample_authority) (\<lambda>_. Inr sample_authority)
      (\<lambda>_. Inr sample_authority) 2 [] [] [] = Inr ()"
    by code_simp
  from posting_authority_enforced [OF this] show ?thesis unfolding r by auto
qed

text \<open>
  (C16) Transactions that need active or owner authority: if \<open>verify_authority\<close> accepts one, every
  authority listed in it is satisfied by the signatures, every account whose active authority it
  needs is approved or has an active or owner authority that they satisfy, and every account
  whose owner authority it needs is approved as owner or has an owner authority that they satisfy.
\<close>

theorem active_authority_enforced:
  assumes "verify_authority ops sigs get_active get_owner get_posting depth aa oa pa = Inr ()"
    and "req_posting (get_required_authorities ops) = []"
  shows "(\<forall>au\<in>set (req_other (get_required_authorities ops)).
         authorized get_active (set sigs) (insert ''temp'' (set oa \<union> set aa)) au)
    \<and> (\<forall>i\<in>set (req_active (get_required_authorities ops)).
         i \<in> approvable get_active (set sigs) (insert ''temp'' (set oa \<union> set aa))
         \<or> (\<exists>au. get_owner i = Inr au \<and> authorized get_active (set sigs) (insert ''temp'' (set oa \<union> set aa)) au))
    \<and> (\<forall>i\<in>set (req_owner (get_required_authorities ops)). i \<in> set oa
         \<or> (\<exists>au. get_owner i = Inr au \<and> authorized get_active (set sigs) (insert ''temp'' (set oa \<union> set aa)) au))"
  using verify_active [OF assms(1) refl assms(2) refl] .

theorem active_authority_enforced_witness:
  "''alice'' \<in> approvable (\<lambda>_. Inr sample_authority) {5, 6} {''temp''}
   \<or> (\<exists>au. Inr sample_authority = (Inr au :: authority result) \<and> authorized (\<lambda>_. Inr sample_authority) {5, 6} {''temp''} au)"
proof -
  let ?ops = "[AccountWitnessVote \<lparr>awv_account = ''alice'', awv_witness = ''bob'', awv_approve = True\<rparr>]"
  have r: "get_required_authorities ?ops = \<lparr>req_active = [''alice''], req_owner = [], req_posting = [], req_other = []\<rparr>"
    by (simp add: get_required_authorities_def no_auths_def need_active_def flat_insert_def)
  have "verify_authority ?ops [5, 6] (\<lambda>_. Inr sample_authority) (\<lambda>_. Inr sample_authority)
      (\<lambda>_. Inr sample_authority) 2 [] [] [] = Inr ()"
    by code_simp
  from active_authority_enforced [OF this] show ?thesis unfolding r by auto
qed

text \<open>
  (C35) The Merkle root that the in-place loop of \<open>calculate_merkle_root\<close> computes is the checksum
  of the root of the tree that hashes the transaction digests in pairs, level by level, carrying
  an odd last digest up unchanged; the loop over the levels ends.
\<close>

theorem merkle_root_is_tree_root:
  "calculate_merkle_root C b = (if transactions b = [] then replicate 5 0
     else fc_checksum C (hd (merkle_tree (fc_hash_pair C) (map (fc_merkle_digest C) (transactions b)))))"
proof (cases "transactions b = []")
  case False
  let ?ids = "map (fc_merkle_digest C) (transactions b)"
  have t: "take 1 (merkle_loop C (length ?ids) ?ids) = take 1 (merkle_tree (fc_hash_pair C) ?ids)"
    using merkle_loop_tree [of "length ?ids" ?ids C] False by simp
  have "merkle_tree (fc_hash_pair C) ?ids \<noteq> []" by (rule merkle_tree_nonempty) (use False in simp)
  then have "take 1 (merkle_tree (fc_hash_pair C) ?ids) = [hd (merkle_tree (fc_hash_pair C) ?ids)]"
    by (cases "merkle_tree (fc_hash_pair C) ?ids") auto
  then have "merkle_loop C (length ?ids) ?ids ! 0 = hd (merkle_tree (fc_hash_pair C) ?ids)"
    using t by (cases "merkle_loop C (length ?ids) ?ids") auto
  then show ?thesis using False by (simp add: calculate_merkle_root_def Let_def)
qed (simp add: calculate_merkle_root_def)

text \<open>
  A block id carries the number of its block: reading the number back from the id of a block
  gives the number after that of its predecessor (modulo \<open>2 ^ 32\<close>), and an id has five words.
\<close>

theorem block_number_in_id:
  assumes "crypto_ok C"
  shows "num_from_id C (block_id C b) = num_from_id C (previous b) + 1 \<and> length (block_id C b) = 5"
  using block_num_of_id [OF assms, of b] length_block_id [OF assms] by (simp add: block_num_def)

theorem block_number_in_id_witness:
  "num_from_id sample_crypto (block_id sample_crypto \<lparr>previous = [41, 0, 0, 0, 0], timestamp = 9, witness = ''w'',
     transaction_merkle_root = [], extensions = [], witness_signature = 0\<rparr>) = 42"
proof -
  have "num_from_id sample_crypto [41, 0, 0, 0, 0] = 41" by (simp add: num_from_id_def sample_crypto_def)
  then show ?thesis by (simp add: block_number_in_id [OF sample_crypto_ok])
qed

end
