(* ===== verification/Reward.thy ===== *)
theory Reward
  imports Config Asset
begin

text \<open>
  Reward curves and payouts: \<open>libraries/chain/util/reward.cpp\<close>.  \<open>approx_sqrt\<close> estimates a square
  root from the position of the most significant bit; the lemmas show that it is one step of
  Newton's iteration from a power of two, hence never below the integer square root and at most
  a factor of \<open>sqrt (9/8)\<close> above the real one.
\<close>

unbundle bit_operations_syntax

datatype curve_id = quadratic | quadratic_curation | linear | square_root

record comment_reward_context =
  ctx_rshares :: int
  ctx_reward_weight :: u16
  ctx_max_payout :: asset
  ctx_total_reward_shares2 :: u128
  ctx_total_reward_fund_steem :: asset
  ctx_reward_curve :: curve_id
  ctx_content_constant :: u128

definition lo :: "u128 \<Rightarrow> u64" where
  "lo u = ucast u"

definition hi :: "u128 \<Rightarrow> u64" where
  "hi u = ucast (drop_bit 64 u)"

definition find_msb :: "fc_lib \<Rightarrow> u128 \<Rightarrow> u8" where
  "find_msb F u =
     (let x = (if lo u \<noteq> 0 then lo u else 1);
          places = (if hi u \<noteq> 0 then 64 else 0);
          x = (if hi u \<noteq> 0 then hi u else x)
      in of_nat (boost_find_msb F x + places))"

definition approx_sqrt :: "fc_lib \<Rightarrow> u128 \<Rightarrow> u64" where
  "approx_sqrt F x =
     (if lo x = 0 \<and> hi x = 0 then 0
      else
       (let msb_x = find_msb F x;
            msb_z = drop_bit 1 msb_x;
            msb_x_bit = push_bit (unat msb_x) (1 :: u128);
            msb_z_bit = push_bit (unat msb_z) (1 :: u64);
            mantissa_mask = msb_x_bit - 1;
            mantissa_x = x AND mantissa_mask;
            mantissa_z_hi = (if msb_x AND 1 \<noteq> 0 then msb_z_bit else 0);
            mantissa_z_lo = lo (drop_bit (unat msb_x - unat msb_z) mantissa_x);
            mantissa_z = drop_bit 1 (mantissa_z_hi OR mantissa_z_lo)
        in msb_z_bit OR mantissa_z))"

definition evaluate_reward_curve :: "fc_lib \<Rightarrow> u128 \<Rightarrow> curve_id \<Rightarrow> u128 \<Rightarrow> u128 result" where
  "evaluate_reward_curve F rshares curve content_constant =
     (case curve of
        quadratic \<Rightarrow>
          (let rshares_plus_s = rshares + content_constant in
           Inr (rshares_plus_s * rshares_plus_s - content_constant * content_constant))
      | quadratic_curation \<Rightarrow>
          (let two_alpha = content_constant * 2 in
           if two_alpha + rshares = 0 then Inl divide_by_zero_exception
           else Inr (push_bit 64 (ucast (lo rshares)) div (two_alpha + rshares)))
      | linear \<Rightarrow> Inr rshares
      | square_root \<Rightarrow> Inr (ucast (approx_sqrt F rshares)))"

definition to256 :: "u128 \<Rightarrow> 256 word" where
  "to256 t = push_bit 64 (ucast (hi t)) + ucast (lo t)"

definition get_rshare_reward :: "fc_lib \<Rightarrow> comment_reward_context \<Rightarrow> u64 result" where
  "get_rshare_reward F ctx =
     require (ctx_rshares ctx > 0) (require (ctx_total_reward_shares2 ctx > 0)
     (let rf = (word_of_int (amount (ctx_total_reward_fund_steem ctx)) :: 256 word);
          total_claims = to256 (ctx_total_reward_shares2 ctx)
      in ebind (evaluate_reward_curve F (to_u128 (ctx_rshares ctx)) (ctx_reward_curve ctx) (ctx_content_constant ctx)) (\<lambda>c.
         let claim = to256 c;
             claim = (claim * ucast (ctx_reward_weight ctx)) div WLS_100_PERCENT;
             payout_u256 = (rf * claim) div total_claims
         in require (payout_u256 \<le> 0x7fffffffffffffff)
            (let payout = ucast payout_u256 :: u64;
                 payout = (if payout < WLS_MIN_PAYOUT_STEEM then 0 else payout);
                 max_steem = ctx_max_payout ctx
             in Inr (min payout (word_of_int (amount max_steem)))))))"

section \<open>Halves of a 128-bit number\<close>

lemma unat_u128: "unat (u :: u128) < 2 ^ 128"
  using unsigned_less [of u] by simp

lemma unat_drop_bit: "unat (drop_bit n (w :: 'a::len word)) = unat w div 2 ^ n"
  unfolding unsigned_drop_bit_eq by (simp add: take_bit_nat_eq_self unsigned_less drop_bit_eq_div)

lemma unat_lo: "unat (lo u) = unat u mod 2 ^ 64"
  by (simp add: lo_def unsigned_ucast_eq take_bit_eq_mod)

lemma unat_hi: "unat (hi u) = unat u div 2 ^ 64"
proof -
  have "unat u div 2 ^ 64 < 2 ^ 64"
    using unat_u128 [of u] by (simp add: less_mult_imp_div_less)
  then show ?thesis by (simp add: hi_def unsigned_ucast_eq take_bit_eq_mod unat_drop_bit)
qed

lemma lo_hi_zero: "lo u = 0 \<and> hi u = 0 \<longleftrightarrow> u = 0"
proof -
  have "unat u mod 2 ^ 64 = 0 \<and> unat u div 2 ^ 64 = 0 \<longleftrightarrow> unat u = 0"
    by (metis div_mult_mod_eq add_0_right mult_0 div_0 mod_0)
  then show ?thesis by (metis unat_lo unat_hi unat_eq_zero)
qed

lemma unat_to256: "unat (to256 t) = unat t"
proof -
  have h: "unat (push_bit 64 (ucast (hi t)) :: 256 word) = 2 ^ 64 * unat (hi t)"
  proof -
    have "unat (hi t) < 2 ^ 64" using unsigned_less [of "hi t"] by simp
    then show ?thesis
      by (simp add: push_bit_eq_mult unat_word_ariths unsigned_ucast_eq take_bit_eq_mod)
  qed
  have l: "unat (ucast (lo t) :: 256 word) = unat (lo t)"
  proof -
    have "unat (lo t) < 2 ^ 64" using unsigned_less [of "lo t"] by simp
    then show ?thesis by (simp add: unsigned_ucast_eq take_bit_eq_mod)
  qed
  have "2 ^ 64 * unat (hi t) + unat (lo t) = unat t"
    by (simp add: unat_lo unat_hi)
  then show ?thesis using h l unat_u128 [of t] by (simp add: to256_def unat_word_ariths)
qed

section \<open>The square root approximation\<close>

lemma unat_lo_only: "hi x = 0 \<Longrightarrow> unat x = unat (lo x)"
  unfolding unat_lo using unat_hi [of x] by (metis add_0 div_mult_mod_eq mult_0 unat_0)

lemma unat_hi_bounds:
  assumes "2 ^ k \<le> unat (hi x) \<and> unat (hi x) < 2 ^ (k + 1)"
  shows "2 ^ (k + 64) \<le> unat x \<and> unat x < 2 ^ (k + 64 + 1)"
proof
  have B: "2 ^ k \<le> unat (hi x)" "unat (hi x) + 1 \<le> 2 ^ (k + 1)"
    using assms by (simp_all only: Suc_eq_plus1 [symmetric] Suc_le_eq simp_thms)
  have hi1: "2 ^ 64 * unat (hi x) \<le> unat x" unfolding unat_hi by (rule times_div_less_eq_dividend)
  have "unat x < 2 ^ 64 + unat x div 2 ^ 64 * 2 ^ 64" by (rule dividend_less_div_times) simp
  then have hi2: "unat x < 2 ^ 64 * (unat (hi x) + 1)"
    unfolding unat_hi by (simp only: mult.commute distrib_left mult_1_right add.commute)
  have "2 ^ (k + 64) = (2 ^ 64 :: nat) * 2 ^ k" by (simp only: power_add mult.commute)
  then show "2 ^ (k + 64) \<le> unat x" using mult_le_mono2 [OF B(1), of "2 ^ 64"] hi1 by (metis order_trans)
  have "2 ^ (k + 64 + 1) = (2 ^ 64 :: nat) * 2 ^ (k + 1)"
    by (simp only: power_add mult.commute mult.left_commute)
  then show "unat x < 2 ^ (k + 64 + 1)"
    using mult_le_mono2 [OF B(2), of "2 ^ 64"] hi2 by (metis order_less_le_trans)
qed

context fc_env
begin

lemma boost_msb_less:
  assumes "x \<noteq> 0"
  shows "boost_find_msb F x < 64"
proof -
  have "unat x < 2 ^ 64" using unsigned_less [of x] by simp
  then have "(2 :: nat) ^ boost_find_msb F x < 2 ^ 64"
    using find_msb_bounds [OF assms] by (meson le_less_trans)
  then show ?thesis by (rule power_less_imp_less_exp [rotated]) simp
qed

lemma find_msb_lo:
  assumes "hi x = 0" "lo x \<noteq> 0"
  shows "unat (find_msb F x) = boost_find_msb F (lo x)"
proof -
  have "find_msb F x = of_nat (boost_find_msb F (lo x))" using assms by (simp add: find_msb_def)
  then show ?thesis using boost_msb_less [OF assms(2)] by (simp add: unat_of_nat)
qed

lemma find_msb_hi:
  assumes "hi x \<noteq> 0"
  shows "unat (find_msb F x) = boost_find_msb F (hi x) + 64"
proof -
  have "find_msb F x = of_nat (boost_find_msb F (hi x) + 64)"
    unfolding find_msb_def Let_def using assms by (simp only: if_True not_False_eq_True)
  then show ?thesis using boost_msb_less [OF assms] by (simp only: unat_of_nat) simp
qed

lemma find_msb_value:
  assumes "x \<noteq> 0"
  shows "2 ^ unat (find_msb F x) \<le> unat x \<and> unat x < 2 ^ (unat (find_msb F x) + 1)"
proof (cases "hi x = 0")
  case True
  then have l: "lo x \<noteq> 0" using assms lo_hi_zero by blast
  have "unat x = unat (lo x)" by (rule unat_lo_only [OF True])
  then show ?thesis using find_msb_bounds [OF l] find_msb_lo [OF True l] by metis
next
  case False
  then show ?thesis
    using unat_hi_bounds [OF find_msb_bounds [OF False]] find_msb_hi [OF False] by metis
qed

end

lemma unat_one_bit: "k < 64 \<Longrightarrow> unat (push_bit k 1 :: u64) = 2 ^ k"
proof -
  assume "k < 64"
  then have "(2 :: nat) ^ k < 2 ^ 64" by (intro power_strict_increasing) auto
  moreover have "(push_bit k 1 :: u64) = of_nat (2 ^ k)" by (simp add: push_bit_eq_mult)
  ultimately show ?thesis by (simp only: unat_of_nat) simp
qed

lemma unat_bit_or:
  assumes "k < 64" "unat (y :: u64) < 2 ^ k"
  shows "unat (push_bit k 1 OR y) = 2 ^ k + unat y"
proof -
  have y: "take_bit k y = y"
    using assms(2) by (metis take_bit_nat_eq_self_iff unsigned_take_bit_eq word_unat_eq_iff)
  have "push_bit k 1 AND y = 0"
    by (subst y [symmetric], rule bit_word_eqI) (auto simp: bit_simps)
  then have "push_bit k 1 OR y = push_bit k 1 + y" by (simp add: disjunctive_add_eq_or)
  moreover have "2 ^ k + unat y < 2 ^ 64"
  proof -
    have "2 ^ k + unat y < 2 ^ (k + 1)" using assms(2) by simp
    also have "\<dots> \<le> (2 :: nat) ^ 64" using assms(1) by (intro power_increasing) auto
    finally show ?thesis .
  qed
  ultimately show ?thesis using unat_one_bit [OF assms(1)] by (simp add: unat_word_ariths)
qed

lemma unat_mantissa:
  assumes "2 ^ m \<le> unat x" "unat x < 2 ^ (m + 1)" "m < 128"
  shows "unat (x AND (push_bit m 1 - 1) :: u128) = unat x - 2 ^ m"
proof -
  have t: "x AND (push_bit m 1 - 1) = take_bit m x"
    by (simp add: take_bit_eq_mask mask_eq_exp_minus_1 push_bit_eq_mult)
  have "unat (x AND (push_bit m 1 - 1)) = unat x mod 2 ^ m"
    unfolding t unsigned_take_bit_eq by (rule take_bit_eq_mod)
  also have "\<dots> = unat x - 2 ^ m"
    using assms(1,2) by (subst mod_if) (simp add: le_mod_geq)
  finally show ?thesis .
qed

text \<open>The value that the bit manipulation computes, over natural numbers.\<close>

lemma newton_step_value:
  fixes r :: nat
  assumes "m = 2 * k + e" "e < 2"
  shows "2 ^ k + (e * 2 ^ k + r div 2 ^ (k + e)) div 2
    = (2 ^ (2 * (k + e)) + (2 ^ m + r)) div (2 * 2 ^ (k + e))"
proof -
  have e: "e = 0 \<or> e = 1" using assms(2) by auto
  have "(e * 2 ^ k + r div 2 ^ (k + e)) div 2 = (e * 2 ^ k * 2 ^ (k + e) + r) div (2 ^ (k + e) * 2)"
    by (simp add: div_mult2_eq div_mult_self3)
  moreover have "2 ^ k + (e * 2 ^ k * 2 ^ (k + e) + r) div (2 ^ (k + e) * 2)
      = (2 ^ k * (2 ^ (k + e) * 2) + (e * 2 ^ k * 2 ^ (k + e) + r)) div (2 ^ (k + e) * 2)"
    by simp
  moreover have "2 ^ k * (2 ^ (k + e) * 2) + (e * 2 ^ k * 2 ^ (k + e) + r) = 2 ^ (2 * (k + e)) + (2 ^ m + r)"
    using e assms(1) by (auto simp: power_add power_mult power2_eq_square algebra_simps)
  ultimately show ?thesis by (metis mult.commute)
qed

lemma newton_step_bounds:
  fixes x a :: nat
  assumes "0 < a" "a\<^sup>2 \<le> 2 * x" "x \<le> 2 * a\<^sup>2" and z: "z = (a\<^sup>2 + x) div (2 * a)"
  shows "x < (z + 1)\<^sup>2" and "8 * z\<^sup>2 \<le> 9 * x"
proof -
  have "a\<^sup>2 + x < 2 * a * (z + 1)"
    using assms(1) z by (metis dividend_less_times_div mult_pos_pos zero_less_numeral distrib_left mult_1_right add.commute)
  then have "int (a\<^sup>2 + x) < int (2 * a * (z + 1))" by (simp only: of_nat_less_iff)
  then have 1: "int a ^ 2 + int x < 2 * int a * (int z + 1)" by (simp add: algebra_simps)
  have "0 \<le> (int a - (int z + 1))\<^sup>2" by simp
  then have "2 * int a * (int z + 1) \<le> (int a)\<^sup>2 + (int z + 1)\<^sup>2" by (simp add: power2_eq_square algebra_simps)
  with 1 have "int x < (int z + 1)\<^sup>2" by linarith
  then have "int x < int ((z + 1)\<^sup>2)" by (simp add: add.commute)
  then show "x < (z + 1)\<^sup>2" by (simp only: of_nat_less_iff)
  have le: "2 * a * z \<le> a\<^sup>2 + x" using z by simp
  then have "int (2 * a * z) \<le> int (a\<^sup>2 + x)" by (simp only: of_nat_le_iff)
  then have sq: "(2 * int a * int z)\<^sup>2 \<le> (int a ^ 2 + int x)\<^sup>2"
    by (intro power_mono) simp_all
  let ?A = "(int a)\<^sup>2" and ?X = "int x"
  have "?A \<le> 2 * ?X" "?X \<le> 2 * ?A"
    using assms(2,3) by (simp_all flip: of_nat_power of_nat_mult)
  then have "(?X - 2 * ?A) * (2 * ?X - ?A) \<le> 0" by (intro mult_nonpos_nonneg) auto
  then have "2 * (?A + ?X)\<^sup>2 \<le> 9 * (?A * ?X)" by (simp add: power2_eq_square algebra_simps)
  with sq have "2 * (2 * int a * int z)\<^sup>2 \<le> 9 * (?A * ?X)" by linarith
  then have "?A * (8 * (int z)\<^sup>2) \<le> ?A * (9 * ?X)" by (simp add: power2_eq_square algebra_simps)
  then have "8 * (int z)\<^sup>2 \<le> 9 * ?X" using assms(1) by (simp add: mult_le_cancel_left)
  then have "int (8 * z\<^sup>2) \<le> int (9 * x)" by simp
  then show "8 * z\<^sup>2 \<le> 9 * x" by (simp only: of_nat_le_iff)
qed

context fc_env
begin

lemma approx_sqrt_newton:
  assumes "x \<noteq> 0"
  shows "\<exists>a. 0 < a \<and> a\<^sup>2 \<le> 2 * unat x \<and> unat x \<le> 2 * a\<^sup>2
    \<and> unat (approx_sqrt F x) = (a\<^sup>2 + unat x) div (2 * a)"
proof -
  define m where "m = unat (find_msb F x)"
  define k where "k = m div 2"
  define e where "e = m mod 2"
  define r where "r = unat x - 2 ^ m"
  have M: "2 ^ m \<le> unat x" "unat x < 2 ^ (m + 1)"
    using find_msb_value [OF assms] by (simp_all add: m_def)
  have "(2 :: nat) ^ m < 2 ^ 128" using M(1) unat_u128 [of x] by (meson le_less_trans)
  then have m128: "m < 128" by (rule power_less_imp_less_exp [rotated]) simp
  have mke: "m = 2 * k + e" "e < 2" by (simp_all add: k_def e_def)
  have k64: "k < 64" using m128 by (simp add: k_def)
  have xr: "unat x = 2 ^ m + r" "r < 2 ^ m" using M by (simp_all add: r_def)
  have z: "unat (drop_bit 1 (find_msb F x)) = k" by (simp add: unat_drop_bit k_def m_def del: drop_bit_Suc)
  have odd: "(find_msb F x AND 1 \<noteq> 0) \<longleftrightarrow> e = 1"
  proof -
    have "unat (find_msb F x AND 1) = e" by (simp add: and_one_eq unat_mod_distrib e_def m_def)
    then have "find_msb F x AND 1 = 0 \<longleftrightarrow> e = 0" by (metis unat_eq_zero)
    then show ?thesis using mke(2) by linarith
  qed
  have "r div 2 ^ (m - k) < 2 ^ k"
  proof -
    have "k + (m - k) = m" using mke by simp
    then have "r < 2 ^ k * 2 ^ (m - k)" using xr(2) by (metis power_add)
    then show ?thesis by (simp add: less_mult_imp_div_less)
  qed
  moreover have "(2 :: nat) ^ k < 2 ^ 64" using k64 by (intro power_strict_increasing) auto
  ultimately have lt: "r div 2 ^ (m - k) < 2 ^ k" and "r div 2 ^ (m - k) < 2 ^ 64" by linarith+
  then have lo: "unat (lo (drop_bit (m - k) (x AND (push_bit m 1 - 1)))) = r div 2 ^ (m - k)"
    unfolding unat_lo unat_drop_bit unat_mantissa [OF M m128] r_def [symmetric] by (intro mod_less)
  define q where "q = lo (drop_bit (m - k) (x AND (push_bit m 1 - 1)))"
  define w where "w = (if e = 1 then push_bit k 1 else 0) OR q"
  have uw: "unat w = e * 2 ^ k + r div 2 ^ (m - k)"
    using mke(2) lo lt unat_bit_or [OF k64, of q]
    by (cases "e = 1") (auto simp: w_def q_def)
  have "unat (drop_bit 1 w) = unat w div 2" by (simp add: unat_drop_bit del: drop_bit_Suc)
  moreover have "unat w div 2 < 2 ^ k" 
  proof -
    have "e * 2 ^ k \<le> 1 * 2 ^ k" using mke(2) by (intro mult_right_mono) auto
    then show ?thesis using uw lt by linarith
  qed
  ultimately have "unat (push_bit k 1 OR drop_bit 1 w) = 2 ^ k + (e * 2 ^ k + r div 2 ^ (k + e)) div 2"
    using unat_bit_or [OF k64, of "drop_bit 1 w"] uw mke(1) by simp
  moreover have "approx_sqrt F x = push_bit k 1 OR drop_bit 1 w"
  proof -
    have nz: "\<not> (lo x = 0 \<and> hi x = 0)" using assms lo_hi_zero [of x] by blast
    show ?thesis unfolding approx_sqrt_def Let_def w_def q_def m_def [symmetric] odd z
      by (simp only: nz if_False)
  qed
  ultimately have v: "unat (approx_sqrt F x) = ((2 ^ (k + e))\<^sup>2 + unat x) div (2 * 2 ^ (k + e))"
    unfolding xr(1) using newton_step_value [OF mke, of r] by (simp add: power_mult [symmetric] mult.commute)
  have "((2 :: nat) ^ (k + e))\<^sup>2 \<le> 2 * unat x \<and> unat x \<le> 2 * (2 ^ (k + e))\<^sup>2"
  proof (cases "e = 1")
    case True
    then have "2 * (k + e) = m + 1" using mke(1) by simp
    then have "((2 :: nat) ^ (k + e))\<^sup>2 = 2 * 2 ^ m" by (metis power_mult mult.commute power_Suc Suc_eq_plus1)
    then show ?thesis using M by simp
  next
    case False
    then have "((2 :: nat) ^ (k + e))\<^sup>2 = 2 ^ m" using mke by (simp add: power_mult [symmetric] mult.commute)
    then show ?thesis using M by simp
  qed
  with v show ?thesis by (intro exI [of _ "2 ^ (k + e)"]) simp
qed

lemma approx_sqrt_bounds:
  "unat x < (unat (approx_sqrt F x) + 1)\<^sup>2 \<and> 8 * (unat (approx_sqrt F x))\<^sup>2 \<le> 9 * unat x"
proof (cases "x = 0")
  case True
  then show ?thesis by (simp add: approx_sqrt_def lo_def hi_def)
next
  case False
  then show ?thesis using approx_sqrt_newton [OF False] newton_step_bounds by metis
qed

end

section \<open>The payout of a comment\<close>

lemma claim_256:
  "unat ((to256 c * ucast (w :: u16)) div (10000 :: 256 word)) = unat c * unat w div 10000"
proof -
  have w: "unat (ucast w :: 256 word) = unat w"
  proof -
    have "unat w < 2 ^ 16" using unsigned_less [of w] by simp
    then show ?thesis by (simp add: unsigned_ucast_eq take_bit_eq_mod)
  qed
  have "unat c * unat w < 2 ^ 128 * 2 ^ 16"
    using unat_u128 [of c] unsigned_less [of w] by (intro mult_strict_mono) simp_all
  then have "unat (to256 c * ucast w) = unat c * unat w"
    by (simp add: unat_word_ariths unat_to256 w)
  then show ?thesis by (simp add: unat_div_distrib)
qed

lemma payout_256:
  assumes "0 \<le> f" "f < 2 ^ 63" "unat (k :: 256 word) < 2 ^ 144"
  shows "unat ((word_of_int f * k) div to256 t) = nat f * unat k div unat t"
proof -
  have "nat f * unat k < 2 ^ 63 * 2 ^ 144" using assms by (intro mult_strict_mono) auto
  then have b: "nat f * unat k < 2 ^ 256" by simp
  have "unat (word_of_int f :: 256 word) = nat f"
    using assms(1,2) by (simp add: unat_eq_nat_uint uint_word_of_int)
  then have "unat (word_of_int f * k) = nat f * unat k" using b by (simp add: unat_word_ariths)
  then show ?thesis by (simp add: unat_div_distrib unat_to256)
qed

lemma get_rshare_reward_value:
  assumes r: "get_rshare_reward F ctx = Inr p"
    and f: "0 \<le> amount (ctx_total_reward_fund_steem ctx)" "amount (ctx_total_reward_fund_steem ctx) < 2 ^ 63"
  shows "\<exists>c v. evaluate_reward_curve F (to_u128 (ctx_rshares ctx)) (ctx_reward_curve ctx) (ctx_content_constant ctx) = Inr c
    \<and> v = nat (amount (ctx_total_reward_fund_steem ctx)) * (unat c * unat (ctx_reward_weight ctx) div 10000)
          div unat (ctx_total_reward_shares2 ctx)
    \<and> v < 2 ^ 63 \<and> unat p = min (if v < 20 then 0 else v) (unat (word_of_int (amount (ctx_max_payout ctx)) :: u64))"
proof -
  obtain c where c: "evaluate_reward_curve F (to_u128 (ctx_rshares ctx)) (ctx_reward_curve ctx) (ctx_content_constant ctx) = Inr c"
    using r by (auto simp: get_rshare_reward_def Let_def)
  define k where "k = (to256 c * ucast (ctx_reward_weight ctx)) div (10000 :: 256 word)"
  define q where "q = (word_of_int (amount (ctx_total_reward_fund_steem ctx)) * k) div to256 (ctx_total_reward_shares2 ctx)"
  have uk: "unat k = unat c * unat (ctx_reward_weight ctx) div 10000" by (simp add: k_def claim_256)
  have "unat c * unat (ctx_reward_weight ctx) < 2 ^ 128 * 2 ^ 16"
    using unat_u128 [of c] unsigned_less [of "ctx_reward_weight ctx"] by (intro mult_strict_mono) simp_all
  then have "unat k < 2 ^ 144" unfolding uk
    by (rule le_less_trans [OF div_le_dividend, THEN order_less_le_trans]) simp
  from payout_256 [OF f this] have uq: "unat q = nat (amount (ctx_total_reward_fund_steem ctx)) * unat k div unat (ctx_total_reward_shares2 ctx)"
    by (simp add: q_def)
  have le: "q \<le> 0x7fffffffffffffff"
    and p: "p = min (if ucast q < (20 :: u64) then 0 else ucast q) (word_of_int (amount (ctx_max_payout ctx)))"
    using r c unfolding q_def k_def by (auto simp: get_rshare_reward_def Let_def)
  have q63: "unat q < 2 ^ 63" using le by (simp add: word_le_nat_alt)
  then have uc: "unat (ucast q :: u64) = unat q" by (simp add: unsigned_ucast_eq take_bit_eq_mod)
  have m: "unat (min a b :: u64) = min (unat a) (unat b)" for a b
    by (simp add: min_def word_le_nat_alt)
  have "unat p = min (if unat q < 20 then 0 else unat q) (unat (word_of_int (amount (ctx_max_payout ctx)) :: u64))"
    unfolding p m using uc by (simp add: word_less_nat_alt)
  then show ?thesis using c q63 uq uk by auto
qed

text \<open>
  (C39) \<open>approx_sqrt\<close> is a correctly bounded square root on the whole range of \<open>uint128_t\<close>: it is
  never smaller than the integer square root, and its square exceeds the argument by at most one
  eighth.
\<close>

theorem approx_sqrt_correct:
  assumes "fc_ok F"
  shows "unat x < (unat (approx_sqrt F x) + 1)\<^sup>2 \<and> 8 * (unat (approx_sqrt F x))\<^sup>2 \<le> 9 * unat x"
  by (rule fc_env.approx_sqrt_bounds) (rule fc_env.intro [OF assms])

theorem approx_sqrt_correct_witness:
  "approx_sqrt fc_int64 1000 = 31 \<and> unat (1000 :: u128) < (unat (approx_sqrt fc_int64 1000) + 1)\<^sup>2"
proof -
  have m: "find_msb fc_int64 1000 = 9"
    by (simp add: find_msb_def lo_def hi_def fc_int64_def msb_nat.simps)
  have "approx_sqrt fc_int64 1000 = 31"
    by (simp add: approx_sqrt_def m Let_def lo_def hi_def)
  then show ?thesis using approx_sqrt_correct [OF fc_ok_int64, of 1000] by simp
qed



end
