(* ===== verification/Table.thy ===== *)
theory Table
  imports Chainbase
begin

text \<open>
  The contents of one index of the object database, without its undo states: what the operations
  of the chain read and write.  \<open>tbl_create\<close>, \<open>tbl_modify\<close> and \<open>tbl_remove\<close> are the effects of
  \<open>database::create\<close>, \<open>modify\<close> and \<open>remove\<close> of chainbase on the contents; the refinement lemmas
  show that the full \<open>generic_index\<close> operations have exactly these effects and the same
  exceptions.  Sessions of the chain database are then stacks of saved contents, which is what
  \<open>undo_store\<close> establishes for the full index.

  The component theories reason about a table through sums over its rows; \<open>tbl_sum\<close> and its
  lemmas are the library for that.
\<close>

record 'a table =
  rows :: "(int \<times> 'a) list"
  next_row_id :: int

definition empty_table :: "'a table" where
  "empty_table = \<lparr>rows = [], next_row_id = 0\<rparr>"

definition tbl_create :: "('a \<Rightarrow> 'k) \<Rightarrow> 'a \<Rightarrow> 'a table \<Rightarrow> (int \<times> 'a table) result" where
  "tbl_create key v t =
     (if \<exists>p\<in>set (rows t). fst p = next_row_id t \<or> key (snd p) = key v then Inl logic_error
      else Inr (next_row_id t,
        \<lparr>rows = insort_key fst (next_row_id t, v) (rows t), next_row_id = next_row_id t + 1\<rparr>))"

definition tbl_modify :: "('a \<Rightarrow> 'k) \<Rightarrow> int \<Rightarrow> ('a \<Rightarrow> 'a result) \<Rightarrow> 'a table \<Rightarrow> 'a table result" where
  "tbl_modify key i m t = (case map_of (rows t) i of
       None \<Rightarrow> Inl null_pointer
     | Some v \<Rightarrow> ebind (m v) (\<lambda>v'. ebind (set_row key i v' (rows t)) (\<lambda>rs. Inr (t\<lparr>rows := rs\<rparr>))))"

text \<open>Containers whose unique secondary keys all contain the id: no other row can conflict.\<close>

definition tbl_create_id :: "'a \<Rightarrow> 'a table \<Rightarrow> int \<times> 'a table" where
  "tbl_create_id v t =
     (next_row_id t, \<lparr>rows = insort_key fst (next_row_id t, v) (rows t), next_row_id = next_row_id t + 1\<rparr>)"

definition tbl_modify_id :: "int \<Rightarrow> ('a \<Rightarrow> 'a result) \<Rightarrow> 'a table \<Rightarrow> 'a table result" where
  "tbl_modify_id i m t = (case map_of (rows t) i of
       None \<Rightarrow> Inl null_pointer
     | Some v \<Rightarrow> ebind (m v) (\<lambda>v'. Inr (t\<lparr>rows := map_assign i v' (rows t)\<rparr>)))"

definition tbl_remove :: "int \<Rightarrow> 'a table \<Rightarrow> 'a table result" where
  "tbl_remove i t = (case map_of (rows t) i of
       None \<Rightarrow> Inl null_pointer
     | Some v \<Rightarrow> Inr (t\<lparr>rows := map_erase i (rows t)\<rparr>))"

definition tbl_get :: "int \<Rightarrow> 'a table \<Rightarrow> 'a result" where
  "tbl_get i t = (case map_of (rows t) i of None \<Rightarrow> Inl out_of_range | Some v \<Rightarrow> Inr v)"

text \<open>\<open>find\<close> and \<open>get\<close> through a unique secondary index: the row whose value satisfies \<open>P\<close>.\<close>

definition tbl_find_by :: "('a \<Rightarrow> bool) \<Rightarrow> 'a table \<Rightarrow> (int \<times> 'a) option" where
  "tbl_find_by P t = find (\<lambda>p. P (snd p)) (rows t)"

definition tbl_get_by :: "('a \<Rightarrow> bool) \<Rightarrow> 'a table \<Rightarrow> (int \<times> 'a) result" where
  "tbl_get_by P t = (case tbl_find_by P t of None \<Rightarrow> Inl out_of_range | Some p \<Rightarrow> Inr p)"

text \<open>Iteration in the order of an ordered index: rows sorted by a key.\<close>

definition tbl_sorted :: "(int \<times> 'a \<Rightarrow> 'k::linorder) \<Rightarrow> 'a table \<Rightarrow> (int \<times> 'a) list" where
  "tbl_sorted f t = sort_key f (rows t)"

definition table_ok :: "'a table \<Rightarrow> bool" where
  "table_ok t \<longleftrightarrow> distinct (map fst (rows t)) \<and> (\<forall>p\<in>set (rows t). fst p < next_row_id t)"

definition tbl_sum :: "('a \<Rightarrow> int) \<Rightarrow> 'a table \<Rightarrow> int" where
  "tbl_sum f t = sum_list (map (\<lambda>p. f (snd p)) (rows t))"

definition tbl_all :: "('a \<Rightarrow> bool) \<Rightarrow> 'a table \<Rightarrow> bool" where
  "tbl_all P t \<longleftrightarrow> (\<forall>p\<in>set (rows t). P (snd p))"

section \<open>Refinement of the undoable index\<close>

definition contents :: "'a generic_index \<Rightarrow> 'a table" where
  "contents g = \<lparr>rows = indices g, next_row_id = next_id g\<rparr>"

lemma emplace_contents:
  "ebind (emplace key (\<lambda>_. v) g) (\<lambda>(i, g'). Inr (i, contents g')) = tbl_create key v (contents g)"
  by (auto simp: emplace_def tbl_create_def contents_def Let_def)

lemma modify_contents:
  "ebind (modify key i m g) (\<lambda>g'. Inr (contents g')) = tbl_modify key i m (contents g)"
  by (cases "map_of (indices g) i")
     (auto simp: modify_def tbl_modify_def contents_def ebind_def split: sum.splits)

lemma remove_contents:
  "ebind (remove i g) (\<lambda>g'. Inr (contents g')) = tbl_remove i (contents g)"
  by (auto simp: remove_def tbl_remove_def contents_def split: option.splits)

section \<open>Lemmas\<close>

lemma sum_erase:
  fixes h :: "'a \<Rightarrow> int"
  assumes "distinct (map fst m)" "map_of m i = Some v"
  shows "sum_list (map (\<lambda>p. h (snd p)) (map_erase i m)) = sum_list (map (\<lambda>p. h (snd p)) m) - h v"
  using assms
proof (induction m)
  case Nil
  then show ?case by simp
next
  case (Cons p m)
  show ?case
  proof (cases "fst p = i")
    case True
    then have "map_erase i m = m" using Cons.prems(1) by (auto simp: map_erase_def filter_id_conv ne_key)
    then show ?thesis using True Cons.prems(2) by (simp add: map_erase_def)
  next
    case False
    then show ?thesis using Cons by (simp add: map_erase_def)
  qed
qed

lemma sum_assign:
  fixes h :: "'a \<Rightarrow> int"
  assumes "distinct (map fst m)" "map_of m i = Some v"
  shows "sum_list (map (\<lambda>p. h (snd p)) (map_assign i v' m)) = sum_list (map (\<lambda>p. h (snd p)) m) - h v + h v'"
  using assms
proof (induction m)
  case Nil
  then show ?case by simp
next
  case (Cons p m)
  show ?case
  proof (cases "fst p = i")
    case True
    then have "map_assign i v' m = m" using Cons.prems(1) by (auto simp: map_assign_def ne_key intro!: map_idI)
    then show ?thesis using True Cons.prems(2) by (simp add: map_assign_def)
  next
    case False
    then show ?thesis using Cons by (simp add: map_assign_def)
  qed
qed

lemma sum_insort:
  fixes h :: "'a \<Rightarrow> int"
  shows "sum_list (map (\<lambda>p. h (snd p)) (insort_key fst q m)) = sum_list (map (\<lambda>p. h (snd p)) m) + h (snd q)"
  by (induction m) auto

lemma set_assign: "p \<in> set (map_assign i v m) \<Longrightarrow> p \<in> set m \<or> p = (i, v)"
  by (auto simp: map_assign_def split: if_splits)

lemma tbl_modify_elim:
  assumes "tbl_modify key i f t = Inr t'"
  obtains v v' where "map_of (rows t) i = Some v" "f v = Inr v'" "rows t' = map_assign i v' (rows t)"
    "next_row_id t' = next_row_id t"
  using assms by (auto simp: tbl_modify_def set_row_def split: option.splits if_splits)

lemma tbl_modify_ok:
  assumes "tbl_modify key i f t = Inr t'" "table_ok t"
  shows "table_ok t'"
proof -
  obtain v v' where E: "map_of (rows t) i = Some v" "rows t' = map_assign i v' (rows t)"
    "next_row_id t' = next_row_id t"
    using assms(1) by (rule tbl_modify_elim)
  have "(i, v) \<in> set (rows t)" using E(1) by (rule map_of_SomeD)
  then show ?thesis using assms(2) E(2,3) by (auto simp: table_ok_def dest!: set_assign)
qed

lemma tbl_modify_sum:
  assumes "tbl_modify key i f t = Inr t'" "table_ok t"
  shows "\<exists>v v'. map_of (rows t) i = Some v \<and> f v = Inr v' \<and> map_of (rows t') = (map_of (rows t))(i \<mapsto> v')
    \<and> (\<forall>h. tbl_sum h t' = tbl_sum h t - h v + h v')"
proof -
  obtain v v' where E: "map_of (rows t) i = Some v" "f v = Inr v'" "rows t' = map_assign i v' (rows t)"
    using assms(1) by (rule tbl_modify_elim)
  moreover have "i \<in> fst ` set (rows t)" using E(1) by (simp add: mem_keys_iff)
  ultimately show ?thesis using assms(2) sum_assign [OF _ E(1)] by (simp add: table_ok_def tbl_sum_def)
qed

text \<open>A modification that keeps \<open>h\<close> of the row keeps the sum of \<open>h\<close>.\<close>

lemma tbl_modify_sum_same:
  assumes "tbl_modify key i f t = Inr t'" "table_ok t" "\<And>v v'. f v = Inr v' \<Longrightarrow> h v' = h v"
  shows "tbl_sum h t' = tbl_sum h t"
proof -
  obtain v v' where v: "f v = Inr v'" "tbl_sum h t' = tbl_sum h t - h v + h v'"
    using tbl_modify_sum [OF assms(1,2)] by blast
  then show ?thesis using assms(3) [OF v(1)] by simp
qed

lemma tbl_modify_all:
  assumes "tbl_modify key i f t = Inr t'" "tbl_all P t" "\<And>v v'. P v \<Longrightarrow> f v = Inr v' \<Longrightarrow> P v'"
  shows "tbl_all P t'"
proof -
  obtain v v' where E: "map_of (rows t) i = Some v" "f v = Inr v'" "rows t' = map_assign i v' (rows t)"
    using assms(1) by (rule tbl_modify_elim)
  have "P v" using E(1) assms(2) by (auto simp: tbl_all_def dest!: map_of_SomeD)
  then have "P v'" using assms(3) E(2) by blast
  then show ?thesis using assms(2) E(3) by (auto simp: tbl_all_def dest!: set_assign)
qed

lemma tbl_create_elim:
  assumes "tbl_create key v t = Inr (i, t')"
  shows "i = next_row_id t" "rows t' = insort_key fst (i, v) (rows t)" "next_row_id t' = next_row_id t + 1"
    and "i \<notin> fst ` set (rows t)"
  using assms by (auto simp: tbl_create_def split: if_splits)

lemma tbl_create_ok: "tbl_create key v t = Inr (i, t') \<Longrightarrow> table_ok t \<Longrightarrow> table_ok t'"
  using tbl_create_elim [of key v t i t']
  by (auto simp: table_ok_def distinct_insort_key set_insort_key)

lemma tbl_create_sum: "tbl_create key v t = Inr (i, t') \<Longrightarrow> tbl_sum h t' = tbl_sum h t + h v"
  using tbl_create_elim [of key v t i t'] by (simp add: tbl_sum_def sum_insort)

lemma tbl_create_all: "tbl_create key v t = Inr (i, t') \<Longrightarrow> tbl_all P t \<Longrightarrow> P v \<Longrightarrow> tbl_all P t'"
  using tbl_create_elim [of key v t i t'] by (auto simp: tbl_all_def set_insort_key)

lemma tbl_remove_ok: "tbl_remove i t = Inr t' \<Longrightarrow> table_ok t \<Longrightarrow> table_ok t'"
  by (fastforce simp: tbl_remove_def table_ok_def map_erase_def intro: distinct_map_filter split: option.splits)

lemma tbl_remove_all: "tbl_remove i t = Inr t' \<Longrightarrow> tbl_all P t \<Longrightarrow> tbl_all P t'"
  by (auto simp: tbl_remove_def tbl_all_def map_erase_def split: option.splits)

lemma tbl_remove_sum:
  assumes "tbl_remove i t = Inr t'" "table_ok t"
  shows "\<exists>v. map_of (rows t) i = Some v \<and> tbl_sum h t' = tbl_sum h t - h v"
  using assms sum_erase [of "rows t" i _ h]
  by (auto simp: tbl_remove_def table_ok_def tbl_sum_def split: option.splits)

lemma tbl_find_by_Some:
  "tbl_find_by P t = Some (i, v) \<Longrightarrow> table_ok t \<Longrightarrow> P v \<and> map_of (rows t) i = Some v"
  by (auto simp: tbl_find_by_def find_Some_iff table_ok_def intro!: map_of_is_SomeI) (metis snd_conv)

lemma tbl_get_by_Inr:
  "tbl_get_by P t = Inr (i, v) \<longleftrightarrow> tbl_find_by P t = Some (i, v)"
  by (auto simp: tbl_get_by_def split: option.splits)

lemma tbl_allD: "tbl_all P t \<Longrightarrow> map_of (rows t) i = Some v \<Longrightarrow> P v"
  by (auto simp: tbl_all_def dest!: map_of_SomeD)

lemma tbl_sum_member:
  assumes "tbl_all (\<lambda>v. 0 \<le> h v) t" "map_of (rows t) i = Some v"
  shows "h v \<le> tbl_sum h t"
  using sum_list_nonneg_member [of "rows t" "\<lambda>p. h (snd p)" "(i, v)"] assms map_of_SomeD [OF assms(2)]
  by (auto simp: tbl_all_def tbl_sum_def)

section \<open>Tables related row by row\<close>

text \<open>\<open>rows_rel R t t'\<close>: the same ids in the same order, with values related by \<open>R\<close>.\<close>

definition rows_rel :: "('a \<Rightarrow> 'a \<Rightarrow> bool) \<Rightarrow> 'a table \<Rightarrow> 'a table \<Rightarrow> bool" where
  "rows_rel R t t' \<longleftrightarrow> list_all2 (\<lambda>p q. fst p = fst q \<and> R (snd p) (snd q)) (rows t) (rows t')"

lemma rows_rel_refl: "(\<And>a. R a a) \<Longrightarrow> rows_rel R t t"
  by (simp add: rows_rel_def list_all2_same)

lemma rows_rel_trans:
  assumes "rows_rel R t u" "rows_rel R u w" "\<And>a b c. R a b \<Longrightarrow> R b c \<Longrightarrow> R a c"
  shows "rows_rel R t w"
  unfolding rows_rel_def
  by (rule list_all2_trans [OF _ assms(1,2) [unfolded rows_rel_def]]) (auto intro: assms(3))

lemma assign_rel:
  assumes "R v v'" "\<And>a. R a a" "distinct (map fst m)" "map_of m i = Some v"
  shows "list_all2 (\<lambda>p q. fst p = fst q \<and> R (snd p) (snd q)) m (map_assign i v' m)"
proof -
  have "fst p = fst (if fst p = i then (i, v') else p) \<and> R (snd p) (snd (if fst p = i then (i, v') else p))" if "p \<in> set m" for p
  proof (cases "fst p = i")
    case True
    then have "(i, snd p) \<in> set m" using that by (metis prod.collapse)
    then have "snd p = v" using map_of_is_SomeI [OF assms(3)] assms(4) by fastforce
    then show ?thesis using True assms(1) by simp
  next
    case False
    then show ?thesis using assms(2) by simp
  qed
  then show ?thesis by (simp add: map_assign_def list_all2_map2 list.rel_refl_strong)
qed

lemma tbl_modify_rel:
  assumes "tbl_modify key i f t = Inr t'" "table_ok t" "\<And>a. R a a" "\<And>a a'. f a = Inr a' \<Longrightarrow> R a a'"
  shows "rows_rel R t t'"
proof -
  obtain v v' where E: "map_of (rows t) i = Some v" "f v = Inr v'" "rows t' = map_assign i v' (rows t)"
    using assms(1) by (rule tbl_modify_elim)
  show ?thesis using assign_rel [of R v v' "rows t" i] assms(2,3) assms(4) [OF E(2)] E(1,3)
    by (simp add: rows_rel_def table_ok_def)
qed

lemma rows_rel_lookup:
  assumes "rows_rel R t t'" "map_of (rows t) i = Some a"
  shows "\<exists>a'. map_of (rows t') i = Some a' \<and> R a a'"
proof -
  have "\<exists>a'. map_of ys i = Some a' \<and> R a a'"
    if "list_all2 (\<lambda>p q. fst p = fst q \<and> R (snd p) (snd q)) xs ys" "map_of xs i = Some a" for xs ys
    using that by (induction rule: list_all2_induct) (auto split: if_splits)
  then show ?thesis using assms by (simp add: rows_rel_def)
qed

lemma rows_rel_all:
  assumes "rows_rel R t t'" "tbl_all P t" "\<And>a a'. P a \<Longrightarrow> R a a' \<Longrightarrow> P a'"
  shows "tbl_all P t'"
proof -
  have "\<forall>q\<in>set ys. P (snd q)"
    if "list_all2 (\<lambda>p q. fst p = fst q \<and> R (snd p) (snd q)) xs ys" "\<forall>p\<in>set xs. P (snd p)" for xs ys
    using that by (induction rule: list_all2_induct) (auto intro: assms(3))
  then show ?thesis using assms(1,2) by (simp add: rows_rel_def tbl_all_def)
qed

lemma rows_rel_map:
  assumes "rows_rel R t t'" "\<And>a a'. R a a' \<Longrightarrow> h a' = h a"
  shows "map (\<lambda>p. (fst p, h (snd p))) (rows t') = map (\<lambda>p. (fst p, h (snd p))) (rows t)"
proof -
  have "map (\<lambda>p. (fst p, h (snd p))) ys = map (\<lambda>p. (fst p, h (snd p))) xs"
    if "list_all2 (\<lambda>p q. fst p = fst q \<and> R (snd p) (snd q)) xs ys" for xs ys
    using that by (induction rule: list_all2_induct) (auto simp: assms(2))
  then show ?thesis using assms(1) by (simp add: rows_rel_def)
qed

end
