(* ===== verification/Database.thy ===== *)
theory Database
  imports Table Transaction Reward
begin

text \<open>
  The chain database: the objects of \<open>libraries/chain/include/wls/chain/*_object.hpp\<close>,
  \<open>witness_objects.hpp\<close>, \<open>wls_objects.hpp\<close>, the tables that hold them, and the lookup functions of
  \<open>database.cpp\<close>.

  Each class becomes a record with the fields of the class (the id is the key of its row), each
  \<open>default_\<close> constant holds the member initialisers, and each \<open>key_\<close> function returns the unique
  secondary key of its container.  A container that always holds exactly one object (global
  properties, witness schedule, hardfork properties) is that object.  \<open>db_vops\<close> is the sequence of
  virtual operations pushed to the observers.
\<close>

section \<open>Objects\<close>

record account_object =
  acc_name :: account_name_type
  acc_memo_key :: public_key_type
  acc_json_metadata :: string
  acc_proxy :: account_name_type
  acc_last_account_update :: time_point_sec
  acc_created :: time_point_sec
  acc_recovery_account :: account_name_type
  acc_comment_count :: u32
  acc_lifetime_vote_count :: u32
  acc_post_count :: u32
  acc_voting_power :: u16
  acc_last_vote_time :: time_point_sec
  acc_balance :: asset
  acc_reward_steem_balance :: asset
  acc_reward_vesting_balance :: asset
  acc_reward_vesting_steem :: asset
  acc_curation_rewards :: int
  acc_posting_rewards :: int
  acc_vesting_shares :: asset
  acc_vesting_withdraw_rate :: asset
  acc_next_vesting_withdrawal :: time_point_sec
  acc_withdrawn :: int
  acc_to_withdraw :: int
  acc_withdraw_routes :: u16
  acc_proxied_vsf_votes :: "int list"
  acc_witnesses_voted_for :: u16
  acc_last_post :: time_point_sec
  acc_last_root_post :: time_point_sec
  acc_post_bandwidth :: u32
  acc_asb_for_sale :: bool
  acc_asb_to :: account_name_type
  acc_asb_price :: asset

definition default_account :: account_object where
  "default_account = \<lparr>acc_name = [], acc_memo_key = 0, acc_json_metadata = [], acc_proxy = [],
     acc_last_account_update = 0, acc_created = 0, acc_recovery_account = [], acc_comment_count = 0,
     acc_lifetime_vote_count = 0, acc_post_count = 0, acc_voting_power = WLS_100_PERCENT,
     acc_last_vote_time = 0, acc_balance = WLS 0, acc_reward_steem_balance = WLS 0,
     acc_reward_vesting_balance = VESTS 0, acc_reward_vesting_steem = WLS 0, acc_curation_rewards = 0,
     acc_posting_rewards = 0, acc_vesting_shares = VESTS 0, acc_vesting_withdraw_rate = VESTS 0,
     acc_next_vesting_withdrawal = time_maximum, acc_withdrawn = 0, acc_to_withdraw = 0,
     acc_withdraw_routes = 0, acc_proxied_vsf_votes = [0, 0, 0, 0], acc_witnesses_voted_for = 0,
     acc_last_post = 0, acc_last_root_post = time_min, acc_post_bandwidth = 0, acc_asb_for_sale = False,
     acc_asb_to = [], acc_asb_price = WLS 0\<rparr>"

record account_authority_object =
  aut_account :: account_name_type
  aut_owner :: authority
  aut_active :: authority
  aut_posting :: authority
  aut_last_owner_update :: time_point_sec

definition default_authority :: authority where
  "default_authority = \<lparr>weight_threshold = 0, account_auths = [], key_auths = []\<rparr>"

datatype witness_schedule_type = top19 | timeshare | miner | none

record witness_object =
  wit_owner :: account_name_type
  wit_created :: time_point_sec
  wit_url :: string
  wit_total_missed :: u32
  wit_last_aslot :: u64
  wit_last_confirmed_block_num :: u64
  wit_signing_key :: public_key_type
  wit_props :: chain_properties
  wit_votes :: int
  wit_schedule :: witness_schedule_type
  wit_virtual_last_update :: u128
  wit_virtual_position :: u128
  wit_virtual_scheduled_time :: u128
  wit_last_work :: digest_type
  wit_running_version :: version
  wit_hardfork_version_vote :: hardfork_version
  wit_hardfork_time_vote :: time_point_sec

definition default_chain_properties :: chain_properties where
  "default_chain_properties = \<lparr>cp_account_creation_fee = WLS WLS_MIN_ACCOUNT_CREATION_FEE,
     cp_maximum_block_size = WLS_MIN_BLOCK_SIZE_LIMIT * 2\<rparr>"

definition default_witness :: witness_object where
  "default_witness = \<lparr>wit_owner = [], wit_created = 0, wit_url = [], wit_total_missed = 0,
     wit_last_aslot = 0, wit_last_confirmed_block_num = 0, wit_signing_key = 0,
     wit_props = default_chain_properties, wit_votes = 0, wit_schedule = none,
     wit_virtual_last_update = 0, wit_virtual_position = 0, wit_virtual_scheduled_time = - 1,
     wit_last_work = replicate 8 0, wit_running_version = 0, wit_hardfork_version_vote = 0,
     wit_hardfork_time_vote = WLS_GENESIS_TIME\<rparr>"

record witness_vote_object =
  wvo_witness :: int
  wvo_voter :: int

record witness_schedule_object =
  wso_current_virtual_time :: u128
  wso_next_shuffle_block_num :: u32
  wso_current_shuffled_witnesses :: "account_name_type list"
  wso_num_scheduled_witnesses :: u8
  wso_top19_weight :: u8
  wso_timeshare_weight :: u8
  wso_witness_pay_normalization_factor :: u32
  wso_median_props :: chain_properties
  wso_majority_version :: version
  wso_max_voted_witnesses :: u8
  wso_max_runner_witnesses :: u8
  wso_hardfork_required_witnesses :: u8

definition default_witness_schedule :: witness_schedule_object where
  "default_witness_schedule = \<lparr>wso_current_virtual_time = 0, wso_next_shuffle_block_num = 1,
     wso_current_shuffled_witnesses = replicate WLS_MAX_WITNESSES [], wso_num_scheduled_witnesses = 1,
     wso_top19_weight = 1, wso_timeshare_weight = 5, wso_witness_pay_normalization_factor = 25,
     wso_median_props = default_chain_properties, wso_majority_version = 0,
     wso_max_voted_witnesses = WLS_MAX_VOTED_WITNESSES, wso_max_runner_witnesses = WLS_MAX_RUNNER_WITNESSES,
     wso_hardfork_required_witnesses = WLS_HARDFORK_REQUIRED_WITNESSES\<rparr>"

record dynamic_global_property_object =
  gpo_head_block_number :: u32
  gpo_head_block_id :: block_id_type
  gpo_time :: time_point_sec
  gpo_current_witness :: account_name_type
  gpo_current_supply :: asset
  gpo_total_vesting_fund_steem :: asset
  gpo_total_vesting_shares :: asset
  gpo_total_reward_fund_steem :: asset
  gpo_total_reward_shares2 :: u128
  gpo_pending_rewarded_vesting_shares :: asset
  gpo_pending_rewarded_vesting_steem :: asset
  gpo_maximum_block_size :: u32
  gpo_current_aslot :: u64
  gpo_recent_slots_filled :: u128
  gpo_participation_count :: u8
  gpo_last_irreversible_block_num :: u32
  gpo_vote_power_reserve_rate :: u32

definition default_gpo :: dynamic_global_property_object where
  "default_gpo = \<lparr>gpo_head_block_number = 0, gpo_head_block_id = null_id, gpo_time = 0,
     gpo_current_witness = [], gpo_current_supply = WLS 0, gpo_total_vesting_fund_steem = WLS 0,
     gpo_total_vesting_shares = VESTS 0, gpo_total_reward_fund_steem = WLS 0,
     gpo_total_reward_shares2 = 0, gpo_pending_rewarded_vesting_shares = VESTS 0,
     gpo_pending_rewarded_vesting_steem = WLS 0, gpo_maximum_block_size = 0, gpo_current_aslot = 0,
     gpo_recent_slots_filled = 0, gpo_participation_count = 0, gpo_last_irreversible_block_num = 0,
     gpo_vote_power_reserve_rate = 40\<rparr>"

record comment_object =
  com_category :: string
  com_parent_author :: account_name_type
  com_parent_permlink :: string
  com_author :: account_name_type
  com_permlink :: string
  com_title :: string
  com_body :: string
  com_json_metadata :: string
  com_last_update :: time_point_sec
  com_created :: time_point_sec
  com_active :: time_point_sec
  com_last_payout :: time_point_sec
  com_depth :: u16
  com_children :: u32
  com_net_rshares :: int
  com_abs_rshares :: int
  com_vote_rshares :: int
  com_children_abs_rshares :: int
  com_cashout_time :: time_point_sec
  com_max_cashout_time :: time_point_sec
  com_total_vote_weight :: u64
  com_reward_weight :: u16
  com_total_payout_value :: asset
  com_curator_payout_value :: asset
  com_beneficiary_payout_value :: asset
  com_author_rewards :: int
  com_net_votes :: u32
  com_root_comment :: int
  com_max_accepted_payout :: asset
  com_allow_replies :: bool
  com_allow_votes :: bool
  com_allow_curation_rewards :: bool
  com_beneficiaries :: "beneficiary_route_type list"

definition default_comment :: comment_object where
  "default_comment = \<lparr>com_category = [], com_parent_author = [], com_parent_permlink = [],
     com_author = [], com_permlink = [], com_title = [], com_body = [], com_json_metadata = [],
     com_last_update = 0, com_created = 0, com_active = 0, com_last_payout = 0, com_depth = 0,
     com_children = 0, com_net_rshares = 0, com_abs_rshares = 0, com_vote_rshares = 0,
     com_children_abs_rshares = 0, com_cashout_time = 0, com_max_cashout_time = 0,
     com_total_vote_weight = 0, com_reward_weight = 0, com_total_payout_value = WLS 0,
     com_curator_payout_value = WLS 0, com_beneficiary_payout_value = WLS 0, com_author_rewards = 0,
     com_net_votes = 0, com_root_comment = 0, com_max_accepted_payout = WLS 1000000000,
     com_allow_replies = True, com_allow_votes = True, com_allow_curation_rewards = True,
     com_beneficiaries = []\<rparr>"

record comment_vote_object =
  cvo_voter :: int
  cvo_comment :: int
  cvo_weight :: u64
  cvo_rshares :: int
  cvo_vote_percent :: u16
  cvo_last_update :: time_point_sec
  cvo_num_changes :: u8

record withdraw_vesting_route_object =
  wro_from_account :: int
  wro_to_account :: int
  wro_percent :: u16
  wro_auto_vest :: bool

record reward_fund_object =
  rfo_name :: string
  rfo_reward_balance :: asset
  rfo_recent_claims :: u128
  rfo_last_update :: time_point_sec
  rfo_content_constant :: u128
  rfo_percent_curation_rewards :: u16
  rfo_percent_content_rewards :: u16
  rfo_author_reward_curve :: curve_id
  rfo_curation_reward_curve :: curve_id

definition default_reward_fund :: reward_fund_object where
  "default_reward_fund = \<lparr>rfo_name = [], rfo_reward_balance = WLS 0, rfo_recent_claims = 0,
     rfo_last_update = 0, rfo_content_constant = 0, rfo_percent_curation_rewards = 0,
     rfo_percent_content_rewards = 0, rfo_author_reward_curve = linear,
     rfo_curation_reward_curve = square_root\<rparr>"

record block_summary_object =
  bso_block_id :: block_id_type

record transaction_object =
  txo_packed_trx :: signed_transaction
  txo_trx_id :: transaction_id_type
  txo_expiration :: time_point_sec

record hardfork_property_object =
  hpo_processed_hardforks :: "time_point_sec list"
  hpo_last_hardfork :: u32
  hpo_current_hardfork_version :: hardfork_version
  hpo_next_hardfork :: hardfork_version
  hpo_next_hardfork_time :: time_point_sec

definition default_hardfork_property :: hardfork_property_object where
  "default_hardfork_property = \<lparr>hpo_processed_hardforks = [], hpo_last_hardfork = 0,
     hpo_current_hardfork_version = 0, hpo_next_hardfork = 0, hpo_next_hardfork_time = 0\<rparr>"

section \<open>Tables\<close>

record database =
  accounts :: "account_object table"
  authorities :: "account_authority_object table"
  witnesses :: "witness_object table"
  witness_votes :: "witness_vote_object table"
  comments :: "comment_object table"
  comment_votes :: "comment_vote_object table"
  withdraw_routes :: "withdraw_vesting_route_object table"
  reward_funds :: "reward_fund_object table"
  block_summaries :: "block_summary_object table"
  transaction_table :: "transaction_object table"
  gpo :: dynamic_global_property_object
  wso :: witness_schedule_object
  hpo :: hardfork_property_object
  db_vops :: "virtual_operation list"

definition empty_database :: database where
  "empty_database = \<lparr>accounts = empty_table, authorities = empty_table, witnesses = empty_table,
     witness_votes = empty_table, comments = empty_table, comment_votes = empty_table,
     withdraw_routes = empty_table, reward_funds = empty_table, block_summaries = empty_table,
     transaction_table = empty_table, gpo = default_gpo, wso = default_witness_schedule,
     hpo = default_hardfork_property, db_vops = []\<rparr>"

definition key_account :: "account_object \<Rightarrow> string" where
  "key_account = acc_name"

definition key_witness :: "witness_object \<Rightarrow> string" where
  "key_witness = wit_owner"

definition key_witness_vote :: "witness_vote_object \<Rightarrow> int \<times> int" where
  "key_witness_vote v = (wvo_voter v, wvo_witness v)"

definition key_comment :: "comment_object \<Rightarrow> string \<times> string" where
  "key_comment c = (com_author c, com_permlink c)"

definition key_comment_vote :: "comment_vote_object \<Rightarrow> int \<times> int" where
  "key_comment_vote v = (cvo_comment v, cvo_voter v)"

definition key_route :: "withdraw_vesting_route_object \<Rightarrow> int \<times> int" where
  "key_route r = (wro_from_account r, wro_to_account r)"

definition key_reward_fund :: "reward_fund_object \<Rightarrow> string" where
  "key_reward_fund = rfo_name"

definition key_transaction :: "transaction_object \<Rightarrow> transaction_id_type" where
  "key_transaction = txo_trx_id"

section \<open>Modification of objects\<close>

definition modify_account :: "int \<Rightarrow> (account_object \<Rightarrow> account_object result) \<Rightarrow> database \<Rightarrow> database result" where
  "modify_account i f d = ebind (tbl_modify key_account i f (accounts d)) (\<lambda>t. Inr (d\<lparr>accounts := t\<rparr>))"

definition modify_witness :: "int \<Rightarrow> (witness_object \<Rightarrow> witness_object result) \<Rightarrow> database \<Rightarrow> database result" where
  "modify_witness i f d = ebind (tbl_modify key_witness i f (witnesses d)) (\<lambda>t. Inr (d\<lparr>witnesses := t\<rparr>))"

definition modify_comment :: "int \<Rightarrow> (comment_object \<Rightarrow> comment_object result) \<Rightarrow> database \<Rightarrow> database result" where
  "modify_comment i f d = ebind (tbl_modify key_comment i f (comments d)) (\<lambda>t. Inr (d\<lparr>comments := t\<rparr>))"

definition modify_comment_vote :: "int \<Rightarrow> (comment_vote_object \<Rightarrow> comment_vote_object result) \<Rightarrow> database \<Rightarrow> database result" where
  "modify_comment_vote i f d =
     ebind (tbl_modify key_comment_vote i f (comment_votes d)) (\<lambda>t. Inr (d\<lparr>comment_votes := t\<rparr>))"

definition modify_reward_fund :: "int \<Rightarrow> (reward_fund_object \<Rightarrow> reward_fund_object result) \<Rightarrow> database \<Rightarrow> database result" where
  "modify_reward_fund i f d =
     ebind (tbl_modify key_reward_fund i f (reward_funds d)) (\<lambda>t. Inr (d\<lparr>reward_funds := t\<rparr>))"

definition modify_gpo ::
  "(dynamic_global_property_object \<Rightarrow> dynamic_global_property_object result) \<Rightarrow> database \<Rightarrow> database result" where
  "modify_gpo f d = ebind (f (gpo d)) (\<lambda>p. Inr (d\<lparr>gpo := p\<rparr>))"

section \<open>Lookups\<close>

definition get_witness :: "account_name_type \<Rightarrow> database \<Rightarrow> (int \<times> witness_object) result" where
  "get_witness name d = tbl_get_by (\<lambda>w. wit_owner w = name) (witnesses d)"

definition find_witness :: "account_name_type \<Rightarrow> database \<Rightarrow> (int \<times> witness_object) option" where
  "find_witness name d = tbl_find_by (\<lambda>w. wit_owner w = name) (witnesses d)"

definition get_account :: "account_name_type \<Rightarrow> database \<Rightarrow> (int \<times> account_object) result" where
  "get_account name d = tbl_get_by (\<lambda>a. acc_name a = name) (accounts d)"

definition find_account :: "account_name_type \<Rightarrow> database \<Rightarrow> (int \<times> account_object) option" where
  "find_account name d = tbl_find_by (\<lambda>a. acc_name a = name) (accounts d)"

definition get_comment :: "account_name_type \<Rightarrow> string \<Rightarrow> database \<Rightarrow> (int \<times> comment_object) result" where
  "get_comment author permlink d =
     tbl_get_by (\<lambda>c. com_author c = author \<and> com_permlink c = permlink) (comments d)"

definition find_comment :: "account_name_type \<Rightarrow> string \<Rightarrow> database \<Rightarrow> (int \<times> comment_object) option" where
  "find_comment author permlink d =
     tbl_find_by (\<lambda>c. com_author c = author \<and> com_permlink c = permlink) (comments d)"

definition get_authority :: "account_name_type \<Rightarrow> database \<Rightarrow> (int \<times> account_authority_object) result" where
  "get_authority name d = tbl_get_by (\<lambda>a. aut_account a = name) (authorities d)"

definition calculate_discussion_payout_time :: "comment_object \<Rightarrow> time_point_sec" where
  "calculate_discussion_payout_time c = com_cashout_time c"

definition get_reward_fund :: "database \<Rightarrow> (int \<times> reward_fund_object) result" where
  "get_reward_fund d = tbl_get_by (\<lambda>r. rfo_name r = ''post'') (reward_funds d)"

definition head_block_num :: "database \<Rightarrow> u32" where
  "head_block_num d = gpo_head_block_number (gpo d)"

definition head_block_time :: "database \<Rightarrow> time_point_sec" where
  "head_block_time d = gpo_time (gpo d)"

definition head_block_id :: "database \<Rightarrow> block_id_type" where
  "head_block_id d = gpo_head_block_id (gpo d)"

definition push_virtual_operation :: "virtual_operation \<Rightarrow> database \<Rightarrow> database" where
  "push_virtual_operation v d = d\<lparr>db_vops := db_vops d @ [v]\<rparr>"

definition witness_participation_rate :: "database \<Rightarrow> u32" where
  "witness_participation_rate d =
     of_nat (10000 * length (filter (\<lambda>n. bit (gpo_recent_slots_filled (gpo d)) n) [0..<128]) div 128)"

section \<open>A concrete database\<close>

text \<open>A small database on which the properties are instantiated.\<close>

definition sample_accounts :: "account_object table" where
  "sample_accounts = \<lparr>rows = [
     (0, default_account\<lparr>acc_name := ''null''\<rparr>),
     (1, default_account\<lparr>acc_name := ''alice'', acc_balance := WLS 1000, acc_vesting_shares := VESTS 130000,
        acc_vesting_withdraw_rate := VESTS 10000, acc_to_withdraw := 130000, acc_next_vesting_withdrawal := 50\<rparr>),
     (2, default_account\<lparr>acc_name := ''bob'', acc_balance := WLS 500, acc_reward_steem_balance := WLS 7,
        acc_reward_vesting_balance := VESTS 50, acc_reward_vesting_steem := WLS 5\<rparr>),
     (3, default_account\<lparr>acc_name := ''devfund''\<rparr>),
     (4, default_account\<lparr>acc_name := ''wls'', acc_balance := WLS 2000, acc_vesting_shares := VESTS 70000\<rparr>)],
     next_row_id = 5\<rparr>"

definition sample_db :: database where
  "sample_db = empty_database\<lparr>accounts := sample_accounts,
     witnesses := \<lparr>rows = [(0, default_witness\<lparr>wit_owner := ''wls'', wit_schedule := top19\<rparr>)], next_row_id = 1\<rparr>,
     withdraw_routes := \<lparr>rows = [(0, \<lparr>wro_from_account = 1, wro_to_account = 2, wro_percent = 5000, wro_auto_vest = True\<rparr>),
        (1, \<lparr>wro_from_account = 1, wro_to_account = 4, wro_percent = 2000, wro_auto_vest = False\<rparr>)], next_row_id = 2\<rparr>,
     reward_funds := \<lparr>rows = [(0, default_reward_fund\<lparr>rfo_name := ''post'', rfo_reward_balance := WLS 10000,
        rfo_percent_content_rewards := 10000, rfo_percent_curation_rewards := 2500\<rparr>)], next_row_id = 1\<rparr>,
     gpo := default_gpo\<lparr>gpo_time := 100, gpo_head_block_number := 20, gpo_current_witness := ''wls'',
        gpo_current_supply := WLS 33512, gpo_total_vesting_fund_steem := WLS 20000, gpo_total_vesting_shares := VESTS 200000,
        gpo_pending_rewarded_vesting_shares := VESTS 50, gpo_pending_rewarded_vesting_steem := WLS 5\<rparr>\<rparr>"

end
