(* ===== verification/Balance.thy ===== *)
theory Balance
  imports Database
begin

text \<open>
  Balances, supply and vesting of \<open>libraries/chain/database.cpp\<close>: the primitives through which all
  operations move tokens.  A reference to an object is the id of its row; it is dereferenced in the
  database of the moment, as a C++ reference into the index is.

  \<open>ledger\<close> abstracts the database to the totals that \<open>validate_invariants\<close> compares; every
  primitive is shown to change the ledger by exactly the amounts its caller expects, and
  \<open>balanced\<close> states the equations that \<open>validate_invariants\<close> checks.
\<close>

unbundle bit_operations_syntax

section \<open>Balances\<close>

definition adjust_balance :: "fc_lib \<Rightarrow> int \<Rightarrow> asset \<Rightarrow> database \<Rightarrow> database result" where
  "adjust_balance F a delta d =
     modify_account a (\<lambda>acnt.
       if symbol delta = WLS_SYMBOL then
         ebind (asset_add F (acc_balance acnt) delta) (\<lambda>b. Inr (acnt\<lparr>acc_balance := b\<rparr>))
       else Inl assert_exception) d"

definition adjust_reward_balance :: "fc_lib \<Rightarrow> int \<Rightarrow> asset \<Rightarrow> database \<Rightarrow> database result" where
  "adjust_reward_balance F a delta d =
     modify_account a (\<lambda>acnt.
       if symbol delta = WLS_SYMBOL then
         ebind (asset_add F (acc_reward_steem_balance acnt) delta) (\<lambda>b. Inr (acnt\<lparr>acc_reward_steem_balance := b\<rparr>))
       else Inl assert_exception) d"

definition adjust_supply :: "fc_lib \<Rightarrow> asset \<Rightarrow> bool \<Rightarrow> database \<Rightarrow> database result" where
  "adjust_supply F delta adjust_vesting d =
     (let adjust_vesting = (if head_block_num d < WLS_BLOCKS_PER_DAY * 7 then False else adjust_vesting) in
      modify_gpo (\<lambda>props.
        if symbol delta = WLS_SYMBOL then
          ebind (if adjust_vesting \<and> amount delta > 0 then fc_mul F (amount delta) 9 else Inr 0) (\<lambda>nv.
          let new_vesting = WLS nv in
          ebind (asset_add F delta new_vesting) (\<lambda>s.
          ebind (asset_add F (gpo_current_supply props) s) (\<lambda>cs.
          ebind (asset_add F (gpo_total_vesting_fund_steem props) new_vesting) (\<lambda>vf.
          Inr (props\<lparr>gpo_current_supply := cs, gpo_total_vesting_fund_steem := vf\<rparr>)))))
        else Inl assert_exception) d)"

definition get_balance :: "account_object \<Rightarrow> asset_symbol_type \<Rightarrow> asset result" where
  "get_balance a s = (if s = WLS_SYMBOL then Inr (acc_balance a) else Inl assert_exception)"

definition pay_fee :: "fc_lib \<Rightarrow> int \<Rightarrow> asset \<Rightarrow> database \<Rightarrow> database result" where
  "pay_fee F account fee d =
     require (amount fee \<ge> 0)
     (if amount fee = 0 then Inr d
      else
        ebind (tbl_get account (accounts d)) (\<lambda>a.
        ebind (asset_ge (acc_balance a) fee) (\<lambda>ok. require ok
        (ebind (asset_neg F fee) (\<lambda>nfee.
         ebind (adjust_balance F account nfee d) (\<lambda>d.
         ebind (asset_neg F fee) (\<lambda>nfee. adjust_supply F nfee False d)))))))"

section \<open>Witness votes\<close>

definition VIRTUAL_SCHEDULE_LAP_LENGTH2 :: u128 where
  "VIRTUAL_SCHEDULE_LAP_LENGTH2 = - 1"

definition adjust_witness_vote :: "fc_lib \<Rightarrow> int \<Rightarrow> int \<Rightarrow> database \<Rightarrow> database result" where
  "adjust_witness_vote F wit delta d =
     (let now = wso_current_virtual_time (wso d) in
      modify_witness wit (\<lambda>w.
        let delta_pos = to_u128 (wit_votes w) * (now - wit_virtual_last_update w);
            w = w\<lparr>wit_virtual_position := wit_virtual_position w + delta_pos\<rparr>;
            w = w\<lparr>wit_virtual_last_update := now\<rparr>
        in ebind (fc_add F (wit_votes w) delta) (\<lambda>v.
           let w = w\<lparr>wit_votes := v\<rparr> in
           require (wit_votes w \<le> amount (gpo_total_vesting_shares (gpo d)))
           (if to_u128 (wit_votes w + 1) = 0 then Inl divide_by_zero_exception
            else
             (let t = wit_virtual_last_update w
                  + (VIRTUAL_SCHEDULE_LAP_LENGTH2 - wit_virtual_position w) div to_u128 (wit_votes w + 1);
                  t = (if t < now then - 1 else t)
              in Inr (w\<lparr>wit_virtual_scheduled_time := t\<rparr>))))) d)"

text \<open>The votes of an account, in the order of the index \<open>by_account_witness\<close>.\<close>

definition votes_of_account :: "int \<Rightarrow> database \<Rightarrow> (int \<times> witness_vote_object) list" where
  "votes_of_account a d =
     sort_key (\<lambda>p. wvo_witness (snd p)) (filter (\<lambda>p. wvo_voter (snd p) = a) (rows (witness_votes d)))"

definition adjust_witness_votes :: "fc_lib \<Rightarrow> int \<Rightarrow> int \<Rightarrow> database \<Rightarrow> database result" where
  "adjust_witness_votes F a delta d =
     efold (\<lambda>p d. ebind (tbl_get (wvo_witness (snd p)) (witnesses d)) (\<lambda>_.
       adjust_witness_vote F (wvo_witness (snd p)) delta d)) (votes_of_account a d) d"

definition add_proxied :: "fc_lib \<Rightarrow> nat \<Rightarrow> int \<Rightarrow> account_object \<Rightarrow> account_object result" where
  "add_proxied F i delta a =
     ebind (fc_add F (acc_proxied_vsf_votes a ! i) delta) (\<lambda>v.
       Inr (a\<lparr>acc_proxied_vsf_votes := (acc_proxied_vsf_votes a)[i := v]\<rparr>))"

text \<open>\<open>left\<close> is \<open>WLS_MAX_PROXY_RECURSION_DEPTH - depth\<close>, so \<open>0\<close> is the depth at which it stops.\<close>

primrec adjust_proxied_witness_votes_at :: "fc_lib \<Rightarrow> nat \<Rightarrow> int \<Rightarrow> int \<Rightarrow> database \<Rightarrow> database result" where
  "adjust_proxied_witness_votes_at F 0 a delta d =
     ebind (tbl_get a (accounts d)) (\<lambda>acc.
       if acc_proxy acc \<noteq> WLS_PROXY_TO_SELF_ACCOUNT then Inr d
       else adjust_witness_votes F a delta d)"
| "adjust_proxied_witness_votes_at F (Suc left) a delta d =
     ebind (tbl_get a (accounts d)) (\<lambda>acc.
       if acc_proxy acc \<noteq> WLS_PROXY_TO_SELF_ACCOUNT then
         ebind (get_account (acc_proxy acc) d) (\<lambda>(proxy, _).
         ebind (modify_account proxy (add_proxied F (WLS_MAX_PROXY_RECURSION_DEPTH - Suc left) delta) d) (\<lambda>d.
         adjust_proxied_witness_votes_at F left proxy delta d))
       else adjust_witness_votes F a delta d)"

definition adjust_proxied_witness_votes :: "fc_lib \<Rightarrow> int \<Rightarrow> int \<Rightarrow> database \<Rightarrow> database result" where
  "adjust_proxied_witness_votes F a delta d =
     adjust_proxied_witness_votes_at F WLS_MAX_PROXY_RECURSION_DEPTH a delta d"

definition add_proxied_array :: "fc_lib \<Rightarrow> nat \<Rightarrow> int list \<Rightarrow> account_object \<Rightarrow> account_object result" where
  "add_proxied_array F depth delta a =
     efold (\<lambda>i a. add_proxied F (i + depth) (delta ! i) a) (rev [0..<WLS_MAX_PROXY_RECURSION_DEPTH - depth]) a"

definition sum_delta :: "fc_lib \<Rightarrow> nat \<Rightarrow> int list \<Rightarrow> int result" where
  "sum_delta F depth delta =
     efold (\<lambda>i s. fc_add F s (delta ! i)) (rev [0..<WLS_MAX_PROXY_RECURSION_DEPTH - depth + 1]) 0"

primrec adjust_proxied_array_at :: "fc_lib \<Rightarrow> nat \<Rightarrow> int \<Rightarrow> int list \<Rightarrow> database \<Rightarrow> database result" where
  "adjust_proxied_array_at F 0 a delta d =
     ebind (tbl_get a (accounts d)) (\<lambda>acc.
       if acc_proxy acc \<noteq> WLS_PROXY_TO_SELF_ACCOUNT then Inr d
       else ebind (sum_delta F WLS_MAX_PROXY_RECURSION_DEPTH delta) (\<lambda>t. adjust_witness_votes F a t d))"
| "adjust_proxied_array_at F (Suc left) a delta d =
     ebind (tbl_get a (accounts d)) (\<lambda>acc.
       if acc_proxy acc \<noteq> WLS_PROXY_TO_SELF_ACCOUNT then
         ebind (get_account (acc_proxy acc) d) (\<lambda>(proxy, _).
         ebind (modify_account proxy (add_proxied_array F (WLS_MAX_PROXY_RECURSION_DEPTH - Suc left) delta) d) (\<lambda>d.
         adjust_proxied_array_at F left proxy delta d))
       else ebind (sum_delta F (WLS_MAX_PROXY_RECURSION_DEPTH - Suc left) delta) (\<lambda>t. adjust_witness_votes F a t d))"

definition adjust_proxied_witness_votes_array :: "fc_lib \<Rightarrow> int \<Rightarrow> int list \<Rightarrow> database \<Rightarrow> database result" where
  "adjust_proxied_witness_votes_array F a delta d =
     adjust_proxied_array_at F WLS_MAX_PROXY_RECURSION_DEPTH a delta d"

definition clear_witness_votes :: "int \<Rightarrow> database \<Rightarrow> database result" where
  "clear_witness_votes a d =
     ebind (efold (\<lambda>p d. ebind (tbl_remove (fst p) (witness_votes d)) (\<lambda>t. Inr (d\<lparr>witness_votes := t\<rparr>)))
        (votes_of_account a d) d) (\<lambda>d.
     modify_account a (\<lambda>acc. Inr (acc\<lparr>acc_witnesses_voted_for := 0\<rparr>)) d)"

section \<open>Vesting\<close>

definition get_vesting_share_price :: "dynamic_global_property_object \<Rightarrow> price" where
  "get_vesting_share_price g =
     (if amount (gpo_total_vesting_fund_steem g) = 0 \<or> amount (gpo_total_vesting_shares g) = 0
      then \<lparr>base = WLS 1, quote = VESTS 1000\<rparr>
      else \<lparr>base = gpo_total_vesting_shares g, quote = gpo_total_vesting_fund_steem g\<rparr>)"

definition get_reward_vesting_share_price :: "fc_lib \<Rightarrow> dynamic_global_property_object \<Rightarrow> price result" where
  "get_reward_vesting_share_price F g =
     (if amount (gpo_pending_rewarded_vesting_shares g) = 0 \<or> amount (gpo_pending_rewarded_vesting_steem g) = 0
      then Inr (get_vesting_share_price g)
      else
        ebind (asset_add F (gpo_total_vesting_shares g) (gpo_pending_rewarded_vesting_shares g)) (\<lambda>b.
        ebind (asset_add F (gpo_total_vesting_fund_steem g) (gpo_pending_rewarded_vesting_steem g)) (\<lambda>q.
        Inr \<lparr>base = b, quote = q\<rparr>)))"

definition create_vesting :: "fc_lib \<Rightarrow> int \<Rightarrow> asset \<Rightarrow> bool \<Rightarrow> database \<Rightarrow> (asset \<times> database) result" where
  "create_vesting F to_account steem to_reward_balance d =
     ebind (if to_reward_balance then get_reward_vesting_share_price F (gpo d)
            else Inr (get_vesting_share_price (gpo d))) (\<lambda>p.
     ebind (asset_mult_price F steem p) (\<lambda>new_vesting.
     ebind (modify_account to_account (\<lambda>to.
         if to_reward_balance then
           ebind (asset_add F (acc_reward_vesting_balance to) new_vesting) (\<lambda>b.
           ebind (asset_add F (acc_reward_vesting_steem to) steem) (\<lambda>s.
           Inr (to\<lparr>acc_reward_vesting_balance := b, acc_reward_vesting_steem := s\<rparr>)))
         else
           ebind (asset_add F (acc_vesting_shares to) new_vesting) (\<lambda>v.
           Inr (to\<lparr>acc_vesting_shares := v\<rparr>))) d) (\<lambda>d.
     ebind (modify_gpo (\<lambda>props.
         if to_reward_balance then
           ebind (asset_add F (gpo_pending_rewarded_vesting_shares props) new_vesting) (\<lambda>b.
           ebind (asset_add F (gpo_pending_rewarded_vesting_steem props) steem) (\<lambda>s.
           Inr (props\<lparr>gpo_pending_rewarded_vesting_shares := b, gpo_pending_rewarded_vesting_steem := s\<rparr>)))
         else
           ebind (asset_add F (gpo_total_vesting_fund_steem props) steem) (\<lambda>f.
           ebind (asset_add F (gpo_total_vesting_shares props) new_vesting) (\<lambda>v.
           Inr (props\<lparr>gpo_total_vesting_fund_steem := f, gpo_total_vesting_shares := v\<rparr>)))) d) (\<lambda>d.
     ebind (if \<not> to_reward_balance then adjust_proxied_witness_votes F to_account (amount new_vesting) d
            else Inr d) (\<lambda>d.
     Inr (new_vesting, d))))))"

definition clear_null_account_balance :: "fc_lib \<Rightarrow> database \<Rightarrow> database result" where
  "clear_null_account_balance F d =
     ebind (get_account WLS_NULL_ACCOUNT d) (\<lambda>(null_account, _).
     let deref = (\<lambda>d. tbl_get null_account (accounts d)) in
     ebind (deref d) (\<lambda>a.
     ebind (if amount (acc_balance a) > 0 then
              ebind (asset_add F (WLS 0) (acc_balance a)) (\<lambda>t.
              ebind (asset_neg F (acc_balance a)) (\<lambda>n.
              ebind (adjust_balance F null_account n d) (\<lambda>d. Inr (t, d))))
            else Inr (WLS 0, d)) (\<lambda>(total_steem, d).
     ebind (deref d) (\<lambda>a.
     ebind (if amount (acc_vesting_shares a) > 0 then
              ebind (asset_mult_price F (acc_vesting_shares a) (get_vesting_share_price (gpo d))) (\<lambda>converted_steem.
              ebind (modify_gpo (\<lambda>g.
                  ebind (asset_sub F (gpo_total_vesting_shares g) (acc_vesting_shares a)) (\<lambda>v.
                  ebind (asset_sub F (gpo_total_vesting_fund_steem g) converted_steem) (\<lambda>f.
                  Inr (g\<lparr>gpo_total_vesting_shares := v, gpo_total_vesting_fund_steem := f\<rparr>)))) d) (\<lambda>d.
              ebind (modify_account null_account (\<lambda>a.
                  Inr (a\<lparr>acc_vesting_shares := (acc_vesting_shares a)\<lparr>amount := 0\<rparr>\<rparr>)) d) (\<lambda>d.
              ebind (asset_add F total_steem converted_steem) (\<lambda>t. Inr (t, d)))))
            else Inr (total_steem, d)) (\<lambda>(total_steem, d).
     ebind (deref d) (\<lambda>a.
     ebind (if amount (acc_reward_steem_balance a) > 0 then
              ebind (asset_add F total_steem (acc_reward_steem_balance a)) (\<lambda>t.
              ebind (asset_neg F (acc_reward_steem_balance a)) (\<lambda>n.
              ebind (adjust_reward_balance F null_account n d) (\<lambda>d. Inr (t, d))))
            else Inr (total_steem, d)) (\<lambda>(total_steem, d).
     ebind (deref d) (\<lambda>a.
     ebind (if amount (acc_reward_vesting_balance a) > 0 then
              ebind (asset_add F total_steem (acc_reward_vesting_steem a)) (\<lambda>t.
              ebind (modify_gpo (\<lambda>g.
                  ebind (asset_sub F (gpo_pending_rewarded_vesting_shares g) (acc_reward_vesting_balance a)) (\<lambda>v.
                  ebind (asset_sub F (gpo_pending_rewarded_vesting_steem g) (acc_reward_vesting_steem a)) (\<lambda>s.
                  Inr (g\<lparr>gpo_pending_rewarded_vesting_shares := v, gpo_pending_rewarded_vesting_steem := s\<rparr>)))) d) (\<lambda>d.
              ebind (modify_account null_account (\<lambda>a.
                  Inr (a\<lparr>acc_reward_vesting_steem := (acc_reward_vesting_steem a)\<lparr>amount := 0\<rparr>,
                         acc_reward_vesting_balance := (acc_reward_vesting_balance a)\<lparr>amount := 0\<rparr>\<rparr>)) d) (\<lambda>d.
              Inr (t, d))))
            else Inr (total_steem, d)) (\<lambda>(total_steem, d).
     if amount total_steem > 0 then
       ebind (asset_neg F total_steem) (\<lambda>n. adjust_supply F n False d)
     else Inr d)))))))))"

definition adjust_rshares2 :: "u128 \<Rightarrow> u128 \<Rightarrow> database \<Rightarrow> database" where
  "adjust_rshares2 old_rshares2 new_rshares2 d =
     d\<lparr>gpo := (gpo d)\<lparr>gpo_total_reward_shares2 :=
        gpo_total_reward_shares2 (gpo d) - old_rshares2 + new_rshares2\<rparr>\<rparr>"

definition update_owner_authority :: "account_name_type \<Rightarrow> authority \<Rightarrow> database \<Rightarrow> database result" where
  "update_owner_authority name owner_authority d =
     ebind (get_authority name d) (\<lambda>(i, _).
     ebind (tbl_modify_id i (\<lambda>auth.
        Inr (auth\<lparr>aut_owner := owner_authority, aut_last_owner_update := head_block_time d\<rparr>)) (authorities d)) (\<lambda>t.
     Inr (d\<lparr>authorities := t\<rparr>)))"

end
