(* ===== verification/Ledger.thy ===== *)
theory Ledger
  imports Balance "HOL-Library.Multiset"
begin

text \<open>
  The supply invariants: \<open>database::validate_invariants\<close> and its meaning.  \<open>ledger\<close> maps a
  database to eleven totals; \<open>balanced\<close> are the four equations between them that
  \<open>validate_invariants\<close> asserts.  The lemmas give, for every primitive of \<open>Balance\<close>, the exact
  change of the ledger, so that an operation preserves the invariants when its changes cancel.
\<close>

section \<open>The check of the source\<close>

definition witness_vote_weight :: "fc_lib \<Rightarrow> account_object \<Rightarrow> int result" where
  "witness_vote_weight F a =
     efold (\<lambda>v s. fc_add F s v) (acc_proxied_vsf_votes a) (amount (acc_vesting_shares a))"

definition proxied_vsf_votes_total :: "fc_lib \<Rightarrow> account_object \<Rightarrow> int result" where
  "proxied_vsf_votes_total F a = efold (\<lambda>v s. fc_add F s v) (acc_proxied_vsf_votes a) 0"

record invariant_totals =
  it_supply :: asset
  it_vesting :: asset
  it_pending_steem :: asset
  it_vsf_votes :: int

definition add_account_totals :: "fc_lib \<Rightarrow> account_object \<Rightarrow> invariant_totals \<Rightarrow> invariant_totals result" where
  "add_account_totals F a t =
     ebind (asset_add F (it_supply t) (acc_balance a)) (\<lambda>s.
     ebind (asset_add F s (acc_reward_steem_balance a)) (\<lambda>s.
     ebind (asset_add F (it_vesting t) (acc_vesting_shares a)) (\<lambda>v.
     ebind (asset_add F v (acc_reward_vesting_balance a)) (\<lambda>v.
     ebind (asset_add F (it_pending_steem t) (acc_reward_vesting_steem a)) (\<lambda>p.
     ebind (if acc_proxy a = WLS_PROXY_TO_SELF_ACCOUNT then witness_vote_weight F a
            else Inr (acc_proxied_vsf_votes a ! (WLS_MAX_PROXY_RECURSION_DEPTH - 1))) (\<lambda>w.
     ebind (fc_add F (it_vsf_votes t) w) (\<lambda>vv.
     Inr \<lparr>it_supply = s, it_vesting = v, it_pending_steem = p, it_vsf_votes = vv\<rparr>)))))))"

definition validate_invariants :: "fc_lib \<Rightarrow> database \<Rightarrow> unit result" where
  "validate_invariants F d =
     (let g = gpo d in
      ebind (efold (\<lambda>p _. require (wit_votes (snd p) \<le> amount (gpo_total_vesting_shares g)) (Inr ()))
          (rows (witnesses d)) ()) (\<lambda>_.
      ebind (efold (\<lambda>p t. add_account_totals F (snd p) t)
          (tbl_sorted (\<lambda>p. acc_name (snd p)) (accounts d))
          \<lparr>it_supply = WLS 0, it_vesting = VESTS 0, it_pending_steem = WLS 0, it_vsf_votes = 0\<rparr>) (\<lambda>t.
      ebind (efold (\<lambda>p (total_rshares2 :: u128).
            if com_net_rshares (snd p) > 0 then
              ebind (evaluate_reward_curve F (to_u128 (com_net_rshares (snd p))) quadratic WLS_CONTENT_CONSTANT)
                (\<lambda>delta. Inr (total_rshares2 + delta))
            else Inr total_rshares2) (rows (comments d)) 0) (\<lambda>_.
      ebind (efold (\<lambda>p s. asset_add F s (rfo_reward_balance (snd p))) (rows (reward_funds d)) (it_supply t)) (\<lambda>s.
      ebind (asset_add F (gpo_total_vesting_fund_steem g) (gpo_total_reward_fund_steem g)) (\<lambda>x.
      ebind (asset_add F x (gpo_pending_rewarded_vesting_steem g)) (\<lambda>x.
      ebind (asset_add F s x) (\<lambda>s.
      require (asset_eq (gpo_current_supply g) s)
      (ebind (asset_add F (gpo_total_vesting_shares g) (gpo_pending_rewarded_vesting_shares g)) (\<lambda>y.
      require (asset_eq y (it_vesting t))
      (require (amount (gpo_total_vesting_shares g) = it_vsf_votes t)
      (require (asset_eq (gpo_pending_rewarded_vesting_steem g) (it_pending_steem t)) (Inr ())))))))))))))"

section \<open>The ledger\<close>

record ledger =
  L_supply :: int
  L_fund :: int
  L_reward :: int
  L_pending_steem :: int
  L_pending_shares :: int
  L_shares :: int
  L_steem :: int
  L_rewards :: int
  L_vests :: int
  L_vest_steem :: int
  L_vsf :: int

definition vsf_votes :: "account_object \<Rightarrow> int" where
  "vsf_votes a = (if acc_proxy a = WLS_PROXY_TO_SELF_ACCOUNT
     then amount (acc_vesting_shares a) + sum_list (acc_proxied_vsf_votes a)
     else acc_proxied_vsf_votes a ! 3)"

definition steem_of :: "account_object \<Rightarrow> int" where
  "steem_of a = amount (acc_balance a) + amount (acc_reward_steem_balance a)"

definition vests_of :: "account_object \<Rightarrow> int" where
  "vests_of a = amount (acc_vesting_shares a) + amount (acc_reward_vesting_balance a)"

definition ledger :: "database \<Rightarrow> ledger" where
  "ledger d = \<lparr>L_supply = amount (gpo_current_supply (gpo d)),
     L_fund = amount (gpo_total_vesting_fund_steem (gpo d)),
     L_reward = amount (gpo_total_reward_fund_steem (gpo d)),
     L_pending_steem = amount (gpo_pending_rewarded_vesting_steem (gpo d)),
     L_pending_shares = amount (gpo_pending_rewarded_vesting_shares (gpo d)),
     L_shares = amount (gpo_total_vesting_shares (gpo d)),
     L_steem = tbl_sum steem_of (accounts d),
     L_rewards = tbl_sum (\<lambda>r. amount (rfo_reward_balance r)) (reward_funds d),
     L_vests = tbl_sum vests_of (accounts d),
     L_vest_steem = tbl_sum (\<lambda>a. amount (acc_reward_vesting_steem a)) (accounts d),
     L_vsf = tbl_sum vsf_votes (accounts d)\<rparr>"

definition balanced :: "ledger \<Rightarrow> bool" where
  "balanced l \<longleftrightarrow>
     L_supply l = L_steem l + L_rewards l + L_fund l + L_reward l + L_pending_steem l
   \<and> L_shares l + L_pending_shares l = L_vests l
   \<and> L_shares l = L_vsf l
   \<and> L_pending_steem l = L_vest_steem l"

text \<open>Well-formed databases: ids are unique, amounts carry the symbol of their field.\<close>

definition account_ok :: "account_object \<Rightarrow> bool" where
  "account_ok a \<longleftrightarrow> symbol (acc_balance a) = WLS_SYMBOL \<and> symbol (acc_reward_steem_balance a) = WLS_SYMBOL
     \<and> symbol (acc_reward_vesting_balance a) = VESTS_SYMBOL \<and> symbol (acc_reward_vesting_steem a) = WLS_SYMBOL
     \<and> symbol (acc_vesting_shares a) = VESTS_SYMBOL \<and> length (acc_proxied_vsf_votes a) = 4"

definition gpo_ok :: "dynamic_global_property_object \<Rightarrow> bool" where
  "gpo_ok g \<longleftrightarrow> symbol (gpo_current_supply g) = WLS_SYMBOL \<and> symbol (gpo_total_vesting_fund_steem g) = WLS_SYMBOL
     \<and> symbol (gpo_total_vesting_shares g) = VESTS_SYMBOL \<and> symbol (gpo_total_reward_fund_steem g) = WLS_SYMBOL
     \<and> symbol (gpo_pending_rewarded_vesting_shares g) = VESTS_SYMBOL
     \<and> symbol (gpo_pending_rewarded_vesting_steem g) = WLS_SYMBOL"

definition wf_db :: "database \<Rightarrow> bool" where
  "wf_db d \<longleftrightarrow> table_ok (accounts d) \<and> tbl_all account_ok (accounts d) \<and> gpo_ok (gpo d)
     \<and> table_ok (reward_funds d) \<and> tbl_all (\<lambda>r. symbol (rfo_reward_balance r) = WLS_SYMBOL) (reward_funds d)"

text \<open>\<open>same_money d d'\<close>: nothing that the ledger or well-formedness reads has changed.\<close>

definition same_money :: "database \<Rightarrow> database \<Rightarrow> bool" where
  "same_money d d' \<longleftrightarrow> (wf_db d \<longrightarrow> wf_db d' \<and> ledger d' = ledger d)"

lemma same_money_refl [simp]: "same_money d d"
  by (simp add: same_money_def)

lemma same_money_trans: "same_money d d' \<Longrightarrow> same_money d' d'' \<Longrightarrow> same_money d d''"
  by (auto simp: same_money_def)

lemma same_money_fields:
  assumes "accounts d' = accounts d" "gpo d' = gpo d" "reward_funds d' = reward_funds d"
  shows "same_money d d'"
  using assms by (simp add: same_money_def wf_db_def ledger_def)

lemma wf_dbD:
  assumes "wf_db d"
  shows "table_ok (accounts d)" "tbl_all account_ok (accounts d)" "gpo_ok (gpo d)"
    "table_ok (reward_funds d)" "tbl_all (\<lambda>r. symbol (rfo_reward_balance r) = WLS_SYMBOL) (reward_funds d)"
  using assms by (simp_all add: wf_db_def)

text \<open>One modification of an account changes the account sums by the change of that account.\<close>

definition account_delta :: "account_object \<Rightarrow> account_object \<Rightarrow> ledger \<Rightarrow> ledger" where
  "account_delta a a' l = l\<lparr>L_steem := L_steem l - steem_of a + steem_of a',
     L_vests := L_vests l - vests_of a + vests_of a',
     L_vest_steem := L_vest_steem l - amount (acc_reward_vesting_steem a) + amount (acc_reward_vesting_steem a'),
     L_vsf := L_vsf l - vsf_votes a + vsf_votes a'\<rparr>"

definition keeps_ok :: "(account_object \<Rightarrow> account_object result) \<Rightarrow> bool" where
  "keeps_ok f \<longleftrightarrow> (\<forall>a a'. account_ok a \<longrightarrow> f a = Inr a' \<longrightarrow> account_ok a')"

lemma modify_account_ledger:
  assumes m: "modify_account i f d = Inr d'" and wf: "wf_db d" and k: "keeps_ok f"
  shows "\<exists>a a'. map_of (rows (accounts d)) i = Some a \<and> f a = Inr a' \<and> account_ok a \<and> account_ok a'
    \<and> wf_db d' \<and> ledger d' = account_delta a a' (ledger d)
    \<and> d' = d\<lparr>accounts := accounts d'\<rparr> \<and> gpo d' = gpo d
    \<and> map_of (rows (accounts d')) = (map_of (rows (accounts d)))(i \<mapsto> a')"
proof -
  obtain t where t: "tbl_modify key_account i f (accounts d) = Inr t" "d' = d\<lparr>accounts := t\<rparr>"
    using m by (auto simp: modify_account_def)
  note W = wf_dbD [OF wf]
  obtain a a' where a: "map_of (rows (accounts d)) i = Some a" "f a = Inr a'"
    "map_of (rows t) = (map_of (rows (accounts d)))(i \<mapsto> a')"
    "\<forall>h. tbl_sum h t = tbl_sum h (accounts d) - h a + h a'"
    using tbl_modify_sum [OF t(1) W(1)] by blast
  have ok: "\<And>a a'. account_ok a \<Longrightarrow> f a = Inr a' \<Longrightarrow> account_ok a'" using k by (auto simp: keeps_ok_def)
  have "account_ok a" using tbl_allD [OF W(2) a(1)] .
  moreover have "account_ok a'" using ok [OF \<open>account_ok a\<close> a(2)] .
  moreover have "wf_db d'"
    using wf tbl_modify_ok [OF t(1) W(1)] tbl_modify_all [OF t(1) W(2)] ok t(2) by (auto simp: wf_db_def)
  moreover have "ledger d' = account_delta a a' (ledger d)"
    using a(4) t(2) by (simp add: ledger_def account_delta_def)
  ultimately show ?thesis using a t(2) by auto
qed

text \<open>A modification that touches no amount, proxy or proxied vote leaves the money alone.\<close>

definition same_funds :: "account_object \<Rightarrow> account_object \<Rightarrow> bool" where
  "same_funds a a' \<longleftrightarrow> acc_balance a' = acc_balance a \<and> acc_reward_steem_balance a' = acc_reward_steem_balance a
     \<and> acc_reward_vesting_balance a' = acc_reward_vesting_balance a
     \<and> acc_reward_vesting_steem a' = acc_reward_vesting_steem a
     \<and> acc_vesting_shares a' = acc_vesting_shares a \<and> acc_proxied_vsf_votes a' = acc_proxied_vsf_votes a
     \<and> acc_proxy a' = acc_proxy a"

lemma same_funds_ok: "same_funds a a' \<Longrightarrow> account_ok a \<Longrightarrow> account_ok a'"
  by (simp add: account_ok_def same_funds_def)

lemma same_funds_delta: "same_funds a a' \<Longrightarrow> account_delta a a' l = l"
  by (simp add: account_delta_def same_funds_def steem_of_def vests_of_def vsf_votes_def)

lemma modify_account_same:
  assumes "modify_account i f d = Inr d'" "\<And>a a'. f a = Inr a' \<Longrightarrow> same_funds a a'"
  shows "same_money d d'"
  unfolding same_money_def
proof (intro impI)
  assume wf: "wf_db d"
  have ok: "keeps_ok f"
    unfolding keeps_ok_def
  proof (intro allI impI)
    fix a a' assume "account_ok a" "f a = Inr a'"
    then show "account_ok a'" using same_funds_ok [OF assms(2)] by blast
  qed
  obtain a a' where "f a = Inr a'" "wf_db d'" and l: "ledger d' = account_delta a a' (ledger d)"
    using modify_account_ledger [OF assms(1) wf ok] by blast
  then have "account_delta a a' (ledger d) = ledger d" using assms(2) same_funds_delta by blast
  then show "wf_db d' \<and> ledger d' = ledger d" using \<open>wf_db d'\<close> l by simp
qed

lemma modify_witness_same: "modify_witness i f d = Inr d' \<Longrightarrow> same_money d d'"
  by (auto simp: modify_witness_def intro!: same_money_fields)

lemma modify_comment_same: "modify_comment i f d = Inr d' \<Longrightarrow> same_money d d'"
  by (auto simp: modify_comment_def intro!: same_money_fields)

lemma modify_comment_vote_same: "modify_comment_vote i f d = Inr d' \<Longrightarrow> same_money d d'"
  by (auto simp: modify_comment_vote_def intro!: same_money_fields)

text \<open>Rules for \<open>yields m (same_money d)\<close>: one per operation that leaves the money alone.\<close>

named_theorems same_wp \<open>operations that leave the money alone\<close>

lemma same_step [same_wp]:
  "yields m (same_money d) \<Longrightarrow> (\<And>e. m = Inr e \<Longrightarrow> same_money d e \<Longrightarrow> yields (f e) (same_money d)) \<Longrightarrow> yields (ebind m f) (same_money d)"
  by (auto simp: yields_def)

lemma same_updates [simp]:
  "same_money d (e\<lparr>authorities := au\<rparr>) = same_money d e"
  "same_money d (e\<lparr>witnesses := wi\<rparr>) = same_money d e"
  "same_money d (e\<lparr>witness_votes := wv\<rparr>) = same_money d e"
  "same_money d (e\<lparr>comments := co\<rparr>) = same_money d e"
  "same_money d (e\<lparr>comment_votes := cv\<rparr>) = same_money d e"
  "same_money d (e\<lparr>withdraw_routes := wr\<rparr>) = same_money d e"
  "same_money d (e\<lparr>wso := ws\<rparr>) = same_money d e"
  "same_money d (e\<lparr>hpo := hp\<rparr>) = same_money d e"
  "same_money d (e\<lparr>block_summaries := bs\<rparr>) = same_money d e"
  "same_money d (e\<lparr>transaction_table := tt\<rparr>) = same_money d e"
  "same_money d (e\<lparr>db_vops := vo\<rparr>) = same_money d e"
  by (simp_all add: same_money_def wf_db_def ledger_def)

lemma same_operations [same_wp]:
  "same_money d e \<Longrightarrow> (\<And>a. yields (f a) (same_funds a)) \<Longrightarrow> yields (modify_account i f e) (same_money d)"
  "same_money d e \<Longrightarrow> yields (modify_witness i g e) (same_money d)"
  "same_money d e \<Longrightarrow> yields (modify_comment i h e) (same_money d)"
  "same_money d e \<Longrightarrow> yields (modify_comment_vote i k e) (same_money d)"
  using same_money_trans modify_account_same modify_witness_same modify_comment_same modify_comment_vote_same
  unfolding yields_def by blast+

text \<open>Changes of the global properties.\<close>

lemma modify_gpo_elim:
  assumes "modify_gpo f d = Inr d'"
  obtains p where "f (gpo d) = Inr p" "d' = d\<lparr>gpo := p\<rparr>"
  using assms by (auto simp: modify_gpo_def)

lemma wf_db_gpo: "wf_db d \<Longrightarrow> gpo_ok p \<Longrightarrow> wf_db (d\<lparr>gpo := p\<rparr>)"
  by (simp add: wf_db_def)

context fc_env
begin

lemma adjust_balance_ledger:
  assumes "adjust_balance F i delta d = Inr d'" "wf_db d"
  shows "symbol delta = WLS_SYMBOL \<and> wf_db d' \<and> ledger d' = (ledger d)\<lparr>L_steem := L_steem (ledger d) + amount delta\<rparr>
    \<and> d' = d\<lparr>accounts := accounts d'\<rparr>"
proof -
  let ?f = "\<lambda>acnt. if symbol delta = WLS_SYMBOL then
         ebind (asset_add F (acc_balance acnt) delta) (\<lambda>b. Inr (acnt\<lparr>acc_balance := b\<rparr>))
       else Inl assert_exception"
  have ok: "keeps_ok ?f" by (auto simp: keeps_ok_def account_ok_def split: if_splits)
  obtain a a' where r: "?f a = Inr a'" "wf_db d'" "ledger d' = account_delta a a' (ledger d)" "d' = d\<lparr>accounts := accounts d'\<rparr>"
    using modify_account_ledger [OF assms(1) [unfolded adjust_balance_def] assms(2) ok] by blast
  then show ?thesis
    by (auto simp: account_delta_def steem_of_def vests_of_def vsf_votes_def split: if_splits)
qed

lemma adjust_reward_balance_ledger:
  assumes "adjust_reward_balance F i delta d = Inr d'" "wf_db d"
  shows "symbol delta = WLS_SYMBOL \<and> wf_db d' \<and> ledger d' = (ledger d)\<lparr>L_steem := L_steem (ledger d) + amount delta\<rparr>
    \<and> d' = d\<lparr>accounts := accounts d'\<rparr>"
proof -
  let ?f = "\<lambda>acnt. if symbol delta = WLS_SYMBOL then
         ebind (asset_add F (acc_reward_steem_balance acnt) delta) (\<lambda>b. Inr (acnt\<lparr>acc_reward_steem_balance := b\<rparr>))
       else Inl assert_exception"
  have ok: "keeps_ok ?f" by (auto simp: keeps_ok_def account_ok_def split: if_splits)
  obtain a a' where r: "?f a = Inr a'" "wf_db d'" "ledger d' = account_delta a a' (ledger d)" "d' = d\<lparr>accounts := accounts d'\<rparr>"
    using modify_account_ledger [OF assms(1) [unfolded adjust_reward_balance_def] assms(2) ok] by blast
  then show ?thesis
    by (auto simp: account_delta_def steem_of_def vests_of_def vsf_votes_def split: if_splits)
qed

lemma adjust_supply_ledger:
  assumes "adjust_supply F delta False d = Inr d'" "wf_db d"
  shows "symbol delta = WLS_SYMBOL \<and> wf_db d' \<and> ledger d' = (ledger d)\<lparr>L_supply := L_supply (ledger d) + amount delta\<rparr>
    \<and> accounts d' = accounts d"
proof -
  have s: "symbol delta = WLS_SYMBOL"
    using assms(1) by (auto simp: adjust_supply_def Let_def modify_gpo_def split: if_splits)
  obtain cs vf where d': "d' = d\<lparr>gpo := (gpo d)\<lparr>gpo_current_supply := cs, gpo_total_vesting_fund_steem := vf\<rparr>\<rparr>"
    and cs: "cs = \<lparr>amount = amount (gpo_current_supply (gpo d)) + amount delta, symbol = symbol (gpo_current_supply (gpo d))\<rparr>"
    and vf: "vf = \<lparr>amount = amount (gpo_total_vesting_fund_steem (gpo d)), symbol = symbol (gpo_total_vesting_fund_steem (gpo d))\<rparr>"
    using assms(1) s by (auto simp: adjust_supply_def Let_def modify_gpo_def)
  show ?thesis using s assms(2) unfolding d' cs vf
    by (auto simp: wf_db_def gpo_ok_def ledger_def)
qed

lemma pay_fee_ledger:
  assumes "pay_fee F i fee d = Inr d'" "wf_db d"
  shows "wf_db d' \<and> ledger d' = (ledger d)\<lparr>L_steem := L_steem (ledger d) - amount fee, L_supply := L_supply (ledger d) - amount fee\<rparr>"
proof (cases "amount fee = 0")
  case True
  then show ?thesis using assms by (simp add: pay_fee_def)
next
  case False
  then obtain n d1 where n: "asset_neg F fee = Inr n" and b: "adjust_balance F i n d = Inr d1"
    and s: "adjust_supply F n False d1 = Inr d'"
    using assms(1) by (auto simp: pay_fee_def)
  have "amount n = - amount fee" using n by auto
  then show ?thesis
    using adjust_balance_ledger [OF b assms(2)] adjust_supply_ledger [OF s] by auto
qed

end

section \<open>Witness votes and proxies\<close>

lemma adjust_witness_vote_same: "adjust_witness_vote F w delta d = Inr d' \<Longrightarrow> same_money d d' \<and> accounts d' = accounts d \<and> gpo d' = gpo d"
  unfolding adjust_witness_vote_def Let_def
  by (auto simp: modify_witness_def intro!: same_money_fields)

lemma adjust_witness_votes_same:
  assumes "adjust_witness_votes F a delta d = Inr d'"
  shows "same_money d d' \<and> accounts d' = accounts d \<and> gpo d' = gpo d"
  using assms unfolding adjust_witness_votes_def
proof (rule efold_related [where R = "\<lambda>d d'. same_money d d' \<and> accounts d' = accounts d \<and> gpo d' = gpo d"])
  fix x t t' assume "same_money d t \<and> accounts t = accounts d \<and> gpo t = gpo d"
    and "ebind (tbl_get (wvo_witness (snd x)) (witnesses t)) (\<lambda>_. adjust_witness_vote F (wvo_witness (snd x)) delta t) = Inr t'"
  then show "same_money d t' \<and> accounts t' = accounts d \<and> gpo t' = gpo d"
    using adjust_witness_vote_same [of F "wvo_witness (snd x)" delta t t'] same_money_trans by auto
qed simp

lemma same_votes [same_wp]:
  "same_money d e \<Longrightarrow> yields (adjust_witness_vote F w delta e) (same_money d)"
  "same_money d e \<Longrightarrow> yields (adjust_witness_votes F a delta e) (same_money d)"
  "same_money d e \<Longrightarrow> yields (update_owner_authority nm au e) (same_money d)"
  using same_money_trans adjust_witness_vote_same adjust_witness_votes_same
  unfolding yields_def by (blast, blast, auto simp: update_owner_authority_def)

definition self_proxy :: "account_object \<Rightarrow> bool" where
  "self_proxy a \<longleftrightarrow> acc_proxy a = WLS_PROXY_TO_SELF_ACCOUNT"

context fc_env
begin

lemma add_proxied_result:
  assumes "add_proxied F i delta a = Inr a'" "account_ok a" "i < 4"
  shows "account_ok a' \<and> acc_proxy a' = acc_proxy a
    \<and> account_delta a a' l = l\<lparr>L_vsf := L_vsf l + (if self_proxy a \<or> i = 3 then delta else 0)\<rparr>"
proof -
  have a': "a' = a\<lparr>acc_proxied_vsf_votes := (acc_proxied_vsf_votes a)[i := acc_proxied_vsf_votes a ! i + delta]\<rparr>"
    using assms(1) by (auto simp: add_proxied_def)
  have "sum_list (acc_proxied_vsf_votes a') = sum_list (acc_proxied_vsf_votes a) + delta"
    using sum_list_map_update [of i "acc_proxied_vsf_votes a" "\<lambda>x. x"] assms(2,3)
    by (simp add: a' account_ok_def)
  then have "vsf_votes a' = vsf_votes a + (if self_proxy a \<or> i = 3 then delta else 0)"
    using assms(2,3) by (auto simp: a' vsf_votes_def self_proxy_def account_ok_def)
  then show ?thesis using assms(2)
    by (simp add: a' account_ok_def account_delta_def steem_of_def vests_of_def)
qed

lemma keeps_ok_add_proxied: "i < 4 \<Longrightarrow> keeps_ok (add_proxied F i delta)"
  using add_proxied_result unfolding keeps_ok_def by blast

lemma adjust_proxied_ledger:
  assumes "adjust_proxied_witness_votes_at F left a delta d = Inr d'" "wf_db d" "left \<le> 4"
    and "map_of (rows (accounts d)) a = Some acc"
  shows "wf_db d' \<and> gpo d' = gpo d
    \<and> ledger d' = (ledger d)\<lparr>L_vsf := L_vsf (ledger d) + (if \<not> self_proxy acc \<and> 0 < left then delta else 0)\<rparr>"
  using assms
proof (induction left arbitrary: a acc d)
  case 0
  then show ?case using adjust_witness_votes_same [of F a delta d d']
    by (auto simp: tbl_get_def same_money_def split: if_splits)
next
  case (Suc left)
  show ?case
  proof (cases "self_proxy acc")
    case True
    then show ?thesis using Suc.prems adjust_witness_votes_same [of F a delta d d']
      by (auto simp: tbl_get_def same_money_def self_proxy_def)
  next
    case False
    let ?i = "4 - Suc left"
    have i: "?i < 4" using Suc.prems(3) by simp
    obtain p pa d1 where g: "get_account (acc_proxy acc) d = Inr (p, pa)"
      and m: "modify_account p (add_proxied F ?i delta) d = Inr d1"
      and r: "adjust_proxied_witness_votes_at F left p delta d1 = Inr d'"
      using Suc.prems(1,4) False by (auto simp: tbl_get_def self_proxy_def)
    obtain b b' where b: "add_proxied F ?i delta b = Inr b'" "account_ok b" "wf_db d1"
      "ledger d1 = account_delta b b' (ledger d)" "gpo d1 = gpo d"
      and b1: "map_of (rows (accounts d1)) p = Some b'"
      using modify_account_ledger [OF m Suc.prems(2) keeps_ok_add_proxied [OF i]] by auto
    note R = add_proxied_result [OF b(1,2) i, of "ledger d"]
    have "self_proxy b' = self_proxy b" using R by (simp add: self_proxy_def)
    moreover have "wf_db d' \<and> gpo d' = gpo d1 \<and> ledger d' = (ledger d1)\<lparr>L_vsf := L_vsf (ledger d1)
        + (if \<not> self_proxy b' \<and> 0 < left then delta else 0)\<rparr>"
      using Suc.IH [OF r b(3)] Suc.prems(3) b1 by simp
    moreover have "?i = 3 \<longleftrightarrow> left = 0" using Suc.prems(3) by linarith
    ultimately show ?thesis using R b(4,5) False by (cases "self_proxy b"; cases "left = 0") auto
  qed
qed

lemma create_vesting_ledger:
  assumes "create_vesting F i steem r d = Inr (v, d')" "wf_db d" "symbol steem = WLS_SYMBOL" "symbol v = VESTS_SYMBOL"
  shows "wf_db d' \<and> ledger d' = (let l = ledger d in
    if r then l\<lparr>L_pending_shares := L_pending_shares l + amount v, L_pending_steem := L_pending_steem l + amount steem,
                L_vests := L_vests l + amount v, L_vest_steem := L_vest_steem l + amount steem\<rparr>
    else l\<lparr>L_fund := L_fund l + amount steem, L_shares := L_shares l + amount v,
           L_vests := L_vests l + amount v, L_vsf := L_vsf l + amount v\<rparr>)"
proof -
  let ?f = "\<lambda>to. if r then
           ebind (asset_add F (acc_reward_vesting_balance to) v) (\<lambda>b.
           ebind (asset_add F (acc_reward_vesting_steem to) steem) (\<lambda>s.
           Inr (to\<lparr>acc_reward_vesting_balance := b, acc_reward_vesting_steem := s\<rparr>)))
         else ebind (asset_add F (acc_vesting_shares to) v) (\<lambda>v. Inr (to\<lparr>acc_vesting_shares := v\<rparr>))"
  obtain d1 d2 where m: "modify_account i ?f d = Inr d1"
    and g: "modify_gpo (\<lambda>props.
         if r then
           ebind (asset_add F (gpo_pending_rewarded_vesting_shares props) v) (\<lambda>b.
           ebind (asset_add F (gpo_pending_rewarded_vesting_steem props) steem) (\<lambda>s.
           Inr (props\<lparr>gpo_pending_rewarded_vesting_shares := b, gpo_pending_rewarded_vesting_steem := s\<rparr>)))
         else
           ebind (asset_add F (gpo_total_vesting_fund_steem props) steem) (\<lambda>f.
           ebind (asset_add F (gpo_total_vesting_shares props) v) (\<lambda>v.
           Inr (props\<lparr>gpo_total_vesting_fund_steem := f, gpo_total_vesting_shares := v\<rparr>)))) d1 = Inr d2"
    and p: "(if \<not> r then adjust_proxied_witness_votes F i (amount v) d2 else Inr d2) = Inr d'"
    using assms(1) unfolding create_vesting_def by (auto split: if_splits)
  have ok: "keeps_ok ?f" by (auto simp: keeps_ok_def account_ok_def split: if_splits)
  obtain a a' where a: "?f a = Inr a'" "account_ok a" "wf_db d1" "ledger d1 = account_delta a a' (ledger d)"
    "map_of (rows (accounts d1)) i = Some a'" "gpo d1 = gpo d"
    using modify_account_ledger [OF m assms(2) ok] by auto
  obtain q where q: "d2 = d1\<lparr>gpo := q\<rparr>" using g by (auto simp: modify_gpo_def)
  show ?thesis
  proof (cases r)
    case True
    have "gpo_ok (gpo d)" using assms(2) by (simp add: wf_db_def)
    with True a g p show ?thesis using assms(3,4)
      by (auto simp: modify_gpo_def Let_def wf_db_def gpo_ok_def ledger_def account_delta_def steem_of_def vests_of_def
          vsf_votes_def)
  next
    case False
    have w2: "wf_db d2" and l2: "ledger d2 = (ledger d1)\<lparr>L_fund := L_fund (ledger d1) + amount steem, L_shares := L_shares (ledger d1) + amount v\<rparr>"
      using False g a(3) by (auto simp: modify_gpo_def wf_db_def gpo_ok_def ledger_def)
    have pr: "adjust_proxied_witness_votes_at F 4 i (amount v) d2 = Inr d'"
      using False p by (simp add: adjust_proxied_witness_votes_def)
    have "map_of (rows (accounts d2)) i = Some a'" using a(5) q by simp
    from adjust_proxied_ledger [OF pr w2 _ this] have
      r3: "wf_db d'" "ledger d' = (ledger d2)\<lparr>L_vsf := L_vsf (ledger d2) + (if \<not> self_proxy a' then amount v else 0)\<rparr>"
      by auto
    have "ledger d1 = (ledger d)\<lparr>L_vests := L_vests (ledger d) + amount v,
        L_vsf := L_vsf (ledger d) + (if self_proxy a' then amount v else 0)\<rparr>"
      using a(1,4) False by (auto simp: account_delta_def steem_of_def vests_of_def vsf_votes_def self_proxy_def)
    then show ?thesis using r3 l2 False by (auto simp: Let_def)
  qed
qed

end

section \<open>Symbols of converted amounts\<close>

lemma symbol_name_of [simp]:
  "symbol a = WLS_SYMBOL \<Longrightarrow> symbol_name a = Inr ''WLS''"
  "symbol a = VESTS_SYMBOL \<Longrightarrow> symbol_name a = Inr ''VESTS''"
  using symbol_name_WLS [of "amount a"] symbol_name_VESTS [of "amount a"] by (simp_all add: symbol_name_def)

lemma asset_mult_price_side:
  assumes "asset_mult_price F a p = Inr r" "symbol_name a = Inr an" "symbol_name (base p) = Inr bn"
  shows "symbol r = (if an = bn then symbol (quote p) else symbol (base p))"
proof (cases "an = bn")
  case True
  then show ?thesis using assms by (auto simp: asset_mult_price_def Let_def)
next
  case False
  then show ?thesis using assms by (auto simp: asset_mult_price_def Let_def split: if_splits)
qed

definition wls_vests_price :: "price \<Rightarrow> bool" where
  "wls_vests_price p \<longleftrightarrow> symbol (base p) = WLS_SYMBOL \<and> symbol (quote p) = VESTS_SYMBOL
     \<or> symbol (base p) = VESTS_SYMBOL \<and> symbol (quote p) = WLS_SYMBOL"

lemma asset_mult_price_vests:
  assumes "asset_mult_price F a p = Inr r" "symbol a = WLS_SYMBOL" "wls_vests_price p"
  shows "symbol r = VESTS_SYMBOL"
proof (cases "symbol (base p) = WLS_SYMBOL")
  case True
  then show ?thesis using assms asset_mult_price_side [OF assms(1), of "''WLS''" "''WLS''"]
    by (simp add: wls_vests_price_def)
next
  case False
  then show ?thesis using assms asset_mult_price_side [OF assms(1), of "''WLS''" "''VESTS''"]
    by (simp add: wls_vests_price_def)
qed

lemma asset_mult_price_wls:
  assumes "asset_mult_price F a p = Inr r" "symbol a = VESTS_SYMBOL" "wls_vests_price p"
  shows "symbol r = WLS_SYMBOL"
proof (cases "symbol (base p) = WLS_SYMBOL")
  case True
  then show ?thesis using assms asset_mult_price_side [OF assms(1), of "''VESTS''" "''WLS''"]
    by (simp add: wls_vests_price_def)
next
  case False
  then show ?thesis using assms asset_mult_price_side [OF assms(1), of "''VESTS''" "''VESTS''"]
    by (simp add: wls_vests_price_def)
qed

lemma vesting_price_symbols: "gpo_ok g \<Longrightarrow> wls_vests_price (get_vesting_share_price g)"
  by (simp add: get_vesting_share_price_def gpo_ok_def wls_vests_price_def)

context fc_env
begin

lemma reward_price_symbols:
  assumes "gpo_ok g" "get_reward_vesting_share_price F g = Inr p"
  shows "wls_vests_price p"
proof (cases "amount (gpo_pending_rewarded_vesting_shares g) = 0 \<or> amount (gpo_pending_rewarded_vesting_steem g) = 0")
  case True
  then show ?thesis using assms vesting_price_symbols [OF assms(1)] by (auto simp: get_reward_vesting_share_price_def)
next
  case False
  then show ?thesis using assms
    by (auto simp: get_reward_vesting_share_price_def gpo_ok_def wls_vests_price_def)
qed

lemma create_vesting_symbol:
  assumes "create_vesting F i steem r d = Inr (v, d')" "wf_db d" "symbol steem = WLS_SYMBOL"
  shows "symbol v = VESTS_SYMBOL"
proof -
  have g: "gpo_ok (gpo d)" using assms(2) by (simp add: wf_db_def)
  obtain p where p: "(if r then get_reward_vesting_share_price F (gpo d) else Inr (get_vesting_share_price (gpo d))) = Inr p"
    and v: "asset_mult_price F steem p = Inr v"
    using assms(1) unfolding create_vesting_def by auto
  have "wls_vests_price p"
    using p reward_price_symbols [OF g] vesting_price_symbols [OF g] by (cases r) auto
  then show ?thesis by (rule asset_mult_price_vests [OF v assms(3)])
qed

lemmas create_vesting_result = create_vesting_ledger [OF _ _ _ create_vesting_symbol]

end

section \<open>What the check establishes\<close>

context fc_env
begin

lemma efold_add: "efold (\<lambda>v s. fc_add F s v) xs s = Inr t \<Longrightarrow> t = s + sum_list xs"
proof (induction xs arbitrary: s)
  case (Cons x xs)
  then have "efold (\<lambda>v s. fc_add F s v) xs (s + x) = Inr t" by simp
  then show ?case using Cons.IH by fastforce
qed simp

lemma add_account_totals_result:
  assumes "add_account_totals F a t = Inr t'"
  shows "amount (it_supply t') = amount (it_supply t) + steem_of a"
    "amount (it_vesting t') = amount (it_vesting t) + vests_of a"
    "amount (it_pending_steem t') = amount (it_pending_steem t) + amount (acc_reward_vesting_steem a)"
    "it_vsf_votes t' = it_vsf_votes t + vsf_votes a"
  using assms efold_add
  by (auto simp: add_account_totals_def witness_vote_weight_def steem_of_def vests_of_def vsf_votes_def split: if_splits)

lemma add_accounts_totals:
  assumes "efold (\<lambda>p t. add_account_totals F (snd p) t) ps t = Inr t'"
  shows "amount (it_supply t') = amount (it_supply t) + sum_list (map (\<lambda>p. steem_of (snd p)) ps)
    \<and> amount (it_vesting t') = amount (it_vesting t) + sum_list (map (\<lambda>p. vests_of (snd p)) ps)
    \<and> amount (it_pending_steem t') = amount (it_pending_steem t) + sum_list (map (\<lambda>p. amount (acc_reward_vesting_steem (snd p))) ps)
    \<and> it_vsf_votes t' = it_vsf_votes t + sum_list (map (\<lambda>p. vsf_votes (snd p)) ps)"
  using assms
proof (induction ps arbitrary: t)
  case Nil
  then show ?case by simp
next
  case (Cons p ps)
  then obtain u where u: "add_account_totals F (snd p) t = Inr u" "efold (\<lambda>p t. add_account_totals F (snd p) t) ps u = Inr t'"
    by auto
  show ?case using Cons.IH [OF u(2)] add_account_totals_result [OF u(1)] by simp
qed

lemma efold_asset_add:
  "efold (\<lambda>p s. asset_add F s (f (snd p))) ps s = Inr t \<Longrightarrow> amount t = amount s + sum_list (map (\<lambda>p. amount (f (snd p))) ps)"
proof (induction ps arbitrary: s)
  case (Cons p ps)
  then obtain u where "asset_add F s (f (snd p)) = Inr u" "efold (\<lambda>p s. asset_add F s (f (snd p))) ps u = Inr t"
    by auto
  then show ?case using Cons.IH [of u] by auto
qed simp

lemma sum_list_sort_key:
  fixes g :: "'x \<Rightarrow> int"
  shows "sum_list (map g (sort_key k xs)) = sum_list (map g xs)"
  by (metis mset_map mset_sort sum_mset_sum_list)

lemma validate_invariants_balanced:
  assumes "validate_invariants F d = Inr ()"
  shows "balanced (ledger d)"
proof -
  obtain t s x y where
    t: "efold (\<lambda>p t. add_account_totals F (snd p) t) (tbl_sorted (\<lambda>p. acc_name (snd p)) (accounts d))
          \<lparr>it_supply = WLS 0, it_vesting = VESTS 0, it_pending_steem = WLS 0, it_vsf_votes = 0\<rparr> = Inr t"
    and s: "efold (\<lambda>p s. asset_add F s (rfo_reward_balance (snd p))) (rows (reward_funds d)) (it_supply t) = Inr s"
    and eqs: "amount (gpo_current_supply (gpo d)) = amount s + (amount (gpo_total_vesting_fund_steem (gpo d))
        + amount (gpo_total_reward_fund_steem (gpo d)) + amount (gpo_pending_rewarded_vesting_steem (gpo d)))"
      "amount (gpo_total_vesting_shares (gpo d)) + amount (gpo_pending_rewarded_vesting_shares (gpo d)) = amount (it_vesting t)"
      "amount (gpo_total_vesting_shares (gpo d)) = it_vsf_votes t"
      "amount (gpo_pending_rewarded_vesting_steem (gpo d)) = amount (it_pending_steem t)"
    using assms unfolding validate_invariants_def Let_def by (auto simp: asset_eq_def)
  show ?thesis
    using add_accounts_totals [OF t] efold_asset_add [OF s] eqs
    by (simp add: balanced_def ledger_def tbl_sum_def tbl_sorted_def sum_list_sort_key)
qed

end

section \<open>The concrete database is well-formed and balanced\<close>

lemmas sample_simps = sample_db_def sample_accounts_def empty_database_def default_account_def default_gpo_def
  default_reward_fund_def empty_table_def default_witness_def

lemma sample_wf: "wf_db sample_db"
  by (simp add: sample_simps wf_db_def table_ok_def tbl_all_def account_ok_def gpo_ok_def)

lemma sample_balanced: "balanced (ledger sample_db)"
  by (simp add: sample_simps balanced_def ledger_def tbl_sum_def steem_of_def vests_of_def vsf_votes_def)

section \<open>Properties\<close>

text \<open>
  What \<open>validate_invariants\<close> establishes when it does not throw: the supply is the sum of all
  balances, reward balances, reward funds, the vesting fund and pending reward tokens; all
  vesting shares are held by accounts; the shares counted for voting through proxies are all the
  shares; the pending reward tokens are those recorded in the accounts.
\<close>

theorem validated_database_is_balanced:
  assumes "fc_ok F" "validate_invariants F d = Inr ()"
  shows "balanced (ledger d)"
  using fc_env.validate_invariants_balanced [OF fc_env.intro [OF assms(1)] assms(2)] .

theorem validated_database_is_balanced_witness:
  "validate_invariants fc_int64 sample_db = Inr () \<and> balanced (ledger sample_db)"
proof -
  have "validate_invariants fc_int64 sample_db = Inr ()" by code_simp
  then show ?thesis using validated_database_is_balanced [OF fc_ok_int64] by blast
qed

end
