(* ===== verification/Funds.thy ===== *)
theory Funds
  imports Ledger
begin

text \<open>
  Inflation and vesting withdrawals of \<open>database.cpp\<close>: \<open>get_current_inflation_rate\<close>,
  \<open>pay_reward_funds\<close>, \<open>process_funds\<close> and \<open>process_vesting_withdrawals\<close>.  The lemmas give the
  range of the inflation rate, that the tokens minted per block are exactly those credited, and
  that withdrawals move vesting shares and tokens without loss.
\<close>

section \<open>Inflation\<close>

definition get_current_inflation_rate :: "database \<Rightarrow> int" where
  "get_current_inflation_rate d =
     (let current_head_block_num = uint (head_block_num d);
          at_year = min (current_head_block_num div WLS_BLOCKS_PER_YEAR) 8;
          start_inflation_rate = WLS_INFLATION_RATE_START_PERCENT div 2 ^ nat at_year;
          inflation_rate_floor = WLS_INFLATION_RATE_STOP_PERCENT;
          end_inflation_rate = start_inflation_rate div 2;
          dif_inflation_rate = start_inflation_rate - end_inflation_rate;
          inflation_rate_adjustment =
            (current_head_block_num mod WLS_BLOCKS_PER_YEAR * dif_inflation_rate) div WLS_BLOCKS_PER_YEAR
      in max (start_inflation_rate - inflation_rate_adjustment) inflation_rate_floor)"

definition get_curation_rewards_percent :: "database \<Rightarrow> u16 result" where
  "get_curation_rewards_percent d = ebind (get_reward_fund d) (\<lambda>(_, rf). Inr (rfo_percent_curation_rewards rf))"

definition pay_reward_funds :: "fc_lib \<Rightarrow> int \<Rightarrow> database \<Rightarrow> (int \<times> database) result" where
  "pay_reward_funds F reward d =
     efold (\<lambda>p (used_rewards, d).
       ebind (fc_mul F reward (uint (rfo_percent_content_rewards (snd p)))) (\<lambda>x.
       ebind (fc_div F x WLS_100_PERCENT) (\<lambda>r.
       ebind (modify_reward_fund (fst p) (\<lambda>rfo.
           ebind (asset_add F (rfo_reward_balance rfo) (WLS r)) (\<lambda>b. Inr (rfo\<lparr>rfo_reward_balance := b\<rparr>))) d) (\<lambda>d.
       ebind (fc_add F used_rewards r) (\<lambda>used_rewards.
       require (used_rewards \<le> reward) (Inr (used_rewards, d))))))) (rows (reward_funds d)) (0, d)"

text \<open>The part of \<open>process_funds\<close> that mints the three rewards and pays the last two of them.\<close>

definition mint_rewards :: "fc_lib \<Rightarrow> int \<Rightarrow> int \<Rightarrow> int \<Rightarrow> witness_object \<Rightarrow> database \<Rightarrow> database result" where
  "mint_rewards F content_reward devfund_reward witness_reward cwit d =
     ebind (fc_add F content_reward devfund_reward) (\<lambda>x.
     ebind (fc_add F x witness_reward) (\<lambda>new_steem.
     ebind (modify_gpo (\<lambda>p.
         ebind (asset_add F (gpo_current_supply p) (WLS new_steem)) (\<lambda>s. Inr (p\<lparr>gpo_current_supply := s\<rparr>))) d) (\<lambda>d.
     ebind (get_account (wit_owner cwit) d) (\<lambda>(producer, _).
     ebind (create_vesting F producer (WLS witness_reward) False d) (\<lambda>(producer_reward, d).
     let d = push_virtual_operation (producer_reward_operation (wit_owner cwit) producer_reward) d;
         d = push_virtual_operation (devfund_operation WLS_DEV_FUND_ACC_NAME (WLS devfund_reward)) d
     in ebind (get_account WLS_DEV_FUND_ACC_NAME d) (\<lambda>(dev, _).
        modify_account dev (\<lambda>a.
          ebind (asset_add F (acc_balance a) (WLS devfund_reward)) (\<lambda>b. Inr (a\<lparr>acc_balance := b\<rparr>))) d))))))"

definition process_funds :: "fc_lib \<Rightarrow> database \<Rightarrow> database result" where
  "process_funds F d =
     (let current_inflation_rate = get_current_inflation_rate d in
      ebind (fc_mul F (amount (gpo_current_supply (gpo d))) current_inflation_rate) (\<lambda>x.
      ebind (fc_div F x (WLS_100_PERCENT * WLS_BLOCKS_PER_YEAR)) (\<lambda>new_steem.
      ebind (fc_mul F new_steem WLS_CONTENT_REWARD_PERCENT) (\<lambda>x.
      ebind (fc_div F x WLS_100_PERCENT) (\<lambda>content_reward.
      ebind (pay_reward_funds F content_reward d) (\<lambda>(content_reward, d).
      ebind (fc_mul F new_steem WLS_DEV_FUND_PERCENT) (\<lambda>x.
      ebind (fc_div F x WLS_100_PERCENT) (\<lambda>devfund_reward.
      ebind (fc_sub F new_steem content_reward) (\<lambda>x.
      ebind (fc_sub F x devfund_reward) (\<lambda>witness_reward.
      ebind (get_witness (gpo_current_witness (gpo d)) d) (\<lambda>(_, cwit).
      ebind (fc_mul F witness_reward WLS_MAX_WITNESSES) (\<lambda>witness_reward.
      ebind (case wit_schedule cwit of
               timeshare \<Rightarrow> fc_mul F witness_reward (uint (wso_timeshare_weight (wso d)))
             | miner \<Rightarrow> fc_mul F witness_reward (uint (wso_top19_weight (wso d)))
             | top19 \<Rightarrow> fc_mul F witness_reward (uint (wso_top19_weight (wso d)))
             | none \<Rightarrow> Inr witness_reward) (\<lambda>witness_reward.
      ebind (fc_div F witness_reward (uint (wso_witness_pay_normalization_factor (wso d)))) (\<lambda>witness_reward.
      mint_rewards F content_reward devfund_reward witness_reward cwit d))))))))))))))"

section \<open>Vesting withdrawals\<close>

text \<open>
  The routes that \<open>upper_bound (from_account, account_id_type())\<close> starts at: those of the account
  whose destination is above id 0, in the order of the index \<open>by_withdraw_route\<close>.
\<close>

definition routes_from :: "int \<Rightarrow> database \<Rightarrow> (int \<times> withdraw_vesting_route_object) list" where
  "routes_from a d = sort_key (\<lambda>p. wro_to_account (snd p))
     (filter (\<lambda>p. wro_from_account (snd p) = a \<and> 0 < wro_to_account (snd p)) (rows (withdraw_routes d)))"

definition route_share :: "fc_lib \<Rightarrow> int \<Rightarrow> u16 \<Rightarrow> int result" where
  "route_share F to_withdraw percent =
     ebind (fc_to_uint64 F ((to_u128 to_withdraw * ucast percent) div WLS_100_PERCENT)) (\<lambda>v. Inr (sint v))"

definition due_withdrawal :: "fc_lib \<Rightarrow> account_object \<Rightarrow> int result" where
  "due_withdrawal F a =
     ebind (fc_sub F (acc_to_withdraw a) (acc_withdrawn a)) (\<lambda>left.
       if left < amount (acc_vesting_withdraw_rate a) then
         ebind (fc_mod F (acc_to_withdraw a) (amount (acc_vesting_withdraw_rate a))) (\<lambda>r.
           Inr (min (amount (acc_vesting_shares a)) r))
       else Inr (min (amount (acc_vesting_shares a)) (amount (acc_vesting_withdraw_rate a))))"

definition route_vests :: "fc_lib \<Rightarrow> account_name_type \<Rightarrow> int \<Rightarrow> int \<times> withdraw_vesting_route_object
  \<Rightarrow> int \<times> database \<Rightarrow> (int \<times> database) result" where
  "route_vests F from_name to_withdraw r = (\<lambda>(vests_deposited_as_vests, d).
     if wro_auto_vest (snd r) then
       ebind (route_share F to_withdraw (wro_percent (snd r))) (\<lambda>to_deposit.
       ebind (fc_add F vests_deposited_as_vests to_deposit) (\<lambda>vests_deposited_as_vests.
       if to_deposit > 0 then
         ebind (tbl_get (wro_to_account (snd r)) (accounts d)) (\<lambda>to_account.
         ebind (modify_account (wro_to_account (snd r)) (\<lambda>a.
             ebind (fc_add F (amount (acc_vesting_shares a)) to_deposit) (\<lambda>v.
             Inr (a\<lparr>acc_vesting_shares := (acc_vesting_shares a)\<lparr>amount := v\<rparr>\<rparr>))) d) (\<lambda>d.
         ebind (adjust_proxied_witness_votes F (wro_to_account (snd r)) to_deposit d) (\<lambda>d.
         Inr (vests_deposited_as_vests, push_virtual_operation (fill_vesting_withdraw_operation
           from_name (acc_name to_account) (VESTS to_deposit) (VESTS to_deposit)) d))))
       else Inr (vests_deposited_as_vests, d)))
     else Inr (vests_deposited_as_vests, d))"

definition route_steem :: "fc_lib \<Rightarrow> account_name_type \<Rightarrow> int \<Rightarrow> int \<times> withdraw_vesting_route_object
  \<Rightarrow> int \<times> asset \<times> database \<Rightarrow> (int \<times> asset \<times> database) result" where
  "route_steem F from_name to_withdraw r = (\<lambda>(vests_deposited_as_steem, total_steem_converted, d).
     if \<not> wro_auto_vest (snd r) then
       ebind (tbl_get (wro_to_account (snd r)) (accounts d)) (\<lambda>to_account.
       ebind (route_share F to_withdraw (wro_percent (snd r))) (\<lambda>to_deposit.
       ebind (fc_add F vests_deposited_as_steem to_deposit) (\<lambda>vests_deposited_as_steem.
       ebind (asset_mult_price F (VESTS to_deposit) (get_vesting_share_price (gpo d))) (\<lambda>converted_steem.
       ebind (asset_add F total_steem_converted converted_steem) (\<lambda>total_steem_converted.
       if to_deposit > 0 then
         ebind (modify_account (wro_to_account (snd r)) (\<lambda>a.
             ebind (asset_add F (acc_balance a) converted_steem) (\<lambda>b. Inr (a\<lparr>acc_balance := b\<rparr>))) d) (\<lambda>d.
         ebind (modify_gpo (\<lambda>g.
             ebind (asset_sub F (gpo_total_vesting_fund_steem g) converted_steem) (\<lambda>f.
             ebind (fc_sub F (amount (gpo_total_vesting_shares g)) to_deposit) (\<lambda>v.
             Inr (g\<lparr>gpo_total_vesting_fund_steem := f,
                    gpo_total_vesting_shares := (gpo_total_vesting_shares g)\<lparr>amount := v\<rparr>\<rparr>)))) d) (\<lambda>d.
         Inr (vests_deposited_as_steem, total_steem_converted, push_virtual_operation
           (fill_vesting_withdraw_operation from_name (acc_name to_account) (VESTS to_deposit) converted_steem) d)))
       else Inr (vests_deposited_as_steem, total_steem_converted, d))))))
     else Inr (vests_deposited_as_steem, total_steem_converted, d))"

definition finish_withdrawal :: "fc_lib \<Rightarrow> int \<Rightarrow> asset \<Rightarrow> account_object \<Rightarrow> account_object result" where
  "finish_withdrawal F to_withdraw converted_steem a =
     ebind (fc_sub F (amount (acc_vesting_shares a)) to_withdraw) (\<lambda>v.
     ebind (asset_add F (acc_balance a) converted_steem) (\<lambda>b.
     ebind (fc_add F (acc_withdrawn a) to_withdraw) (\<lambda>w.
     let a = a\<lparr>acc_vesting_shares := (acc_vesting_shares a)\<lparr>amount := v\<rparr>, acc_balance := b, acc_withdrawn := w\<rparr> in
     if acc_withdrawn a \<ge> acc_to_withdraw a \<or> amount (acc_vesting_shares a) = 0 then
       Inr (a\<lparr>acc_vesting_withdraw_rate := (acc_vesting_withdraw_rate a)\<lparr>amount := 0\<rparr>,
              acc_next_vesting_withdrawal := time_maximum\<rparr>)
     else Inr (a\<lparr>acc_next_vesting_withdrawal :=
                   acc_next_vesting_withdrawal a + WLS_VESTING_WITHDRAW_INTERVAL_SECONDS\<rparr>))))"

definition process_withdrawal :: "fc_lib \<Rightarrow> int \<Rightarrow> database \<Rightarrow> database result" where
  "process_withdrawal F from d =
     ebind (tbl_get from (accounts d)) (\<lambda>from_account.
     ebind (due_withdrawal F from_account) (\<lambda>to_withdraw.
     ebind (efold (route_vests F (acc_name from_account) to_withdraw) (routes_from from d) (0, d))
       (\<lambda>(vests_deposited_as_vests, d).
     ebind (efold (route_steem F (acc_name from_account) to_withdraw) (routes_from from d) (0, WLS 0, d))
       (\<lambda>(vests_deposited_as_steem, _, d).
     ebind (fc_sub F to_withdraw vests_deposited_as_steem) (\<lambda>x.
     ebind (fc_sub F x vests_deposited_as_vests) (\<lambda>to_convert.
     require (to_convert \<ge> 0)
     (ebind (asset_mult_price F (VESTS to_convert) (get_vesting_share_price (gpo d))) (\<lambda>converted_steem.
     ebind (modify_account from (finish_withdrawal F to_withdraw converted_steem) d) (\<lambda>d.
     ebind (modify_gpo (\<lambda>g.
         ebind (asset_sub F (gpo_total_vesting_fund_steem g) converted_steem) (\<lambda>f.
         ebind (fc_sub F (amount (gpo_total_vesting_shares g)) to_convert) (\<lambda>v.
         Inr (g\<lparr>gpo_total_vesting_fund_steem := f,
                gpo_total_vesting_shares := (gpo_total_vesting_shares g)\<lparr>amount := v\<rparr>\<rparr>)))) d) (\<lambda>d.
     ebind (if to_withdraw > 0 then
              ebind (fc_neg F to_withdraw) (\<lambda>n. adjust_proxied_witness_votes F from n d)
            else Inr d) (\<lambda>d.
     Inr (push_virtual_operation (fill_vesting_withdraw_operation (acc_name from_account) (acc_name from_account)
       (VESTS to_withdraw) converted_steem) d))))))))))))"

text \<open>
  The loop over the index \<open>by_next_vesting_withdrawal\<close>.  The iterator is advanced before the
  account is modified, so \<open>current\<close> is the id of a row or \<open>None\<close> for \<open>end()\<close>.  \<open>None\<close> as a result
  means that the fuel did not suffice.
\<close>

definition by_next_vesting_withdrawal :: "database \<Rightarrow> int list" where
  "by_next_vesting_withdrawal d = map fst (tbl_sorted (\<lambda>p. acc_next_vesting_withdrawal (snd p)) (accounts d))"

definition successor :: "'a \<Rightarrow> 'a list \<Rightarrow> 'a option" where
  "successor i xs = (case dropWhile (\<lambda>x. x \<noteq> i) xs of _ # y # _ \<Rightarrow> Some y | _ \<Rightarrow> None)"

primrec withdrawals_loop :: "fc_lib \<Rightarrow> nat \<Rightarrow> int option \<Rightarrow> database \<Rightarrow> database result option" where
  "withdrawals_loop F 0 current d = None"
| "withdrawals_loop F (Suc fuel) current d = (case current of
       None \<Rightarrow> Some (Inr d)
     | Some i \<Rightarrow> (case tbl_get i (accounts d) of
         Inl e \<Rightarrow> Some (Inl e)
       | Inr a \<Rightarrow>
           if acc_next_vesting_withdrawal a \<le> head_block_time d then
             let current = successor i (by_next_vesting_withdrawal d) in
             (case process_withdrawal F i d of
                Inl e \<Rightarrow> Some (Inl e)
              | Inr d \<Rightarrow> withdrawals_loop F fuel current d)
           else Some (Inr d)))"

text \<open>How often an account can be due: once per interval since its next withdrawal.\<close>

definition due_intervals :: "time_point_sec \<Rightarrow> account_object \<Rightarrow> nat" where
  "due_intervals now a =
     (if acc_next_vesting_withdrawal a \<le> now
      then Suc (nat ((uint now - uint (acc_next_vesting_withdrawal a)) div WLS_VESTING_WITHDRAW_INTERVAL_SECONDS)) else 0)"

definition due_total :: "database \<Rightarrow> nat" where
  "due_total d = sum_list (map (\<lambda>p. due_intervals (head_block_time d) (snd p)) (rows (accounts d)))"

definition process_vesting_withdrawals :: "fc_lib \<Rightarrow> database \<Rightarrow> database result" where
  "process_vesting_withdrawals F d =
     (let current = (case by_next_vesting_withdrawal d of [] \<Rightarrow> None | i # _ \<Rightarrow> Some i) in
      case withdrawals_loop F (Suc (due_total d)) current d of None \<Rightarrow> Inl nontermination | Some r \<Rightarrow> r)"

section \<open>Inflation: range and monotonicity\<close>

definition year_start :: "nat \<Rightarrow> int" where
  "year_start y = 10000 div 2 ^ y"

definition year_of :: "int \<Rightarrow> nat" where
  "year_of n = nat (min (n div 10512000) 8)"

definition inflation_at :: "int \<Rightarrow> int" where
  "inflation_at n =
     (let start = year_start (year_of n)
      in max (start - (n mod 10512000 * (start - start div 2)) div 10512000) 488)"

lemma inflation_rate_at: "get_current_inflation_rate d = inflation_at (uint (head_block_num d))"
  by (simp only: get_current_inflation_rate_def inflation_at_def year_start_def year_of_def Let_def)

lemma year_start_half: "year_start y div 2 = year_start (Suc y)"
  unfolding year_start_def power_Suc2 by (rule zdiv_zmult2_eq [symmetric]) simp

lemma year_start_nonneg: "0 \<le> year_start y"
  unfolding year_start_def by (rule pos_imp_zdiv_nonneg_iff [THEN iffD2]) simp_all

lemma year_start_antimono: "y \<le> z \<Longrightarrow> year_start z \<le> year_start y"
proof (induction rule: dec_induct)
  case (step n)
  have "year_start (Suc n) \<le> year_start n"
    using year_start_half [of n] year_start_nonneg [of n] by linarith
  then show ?case using step by linarith
qed simp

lemma adjustment_bounds:
  assumes "0 \<le> r" "r < 10512000" "0 \<le> (s :: int)"
  shows "0 \<le> r * s div 10512000" "r * s div 10512000 \<le> s"
proof -
  have "r * s \<le> 10512000 * s" using assms by (intro mult_right_mono) auto
  then show "r * s div 10512000 \<le> s" using zdiv_mono1 [of "r * s" "10512000 * s" 10512000] by simp
  show "0 \<le> r * s div 10512000" using assms by (simp add: pos_imp_zdiv_nonneg_iff)
qed

text \<open>During a year the rate stays between the start rates of that year and of the next one.\<close>

lemma inflation_at_between:
  assumes "0 \<le> n"
  shows "inflation_at n \<le> max (year_start (year_of n)) 488"
    and "max (year_start (Suc (year_of n))) 488 \<le> inflation_at n"
proof -
  let ?s = "year_start (year_of n)"
  have h: "?s div 2 = year_start (Suc (year_of n))" by (rule year_start_half)
  have "0 \<le> ?s - ?s div 2" using year_start_nonneg [of "year_of n"] by linarith
  then have "0 \<le> (n mod 10512000) * (?s - ?s div 2) div 10512000"
    "(n mod 10512000) * (?s - ?s div 2) div 10512000 \<le> ?s - ?s div 2"
    using adjustment_bounds [of "n mod 10512000" "?s - ?s div 2"] by simp_all
  then show "inflation_at n \<le> max ?s 488" "max (year_start (Suc (year_of n))) 488 \<le> inflation_at n"
    unfolding inflation_at_def Let_def h by linarith+
qed

lemma capped_years: "0 \<le> q \<Longrightarrow> q < r \<Longrightarrow> \<not> Suc (nat (min q 8)) \<le> nat (min r 8) \<Longrightarrow> 8 \<le> (q :: int)"
  by linarith

lemma year_of_capped: "8 \<le> n div 10512000 \<Longrightarrow> year_of n = 8"
  by (simp add: year_of_def min_absorb2)

lemma inflation_at_antimono:
  assumes "0 \<le> m" "m \<le> n"
  shows "inflation_at n \<le> inflation_at m"
proof (cases "m div 10512000 = n div 10512000")
  case True
  let ?s = "year_start (year_of m)"
  have "0 \<le> ?s - ?s div 2" using year_start_nonneg [of "year_of m"] by linarith
  moreover have "m mod 10512000 \<le> n mod 10512000"
    using True assms(2) div_mult_mod_eq [of m 10512000] div_mult_mod_eq [of n 10512000] by linarith
  ultimately have "(m mod 10512000) * (?s - ?s div 2) \<le> (n mod 10512000) * (?s - ?s div 2)"
    by (intro mult_right_mono)
  then have "(m mod 10512000) * (?s - ?s div 2) div 10512000 \<le> (n mod 10512000) * (?s - ?s div 2) div 10512000"
    by (rule zdiv_mono1) simp
  moreover have "year_of n = year_of m" using True by (simp add: year_of_def)
  ultimately show ?thesis unfolding inflation_at_def Let_def by (simp only:) linarith
next
  case False
  have le: "m div 10512000 \<le> n div 10512000" using assms(2) by (rule zdiv_mono1) simp
  have nn: "0 \<le> n" using assms by simp
  show ?thesis
  proof (cases "Suc (year_of m) \<le> year_of n")
    case True
    then show ?thesis
      using inflation_at_between(1) [OF nn] inflation_at_between(2) [OF assms(1)] year_start_antimono [OF True] by linarith
  next
    case F2: False
    have "0 \<le> m div 10512000" using assms(1) by (simp add: pos_imp_zdiv_nonneg_iff)
    moreover have "m div 10512000 < n div 10512000" using le False by (rule le_neq_trans)
    ultimately have m8: "8 \<le> m div 10512000" using F2 unfolding year_of_def by (rule capped_years)
    then have "8 \<le> n div 10512000" using le by (rule order_trans)
    then have "year_of n = 8" "year_of m = 8" using m8 by (simp_all only: year_of_capped)
    then have "inflation_at n \<le> 488" using inflation_at_between(1) [OF nn] by (simp add: year_start_def)
    moreover have "488 \<le> inflation_at m" by (simp add: inflation_at_def Let_def)
    ultimately show ?thesis by simp
  qed
qed

text \<open>
  The inflation rate (in hundredths of a percent) is between 4.88% and 100% at every head
  block, it is 100% at the first block, and it never increases as the chain grows: a database
  with a head block number at least as high has a rate at most as high.
\<close>

theorem inflation_rate_decreases:
  "488 \<le> get_current_inflation_rate d \<and> get_current_inflation_rate d \<le> 10000
   \<and> (head_block_num d = 0 \<longrightarrow> get_current_inflation_rate d = 10000)
   \<and> (head_block_num d \<le> head_block_num d' \<longrightarrow> get_current_inflation_rate d' \<le> get_current_inflation_rate d)"
proof -
  let ?n = "uint (head_block_num d)"
  have "inflation_at ?n \<le> max (year_start (year_of ?n)) 488" by (rule inflation_at_between) simp
  moreover have "year_start (year_of ?n) \<le> year_start 0" by (rule year_start_antimono) simp
  moreover have "year_start 0 = 10000" by (simp add: year_start_def)
  moreover have "488 \<le> inflation_at ?n" by (simp add: inflation_at_def Let_def)
  moreover have "head_block_num d \<le> head_block_num d' \<Longrightarrow> inflation_at (uint (head_block_num d')) \<le> inflation_at ?n"
    by (rule inflation_at_antimono) (simp_all add: word_le_def)
  moreover have "head_block_num d = 0 \<Longrightarrow> inflation_at ?n = 10000" by (simp add: inflation_at_def Let_def year_start_def year_of_def)
  ultimately show ?thesis unfolding inflation_rate_at by auto
qed

theorem inflation_rate_decreases_witness:
  "get_current_inflation_rate (empty_database\<lparr>gpo := default_gpo\<lparr>gpo_head_block_number := 10512000\<rparr>\<rparr>)
   \<le> get_current_inflation_rate empty_database \<and> get_current_inflation_rate empty_database = 10000"
  using inflation_rate_decreases [of empty_database "empty_database\<lparr>gpo := default_gpo\<lparr>gpo_head_block_number := 10512000\<rparr>\<rparr>"]
  by (simp add: head_block_num_def empty_database_def default_gpo_def)

section \<open>The tokens minted per block\<close>

lemma modify_reward_fund_ledger:
  assumes m: "modify_reward_fund i f d = Inr d'" and wf: "wf_db d"
    and k: "\<And>r r'. f r = Inr r' \<Longrightarrow> rfo_reward_balance r' = \<lparr>amount = amount (rfo_reward_balance r) + x, symbol = symbol (rfo_reward_balance r)\<rparr>"
  shows "wf_db d' \<and> ledger d' = (ledger d)\<lparr>L_rewards := L_rewards (ledger d) + x\<rparr> \<and> d' = d\<lparr>reward_funds := reward_funds d'\<rparr>"
proof -
  obtain t where t: "tbl_modify key_reward_fund i f (reward_funds d) = Inr t" "d' = d\<lparr>reward_funds := t\<rparr>"
    using m by (auto simp: modify_reward_fund_def)
  note W = wf_dbD [OF wf]
  obtain r r' where r: "f r = Inr r'" "\<forall>h. tbl_sum h t = tbl_sum h (reward_funds d) - h r + h r'"
    using tbl_modify_sum [OF t(1) W(4)] by blast
  have "tbl_all (\<lambda>r. symbol (rfo_reward_balance r) = WLS_SYMBOL) t"
    using tbl_modify_all [OF t(1) W(5)] k by auto
  then show ?thesis using wf t(2) tbl_modify_ok [OF t(1) W(4)] r(2) k [OF r(1)] by (simp add: wf_db_def ledger_def)
qed

context fc_env
begin

lemma pay_reward_funds_ledger:
  assumes "pay_reward_funds F reward d = Inr (used, d')" "wf_db d"
  shows "wf_db d' \<and> ledger d' = (ledger d)\<lparr>L_rewards := L_rewards (ledger d) + used\<rparr> \<and> d' = d\<lparr>reward_funds := reward_funds d'\<rparr>"
proof -
  define I where "I = (\<lambda>(u, e). wf_db e \<and> ledger e = (ledger d)\<lparr>L_rewards := L_rewards (ledger d) + u\<rparr> \<and> e = d\<lparr>reward_funds := reward_funds e\<rparr>)"
  have "I (used, d')"
    using assms(1) unfolding pay_reward_funds_def
  proof (rule efold_invariant)
    show "I (0, d)" using assms(2) by (simp add: I_def)
  next
    fix p and s s' :: "int \<times> database"
    assume I: "I s" and st: "(case s of (used_rewards, d) \<Rightarrow>
       ebind (fc_mul F reward (uint (rfo_percent_content_rewards (snd p)))) (\<lambda>x.
       ebind (fc_div F x 10000) (\<lambda>r.
       ebind (modify_reward_fund (fst p) (\<lambda>rfo.
           ebind (asset_add F (rfo_reward_balance rfo) (WLS r)) (\<lambda>b. Inr (rfo\<lparr>rfo_reward_balance := b\<rparr>))) d) (\<lambda>d.
       ebind (fc_add F used_rewards r) (\<lambda>used_rewards.
       require (used_rewards \<le> reward) (Inr (used_rewards, d))))))) = Inr s'"
    obtain u e where s: "s = (u, e)" by (cases s)
    obtain r e' where m: "modify_reward_fund (fst p) (\<lambda>rfo.
           ebind (asset_add F (rfo_reward_balance rfo) (WLS r)) (\<lambda>b. Inr (rfo\<lparr>rfo_reward_balance := b\<rparr>))) e = Inr e'"
      and s': "s' = (u + r, e')"
      using st unfolding s by auto
    have "wf_db e' \<and> ledger e' = (ledger e)\<lparr>L_rewards := L_rewards (ledger e) + r\<rparr> \<and> e' = e\<lparr>reward_funds := reward_funds e'\<rparr>"
      using m by (rule modify_reward_fund_ledger) (use I in \<open>auto simp: I_def s\<close>)
    moreover have "e = d\<lparr>reward_funds := reward_funds e\<rparr>" using I by (simp add: I_def s)
    then have "e\<lparr>reward_funds := reward_funds e'\<rparr> = d\<lparr>reward_funds := reward_funds e'\<rparr>" by (metis database.update_convs(8) database.surjective)
    ultimately show "I s'" using I by (simp add: I_def s s')
  qed
  then show ?thesis by (simp add: I_def)
qed

lemma mint_rewards_ledger:
  assumes "mint_rewards F c dev w cwit d = Inr d'" "wf_db d"
  shows "\<exists>v. wf_db d' \<and> ledger d' = (ledger d)\<lparr>L_supply := L_supply (ledger d) + (c + dev + w),
      L_steem := L_steem (ledger d) + dev, L_fund := L_fund (ledger d) + w,
      L_shares := L_shares (ledger d) + v, L_vests := L_vests (ledger d) + v, L_vsf := L_vsf (ledger d) + v\<rparr>"
proof -
  let ?dev = "\<lambda>a. ebind (asset_add F (acc_balance a) (WLS dev)) (\<lambda>b. Inr (a\<lparr>acc_balance := b\<rparr>))"
  obtain d2 pr v d3 i where
    g: "modify_gpo (\<lambda>p. ebind (asset_add F (gpo_current_supply p) (WLS (c + dev + w))) (\<lambda>s.
        Inr (p\<lparr>gpo_current_supply := s\<rparr>))) d = Inr d2"
    and cv: "create_vesting F pr (WLS w) False d2 = Inr (v, d3)"
    and m: "modify_account i ?dev (push_virtual_operation (devfund_operation ''devfund'' (WLS dev))
        (push_virtual_operation (producer_reward_operation (wit_owner cwit) v) d3)) = Inr d'"
    using assms(1) unfolding mint_rewards_def Let_def by (clarsimp split: prod.splits)
  have G: "wf_db d2" "ledger d2 = (ledger d)\<lparr>L_supply := L_supply (ledger d) + (c + dev + w)\<rparr>"
    using g assms(2) by (auto simp: modify_gpo_def wf_db_def gpo_ok_def ledger_def)
  have V: "wf_db d3" "ledger d3 = (ledger d2)\<lparr>L_fund := L_fund (ledger d2) + w, L_shares := L_shares (ledger d2) + amount v,
      L_vests := L_vests (ledger d2) + amount v, L_vsf := L_vsf (ledger d2) + amount v\<rparr>"
    using create_vesting_result [OF cv G(1)] cv G(1) by (simp_all add: Let_def)
  let ?e = "push_virtual_operation (devfund_operation ''devfund'' (WLS dev))
        (push_virtual_operation (producer_reward_operation (wit_owner cwit) v) d3)"
  have E: "wf_db ?e" "ledger ?e = ledger d3" using V(1) by (simp_all add: push_virtual_operation_def wf_db_def ledger_def)
  have k: "keeps_ok ?dev" by (auto simp: keeps_ok_def account_ok_def)
  obtain a a' where "?dev a = Inr a'" "wf_db d'" "ledger d' = account_delta a a' (ledger ?e)"
    using modify_account_ledger [OF m E(1) k] by blast
  then have "wf_db d'" "ledger d' = (ledger d3)\<lparr>L_steem := L_steem (ledger d3) + dev\<rparr>"
    using E(2) by (auto simp: account_delta_def steem_of_def vests_of_def vsf_votes_def)
  then show ?thesis using G(2) V(2) by (intro exI [of _ "amount v"]) simp
qed

lemma process_funds_ledger:
  assumes "process_funds F d = Inr d'" "wf_db d"
  shows "wf_db d' \<and> (balanced (ledger d) \<longrightarrow> balanced (ledger d'))"
proof -
  obtain c0 c d1 dev w cwit where r: "pay_reward_funds F c0 d = Inr (c, d1)" and m: "mint_rewards F c dev w cwit d1 = Inr d'"
    using assms(1) unfolding process_funds_def Let_def by (clarsimp split: prod.splits)
  have "wf_db d1" "ledger d1 = (ledger d)\<lparr>L_rewards := L_rewards (ledger d) + c\<rparr>"
    using pay_reward_funds_ledger [OF r assms(2)] by auto
  with mint_rewards_ledger [OF m] show ?thesis by (auto simp: balanced_def)
qed

end

section \<open>Vesting withdrawals keep the ledger\<close>

text \<open>What deposits do to an account: more shares, and no change of its withdrawal schedule.\<close>

definition deposited :: "account_object \<Rightarrow> account_object \<Rightarrow> bool" where
  "deposited a a' \<longleftrightarrow> acc_next_vesting_withdrawal a' = acc_next_vesting_withdrawal a
     \<and> acc_to_withdraw a' = acc_to_withdraw a \<and> acc_vesting_withdraw_rate a' = acc_vesting_withdraw_rate a
     \<and> amount (acc_vesting_shares a) \<le> amount (acc_vesting_shares a')
     \<and> (in64 (amount (acc_vesting_shares a)) \<longrightarrow> in64 (amount (acc_vesting_shares a')))"

lemma deposited_refl: "deposited a a"
  by (simp add: deposited_def)

lemma deposited_trans: "deposited a b \<Longrightarrow> deposited b c \<Longrightarrow> deposited a c"
  by (auto simp: deposited_def)

definition frame :: "database \<Rightarrow> database \<Rightarrow> bool" where
  "frame d e \<longleftrightarrow> withdraw_routes e = withdraw_routes d \<and> head_block_time e = head_block_time d
     \<and> rows_rel deposited (accounts d) (accounts e)"

lemma frame_refl [simp]: "frame d d"
  by (simp add: frame_def rows_rel_refl deposited_refl)

lemma frame_trans: "frame d e \<Longrightarrow> frame e f \<Longrightarrow> frame d f"
  using rows_rel_trans [OF _ _ deposited_trans] by (auto simp: frame_def)

lemma frame_modify_account:
  assumes "modify_account i f d = Inr d'" "table_ok (accounts d)" "\<And>a a'. f a = Inr a' \<Longrightarrow> deposited a a'"
  shows "frame d d' \<and> table_ok (accounts d')"
proof -
  obtain t where t: "tbl_modify key_account i f (accounts d) = Inr t" "d' = d\<lparr>accounts := t\<rparr>"
    using assms(1) by (auto simp: modify_account_def)
  show ?thesis
    using tbl_modify_rel [where R = deposited, OF t(1) assms(2) deposited_refl assms(3)] tbl_modify_ok [OF t(1) assms(2)]
    by (simp add: frame_def t(2) head_block_time_def)
qed

lemma frame_push [simp]: "frame d (push_virtual_operation v e) \<longleftrightarrow> frame d e"
  by (simp add: frame_def push_virtual_operation_def head_block_time_def)

lemma money_push [simp]: "wf_db (push_virtual_operation v e) = wf_db e" "ledger (push_virtual_operation v e) = ledger e"
  by (simp_all add: push_virtual_operation_def wf_db_def ledger_def)

lemma adjust_witness_votes_frame:
  assumes "adjust_witness_votes F a delta d = Inr d'"
  shows "frame d d' \<and> accounts d' = accounts d"
  using assms unfolding adjust_witness_votes_def
proof (rule efold_related [where R = "\<lambda>d d'. frame d d' \<and> accounts d' = accounts d"])
  fix x t t' assume "frame d t \<and> accounts t = accounts d"
    and "ebind (tbl_get (wvo_witness (snd x)) (witnesses t)) (\<lambda>_. adjust_witness_vote F (wvo_witness (snd x)) delta t) = Inr t'"
  then show "frame d t' \<and> accounts t' = accounts d"
    by (auto simp: adjust_witness_vote_def Let_def modify_witness_def frame_def head_block_time_def)
qed simp

context fc_env
begin

lemma adjust_proxied_frame:
  assumes "adjust_proxied_witness_votes_at F left a delta d = Inr d'" "table_ok (accounts d)"
  shows "frame d d'"
  using assms
proof (induction left arbitrary: a d)
  case 0
  then show ?case using adjust_witness_votes_frame [of F a delta d d']
    by (auto split: if_splits)
next
  case (Suc left)
  obtain acc where acc: "tbl_get a (accounts d) = Inr acc" using Suc.prems(1) by auto
  show ?case
  proof (cases "acc_proxy acc = []")
    case True
    then show ?thesis using Suc.prems(1) acc adjust_witness_votes_frame [of F a delta d d'] by simp
  next
    case False
    then obtain p d1 where m: "modify_account p (add_proxied F (4 - Suc left) delta) d = Inr d1"
      and r: "adjust_proxied_witness_votes_at F left p delta d1 = Inr d'"
      using Suc.prems(1) acc by auto
    have "frame d d1 \<and> table_ok (accounts d1)"
      using m Suc.prems(2) by (rule frame_modify_account) (auto simp: add_proxied_def deposited_def)
    then show ?thesis using Suc.IH [OF r] frame_trans by blast
  qed
qed

lemma grant_shares:
  assumes m: "modify_account i (\<lambda>a. ebind (fc_add F (amount (acc_vesting_shares a)) x) (\<lambda>v.
             Inr (a\<lparr>acc_vesting_shares := (acc_vesting_shares a)\<lparr>amount := v\<rparr>\<rparr>))) d = Inr d1"
    and p: "adjust_proxied_witness_votes F i x d1 = Inr d2" and wf: "wf_db d" and x: "0 \<le> x"
  shows "wf_db d2 \<and> frame d d2 \<and> ledger d2 = (ledger d)\<lparr>L_vests := L_vests (ledger d) + x, L_vsf := L_vsf (ledger d) + x\<rparr>"
proof -
  let ?f = "\<lambda>a. ebind (fc_add F (amount (acc_vesting_shares a)) x) (\<lambda>v.
             Inr (a\<lparr>acc_vesting_shares := (acc_vesting_shares a)\<lparr>amount := v\<rparr>\<rparr>))"
  have k: "keeps_ok ?f" by (auto simp: keeps_ok_def account_ok_def)
  obtain a a' where a: "?f a = Inr a'" "wf_db d1" "ledger d1 = account_delta a a' (ledger d)"
    "map_of (rows (accounts d1)) i = Some a'"
    using modify_account_ledger [OF m wf k] by auto
  have f1: "frame d d1 \<and> table_ok (accounts d1)"
    using m wf_dbD(1) [OF wf] by (rule frame_modify_account) (use x in \<open>auto simp: deposited_def\<close>)
  note p4 = p [unfolded adjust_proxied_witness_votes_def]
  have "wf_db d2" "ledger d2 = (ledger d1)\<lparr>L_vsf := L_vsf (ledger d1) + (if \<not> self_proxy a' then x else 0)\<rparr>"
    using adjust_proxied_ledger [OF p4 a(2) _ a(4)] by auto
  moreover have "ledger d1 = (ledger d)\<lparr>L_vests := L_vests (ledger d) + x,
        L_vsf := L_vsf (ledger d) + (if self_proxy a' then x else 0)\<rparr>"
    using a(1,3) by (auto simp: account_delta_def steem_of_def vests_of_def vsf_votes_def self_proxy_def)
  moreover have "frame d d2" using f1 adjust_proxied_frame [OF p4] frame_trans by blast
  ultimately show ?thesis by auto
qed

lemma route_share_result:
  assumes "route_share F w p = Inr x" "0 \<le> w" "w < 2 ^ 63" "unat p \<le> 10000"
  shows "x = w * uint p div 10000 \<and> 0 \<le> x \<and> x \<le> w"
proof -
  let ?q = "(to_u128 w * ucast p) div 10000 :: u128"
  have p: "uint p \<le> 10000" "0 \<le> uint p" using assms(4) uint_nat [of p] by linarith+
  then have p3: "uint p < 2 ^ 63" by simp
  have u: "ucast p = to_u128 (uint p)" "(10000 :: u128) = to_u128 10000"
    by (simp_all add: to_u128_def)
  have q: "uint ?q = w * uint p div 10000"
    unfolding u using assms(2,3) p(2) p3 by (rule u128_muldiv) simp_all
  have "w * uint p \<le> w * 10000" using p(1) assms(2) by (rule mult_left_mono)
  then have "w * uint p div 10000 \<le> w * 10000 div 10000" by (rule zdiv_mono1) simp
  then have le: "w * uint p div 10000 \<le> w" by (simp only: nonzero_mult_div_cancel_right)
  have "0 \<le> w * uint p" using assms(2) p(2) by (rule mult_nonneg_nonneg)
  then have nn: "0 \<le> w * uint p div 10000" by (simp only: pos_imp_zdiv_nonneg_iff)
  have "sint (ucast ?q :: u64) = uint ?q"
    by (rule sint_ucast_u128) (use q le assms(3) in linarith)
  moreover have "x = sint (ucast ?q :: u64)" using assms(1) by (auto simp: route_share_def)
  ultimately show ?thesis using q le nn by simp
qed

lemma route_vests_step:
  assumes "route_vests F nm w r (v, d) = Inr (v', d')" "wf_db d" "0 \<le> w" "w < 2 ^ 63"
    and "unat (wro_percent (snd r)) \<le> 10000"
  shows "\<exists>x. v' = v + x \<and> wf_db d' \<and> frame d d'
    \<and> ledger d' = (ledger d)\<lparr>L_vests := L_vests (ledger d) + x, L_vsf := L_vsf (ledger d) + x\<rparr>"
proof (cases "wro_auto_vest (snd r)")
  case False
  then show ?thesis using assms by (auto simp: route_vests_def)
next
  case True
  then obtain x where x: "route_share F w (wro_percent (snd r)) = Inr x" and v': "v' = v + x"
    using assms(1) by (auto simp: route_vests_def split: if_splits)
  have nn: "0 \<le> x" using route_share_result [OF x assms(3-5)] by simp
  show ?thesis
  proof (cases "0 < x")
    case False
    then have "x = 0" using nn by simp
    then show ?thesis using assms(1,2) True x v' by (auto simp: route_vests_def)
  next
    case pos: True
    obtain d1 d2 vop where "modify_account (wro_to_account (snd r)) (\<lambda>a. ebind (fc_add F (amount (acc_vesting_shares a)) x) (\<lambda>v.
             Inr (a\<lparr>acc_vesting_shares := (acc_vesting_shares a)\<lparr>amount := v\<rparr>\<rparr>))) d = Inr d1"
      and "adjust_proxied_witness_votes F (wro_to_account (snd r)) x d1 = Inr d2"
      and d': "d' = push_virtual_operation vop d2"
      using assms(1) True x pos unfolding route_vests_def by (auto split: if_splits)
    from grant_shares [OF this(1,2) assms(2) nn] show ?thesis using v' d' by auto
  qed
qed

lemma route_steem_step:
  assumes "route_steem F nm w r (v, c, d) = Inr (v', c', d')" "wf_db d" "0 \<le> w" "w < 2 ^ 63"
    and "unat (wro_percent (snd r)) \<le> 10000"
  shows "\<exists>x y. v' = v + x \<and> wf_db d' \<and> frame d d' \<and> ledger d' = (ledger d)\<lparr>L_steem := L_steem (ledger d) + y,
    L_fund := L_fund (ledger d) - y, L_shares := L_shares (ledger d) - x\<rparr>"
proof (cases "wro_auto_vest (snd r)")
  case True
  then show ?thesis using assms by (intro exI [of _ 0]) (auto simp: route_steem_def)
next
  case False
  then obtain x cv where x: "route_share F w (wro_percent (snd r)) = Inr x" and v': "v' = v + x"
    and cv: "asset_mult_price F (VESTS x) (get_vesting_share_price (gpo d)) = Inr cv"
    using assms(1) by (auto simp: route_steem_def split: if_splits)
  have nn: "0 \<le> x" using route_share_result [OF x assms(3-5)] by simp
  show ?thesis
  proof (cases "0 < x")
    case False
    then have "x = 0" using nn by simp
    then show ?thesis using assms(1,2) \<open>\<not> wro_auto_vest (snd r)\<close> x v'
      by (intro exI [of _ 0]) (auto simp: route_steem_def)
  next
    case pos: True
    let ?f = "\<lambda>a. ebind (asset_add F (acc_balance a) cv) (\<lambda>b. Inr (a\<lparr>acc_balance := b\<rparr>))"
    obtain d1 d2 vop where m: "modify_account (wro_to_account (snd r)) ?f d = Inr d1"
      and g: "modify_gpo (\<lambda>g. ebind (asset_sub F (gpo_total_vesting_fund_steem g) cv) (\<lambda>f.
             ebind (fc_sub F (amount (gpo_total_vesting_shares g)) x) (\<lambda>v.
             Inr (g\<lparr>gpo_total_vesting_fund_steem := f,
                    gpo_total_vesting_shares := (gpo_total_vesting_shares g)\<lparr>amount := v\<rparr>\<rparr>)))) d1 = Inr d2"
      and d': "d' = push_virtual_operation vop d2"
      using assms(1) False x cv pos unfolding route_steem_def by (auto split: if_splits)
    have k: "keeps_ok ?f" by (auto simp: keeps_ok_def account_ok_def)
    obtain a a' where a: "?f a = Inr a'" "wf_db d1" "ledger d1 = account_delta a a' (ledger d)"
      using modify_account_ledger [OF m assms(2) k] by auto
    have l1: "ledger d1 = (ledger d)\<lparr>L_steem := L_steem (ledger d) + amount cv\<rparr>"
      using a(1,3) by (auto simp: account_delta_def steem_of_def vests_of_def vsf_votes_def)
    have f1: "frame d d1"
      using frame_modify_account [OF m wf_dbD(1) [OF assms(2)]] by (auto simp: deposited_def)
    have "wf_db d2" "frame d1 d2" "ledger d2 = (ledger d1)\<lparr>L_fund := L_fund (ledger d1) - amount cv, L_shares := L_shares (ledger d1) - x\<rparr>"
      using g a(2) by (auto simp: modify_gpo_def wf_db_def gpo_ok_def ledger_def frame_def head_block_time_def rows_rel_refl deposited_refl)
    then show ?thesis using l1 f1 v' d' frame_trans by (intro exI [of _ x] exI [of _ "amount cv"]) auto
  qed
qed

lemma route_vests_all:
  assumes "efold (route_vests F nm w) rs (0, d) = Inr (v, d')" "wf_db d" "0 \<le> w" "w < 2 ^ 63"
    and "\<forall>r\<in>set rs. unat (wro_percent (snd r)) \<le> 10000"
  shows "wf_db d' \<and> frame d d' \<and> ledger d' = (ledger d)\<lparr>L_vests := L_vests (ledger d) + v, L_vsf := L_vsf (ledger d) + v\<rparr>"
proof -
  define I where "I = (\<lambda>(v, e). wf_db e \<and> frame d e
    \<and> ledger e = (ledger d)\<lparr>L_vests := L_vests (ledger d) + v, L_vsf := L_vsf (ledger d) + v\<rparr>)"
  have "I (v, d')"
    using assms(1)
  proof (rule efold_invariant)
    show "I (0, d)" using assms(2) by (simp add: I_def)
  next
    fix r s s' assume r: "r \<in> set rs" and I: "I s" and st: "route_vests F nm w r s = Inr s'"
    obtain u e u' e' where s: "s = (u, e)" "s' = (u', e')" by (cases s; cases s')
    have e: "wf_db e" "frame d e" using I by (simp_all add: I_def s)
    obtain x where x: "u' = u + x" "wf_db e'" "frame e e'"
      "ledger e' = (ledger e)\<lparr>L_vests := L_vests (ledger e) + x, L_vsf := L_vsf (ledger e) + x\<rparr>"
      using route_vests_step [OF st [unfolded s] e(1) assms(3,4)] r assms(5) by blast
    have "frame d e'" by (rule frame_trans [OF e(2) x(3)])
    then show "I s'" using I x(1,2,4) by (simp add: I_def s)
  qed
  then show ?thesis by (simp add: I_def)
qed

lemma route_steem_all:
  assumes "efold (route_steem F nm w) rs (0, WLS 0, d) = Inr (v, c, d')" "wf_db d" "0 \<le> w" "w < 2 ^ 63"
    and "\<forall>r\<in>set rs. unat (wro_percent (snd r)) \<le> 10000"
  shows "\<exists>y. wf_db d' \<and> frame d d' \<and> ledger d' = (ledger d)\<lparr>L_steem := L_steem (ledger d) + y,
    L_fund := L_fund (ledger d) - y, L_shares := L_shares (ledger d) - v\<rparr>"
proof -
  define I where "I = (\<lambda>(v, c :: asset, e). \<exists>y. wf_db e \<and> frame d e
    \<and> ledger e = (ledger d)\<lparr>L_steem := L_steem (ledger d) + y, L_fund := L_fund (ledger d) - y, L_shares := L_shares (ledger d) - v\<rparr>)"
  have "I (v, c, d')"
    using assms(1)
  proof (rule efold_invariant)
    show "I (0, WLS 0, d)" using assms(2) by (auto simp: I_def intro!: exI [of _ 0])
  next
    fix r s s' assume r: "r \<in> set rs" and I: "I s" and st: "route_steem F nm w r s = Inr s'"
    obtain u k e u' k' e' where s: "s = (u, k, e)" "s' = (u', k', e')" by (cases s; cases s')
    obtain y where e: "wf_db e" "frame d e" and l: "ledger e = (ledger d)\<lparr>L_steem := L_steem (ledger d) + y,
      L_fund := L_fund (ledger d) - y, L_shares := L_shares (ledger d) - u\<rparr>"
      using I by (auto simp: I_def s)
    obtain x z where x: "u' = u + x" "wf_db e'" "frame e e'"
      "ledger e' = (ledger e)\<lparr>L_steem := L_steem (ledger e) + z, L_fund := L_fund (ledger e) - z, L_shares := L_shares (ledger e) - x\<rparr>"
      using route_steem_step [OF st [unfolded s] e(1) assms(3,4)] r assms(5) by blast
    have "frame d e'" by (rule frame_trans [OF e(2) x(3)])
    then show "I s'" using l x(1,2,4) by (auto simp: I_def s intro!: exI [of _ "y + z"])
  qed
  then show ?thesis by (simp add: I_def)
qed

end

text \<open>The signs that the withdrawal schedule of an account keeps.\<close>

definition withdrawal_ok :: "account_object \<Rightarrow> bool" where
  "withdrawal_ok a \<longleftrightarrow> 0 \<le> amount (acc_vesting_shares a) \<and> in64 (amount (acc_vesting_shares a))
     \<and> 0 \<le> amount (acc_vesting_withdraw_rate a) \<and> 0 \<le> acc_to_withdraw a"

definition withdrawals_ok :: "database \<Rightarrow> bool" where
  "withdrawals_ok d \<longleftrightarrow> tbl_all withdrawal_ok (accounts d)
     \<and> tbl_all (\<lambda>r. unat (wro_percent r) \<le> 10000) (withdraw_routes d)"

lemma withdrawals_ok_frame: "withdrawals_ok d \<Longrightarrow> frame d e \<Longrightarrow> withdrawals_ok e"
  by (auto simp: withdrawals_ok_def frame_def withdrawal_ok_def deposited_def elim!: rows_rel_all)

lemma routes_from_ok:
  assumes "withdrawals_ok d" "r \<in> set (routes_from i d)"
  shows "unat (wro_percent (snd r)) \<le> 10000"
  using assms by (auto simp: withdrawals_ok_def routes_from_def tbl_all_def)

lemma int_sum_list: "int (sum_list (map f xs)) = sum_list (map (\<lambda>x. int (f x)) xs)"
  by (induction xs) auto

lemma due_total_sum: "int (due_total d) = tbl_sum (\<lambda>a. int (due_intervals (head_block_time d) a)) (accounts d)"
  by (simp add: due_total_def tbl_sum_def int_sum_list)

lemma due_total_frame:
  assumes "frame d e"
  shows "due_total e = due_total d"
proof -
  have "map (\<lambda>p. (fst p, acc_next_vesting_withdrawal (snd p))) (rows (accounts e))
      = map (\<lambda>p. (fst p, acc_next_vesting_withdrawal (snd p))) (rows (accounts d))"
    by (rule rows_rel_map [of deposited]) (use assms in \<open>auto simp: frame_def deposited_def\<close>)
  then have "map (\<lambda>p. acc_next_vesting_withdrawal (snd p)) (rows (accounts e))
      = map (\<lambda>p. acc_next_vesting_withdrawal (snd p)) (rows (accounts d))"
    by (metis (mono_tags, lifting) map_map comp_def snd_conv map_eq_conv)
  then have "map (\<lambda>p. due_intervals (head_block_time d) (snd p)) (rows (accounts e))
      = map (\<lambda>p. due_intervals (head_block_time d) (snd p)) (rows (accounts d))"
    unfolding due_intervals_def by (auto simp: map_equality_iff)
  then show ?thesis using assms by (simp add: due_total_def frame_def)
qed

lemma next_interval:
  assumes "(t :: u32) \<le> now" "uint now < 2 ^ 32 - 604800"
  shows "uint (t + 604800) = uint t + 604800"
proof -
  have u: "uint (604800 :: u32) = 604800" by simp
  have "uint t \<le> uint now" using assms(1) by (simp only: word_le_def)
  then have "uint t + uint (604800 :: u32) < 2 ^ 32" using assms(2) unfolding u by linarith
  then have "uint (t + 604800) = uint t + uint (604800 :: u32)" using uint_add_lem [of t 604800] by simp
  then show ?thesis unfolding u .
qed

lemma interval_less:
  fixes t now :: int
  assumes "t \<le> now"
  shows "(if t + 604800 \<le> now then Suc (nat ((now - (t + 604800)) div 604800)) else 0) < Suc (nat ((now - t) div 604800))"
proof (cases "t + 604800 \<le> now")
  case True
  then have "0 \<le> (now - (t + 604800)) div 604800" by (simp add: pos_imp_zdiv_nonneg_iff)
  moreover have "(now - t) div 604800 = (now - (t + 604800)) div 604800 + 1"
    using div_add_self2 [of "604800 :: int" "now - (t + 604800)"] by simp
  ultimately show ?thesis using True by (simp add: nat_add_distrib)
qed simp

lemma modify_account_all_at:
  assumes "modify_account i f d = Inr d'" "tbl_all P (accounts d)"
    and "\<And>a a'. map_of (rows (accounts d)) i = Some a \<Longrightarrow> f a = Inr a' \<Longrightarrow> P a'"
  shows "tbl_all P (accounts d')"
proof -
  obtain t where t: "tbl_modify key_account i f (accounts d) = Inr t" "d' = d\<lparr>accounts := t\<rparr>"
    using assms(1) by (auto simp: modify_account_def)
  obtain a a' where E: "map_of (rows (accounts d)) i = Some a" "f a = Inr a'" "rows t = map_assign i a' (rows (accounts d))"
    using t(1) by (rule tbl_modify_elim)
  then show ?thesis using assms(2) assms(3) [OF E(1,2)] t(2) by (auto simp: tbl_all_def dest!: set_assign)
qed

lemma modify_account_due:
  assumes "modify_account i f d = Inr d'" "table_ok (accounts d)"
    and "\<And>a a'. map_of (rows (accounts d)) i = Some a \<Longrightarrow> f a = Inr a' \<Longrightarrow> due_intervals (head_block_time d) a' < due_intervals (head_block_time d) a"
  shows "due_total d' < due_total d"
proof -
  obtain t where t: "tbl_modify key_account i f (accounts d) = Inr t" "d' = d\<lparr>accounts := t\<rparr>"
    using assms(1) by (auto simp: modify_account_def)
  obtain a a' where a: "map_of (rows (accounts d)) i = Some a" "f a = Inr a'" "\<forall>h. tbl_sum h t = tbl_sum h (accounts d) - h a + h a'"
    using tbl_modify_sum [OF t(1) assms(2)] by blast
  have "head_block_time d' = head_block_time d" using t(2) by (simp add: head_block_time_def)
  then have "int (due_total d') = int (due_total d) - int (due_intervals (head_block_time d) a) + int (due_intervals (head_block_time d) a')"
    unfolding due_total_sum using a(3) t(2) by simp
  then show ?thesis using assms(3) [OF a(1,2)] by linarith
qed

context fc_env
begin

lemma due_withdrawal_bounds:
  assumes "due_withdrawal F a = Inr w" "withdrawal_ok a"
  shows "0 \<le> w \<and> w \<le> amount (acc_vesting_shares a) \<and> w < 2 ^ 63"
proof -
  have "0 \<le> tmod (acc_to_withdraw a) (amount (acc_vesting_withdraw_rate a))"
    if "amount (acc_vesting_withdraw_rate a) \<noteq> 0"
    using that assms(2) tmod_nonneg [of "acc_to_withdraw a" "amount (acc_vesting_withdraw_rate a)"]
    by (simp add: withdrawal_ok_def)
  then have "0 \<le> w \<and> w \<le> amount (acc_vesting_shares a)"
    using assms by (auto simp: due_withdrawal_def withdrawal_ok_def split: if_splits)
  then show ?thesis using assms(2) by (auto simp: withdrawal_ok_def in64_def)
qed

lemma finish_withdrawal_account:
  assumes "finish_withdrawal F w c a = Inr a'" "account_ok a"
  shows "account_ok a' \<and> acc_proxy a' = acc_proxy a \<and> acc_proxied_vsf_votes a' = acc_proxied_vsf_votes a
    \<and> account_delta a a' l = l\<lparr>L_vests := L_vests l - w, L_steem := L_steem l + amount c,
        L_vsf := L_vsf l - (if self_proxy a then w else 0)\<rparr>"
  using assms unfolding finish_withdrawal_def Let_def
  by (auto simp: account_ok_def account_delta_def steem_of_def vests_of_def vsf_votes_def self_proxy_def split: if_splits)

lemma finish_withdrawal_due:
  assumes "finish_withdrawal F w c a = Inr a'" "acc_next_vesting_withdrawal a \<le> now" "uint now < 2 ^ 32 - 604800"
  shows "due_intervals now a' < due_intervals now a"
proof -
  have n: "uint (acc_next_vesting_withdrawal a) \<le> uint now" using assms(2) by (simp add: word_le_def)
  consider "acc_next_vesting_withdrawal a' = 0xFFFFFFFF" | "acc_next_vesting_withdrawal a' = acc_next_vesting_withdrawal a + 604800"
    using assms(1) unfolding finish_withdrawal_def Let_def by (auto split: if_splits)
  then show ?thesis
  proof cases
    case 1
    then have "\<not> acc_next_vesting_withdrawal a' \<le> now" using assms(3) by (simp add: word_le_def)
    then show ?thesis using assms(2) by (simp add: due_intervals_def)
  next
    case 2
    show ?thesis
      using interval_less [OF n] assms(2) unfolding due_intervals_def 2 word_le_def next_interval [OF assms(2,3)] by simp
  qed
qed

lemma process_withdrawal_result:
  assumes p: "process_withdrawal F i d = Inr d'" and wf: "wf_db d" and ok: "withdrawals_ok d"
  shows "wf_db d' \<and> withdrawals_ok d' \<and> head_block_time d' = head_block_time d
    \<and> (balanced (ledger d) \<longrightarrow> balanced (ledger d'))
    \<and> (\<forall>a. tbl_get i (accounts d) = Inr a \<and> acc_next_vesting_withdrawal a \<le> head_block_time d
         \<and> uint (head_block_time d) < 2 ^ 32 - 604800 \<longrightarrow> due_total d' < due_total d)"
proof -
  obtain fa w v d1 u k d2 tc cv d3 d4 d5 vop where
    fa: "tbl_get i (accounts d) = Inr fa" and w: "due_withdrawal F fa = Inr w"
    and p1: "efold (route_vests F (acc_name fa) w) (routes_from i d) (0, d) = Inr (v, d1)"
    and p2: "efold (route_steem F (acc_name fa) w) (routes_from i d1) (0, WLS 0, d1) = Inr (u, k, d2)"
    and tc: "tc = w - u - v"
    and m: "modify_account i (finish_withdrawal F w cv) d2 = Inr d3"
    and g: "modify_gpo (\<lambda>g. ebind (asset_sub F (gpo_total_vesting_fund_steem g) cv) (\<lambda>f.
         ebind (fc_sub F (amount (gpo_total_vesting_shares g)) tc) (\<lambda>v.
         Inr (g\<lparr>gpo_total_vesting_fund_steem := f,
                gpo_total_vesting_shares := (gpo_total_vesting_shares g)\<lparr>amount := v\<rparr>\<rparr>)))) d3 = Inr d4"
    and a: "(if w > 0 then ebind (fc_neg F w) (\<lambda>n. adjust_proxied_witness_votes F i n d4) else Inr d4) = Inr d5"
    and d': "d' = push_virtual_operation vop d5"
    using p unfolding process_withdrawal_def by (clarsimp split: prod.splits)
  have fa': "map_of (rows (accounts d)) i = Some fa" using fa by (auto simp: tbl_get_def split: option.splits)
  have wb: "0 \<le> w" "w \<le> amount (acc_vesting_shares fa)" "w < 2 ^ 63"
    using due_withdrawal_bounds [OF w] tbl_allD [OF _ fa'] ok by (auto simp: withdrawals_ok_def)
  have D1: "wf_db d1" "frame d d1" "ledger d1 = (ledger d)\<lparr>L_vests := L_vests (ledger d) + v, L_vsf := L_vsf (ledger d) + v\<rparr>"
    using route_vests_all [OF p1 wf wb(1,3)] routes_from_ok [OF ok] by auto
  have ok1: "withdrawals_ok d1" by (rule withdrawals_ok_frame [OF ok D1(2)])
  obtain y where D2: "wf_db d2" "frame d1 d2" "ledger d2 = (ledger d1)\<lparr>L_steem := L_steem (ledger d1) + y,
    L_fund := L_fund (ledger d1) - y, L_shares := L_shares (ledger d1) - u\<rparr>"
    using route_steem_all [OF p2 D1(1) wb(1,3)] routes_from_ok [OF ok1] by auto
  have F2: "frame d d2" by (rule frame_trans [OF D1(2) D2(2)])
  have ok2: "withdrawals_ok d2" by (rule withdrawals_ok_frame [OF ok F2])
  have k: "keeps_ok (finish_withdrawal F w cv)"
    using finish_withdrawal_account unfolding keeps_ok_def by blast
  obtain a a' where A: "map_of (rows (accounts d2)) i = Some a" "finish_withdrawal F w cv a = Inr a'" "account_ok a"
    "wf_db d3" "ledger d3 = account_delta a a' (ledger d2)" "map_of (rows (accounts d3)) i = Some a'"
    using modify_account_ledger [OF m D2(1) k] by auto
  note A2 = finish_withdrawal_account [OF A(2,3), of "ledger d2"]
  have D4: "wf_db d4" "frame d3 d4" "accounts d4 = accounts d3"
    "ledger d4 = (ledger d3)\<lparr>L_fund := L_fund (ledger d3) - amount cv, L_shares := L_shares (ledger d3) - tc\<rparr>"
    using g A(4) by (auto simp: modify_gpo_def wf_db_def gpo_ok_def ledger_def frame_def head_block_time_def rows_rel_refl deposited_refl)
  have D5: "wf_db d5 \<and> frame d4 d5 \<and> ledger d5 = (ledger d4)\<lparr>L_vsf := L_vsf (ledger d4) - (if self_proxy a' then 0 else w)\<rparr>"
  proof (cases "w > 0")
    case False
    then show ?thesis using a wb(1) D4(1) by simp
  next
    case True
    then have ad: "adjust_proxied_witness_votes_at F 4 i (- w) d4 = Inr d5"
      using a by (simp add: adjust_proxied_witness_votes_def)
    have "map_of (rows (accounts d4)) i = Some a'" using A(6) D4(3) by simp
    from adjust_proxied_ledger [OF ad D4(1) _ this] adjust_proxied_frame [OF ad wf_dbD(1) [OF D4(1)]]
    show ?thesis by auto
  qed
  have vs: "w \<le> amount (acc_vesting_shares a)" "acc_next_vesting_withdrawal a = acc_next_vesting_withdrawal fa"
    using rows_rel_lookup [of deposited "accounts d" "accounts d2" i fa] F2 fa' A(1) wb(2)
    by (auto simp: frame_def deposited_def)
  have F5: "frame d3 d'" using D4(2) D5 frame_trans d' by auto
  have t23: "withdraw_routes d3 = withdraw_routes d2" "head_block_time d3 = head_block_time d2"
    using m by (auto simp: modify_account_def head_block_time_def)
  have "tbl_all withdrawal_ok (accounts d3)"
  proof (rule modify_account_all_at [OF m])
    show "tbl_all withdrawal_ok (accounts d2)" using ok2 by (simp add: withdrawals_ok_def)
    then have "withdrawal_ok a" using A(1) by (rule tbl_allD)
    then show "withdrawal_ok b'" if "map_of (rows (accounts d2)) i = Some b" "finish_withdrawal F w cv b = Inr b'" for b b'
      using that A(1) vs(1) unfolding finish_withdrawal_def Let_def
      by (auto simp: withdrawal_ok_def split: if_splits)
  qed
  then have "withdrawals_ok d3" using ok2 t23(1) by (simp add: withdrawals_ok_def)
  then have R1: "withdrawals_ok d'" using F5 by (rule withdrawals_ok_frame)
  have R2: "head_block_time d' = head_block_time d" using F5 F2 t23(2) by (simp add: frame_def)
  have R3: "wf_db d'" using D5 d' by simp
  have "ledger d' = (ledger d)\<lparr>L_vests := L_vests (ledger d) + v - w, L_vsf := L_vsf (ledger d) + v - w,
      L_steem := L_steem (ledger d) + y + amount cv, L_fund := L_fund (ledger d) - y - amount cv,
      L_shares := L_shares (ledger d) - u - tc\<rparr>"
    using D1(3) D2(3) A(5) A2 D4(4) D5 d' by (auto simp: self_proxy_def)
  then have R4: "balanced (ledger d) \<longrightarrow> balanced (ledger d')" using tc by (auto simp: balanced_def)
  have R5: "due_total d' < due_total d"
    if "acc_next_vesting_withdrawal fa \<le> head_block_time d" "uint (head_block_time d) < 2 ^ 32 - 604800"
  proof -
    have h: "head_block_time d2 = head_block_time d" using F2 by (simp add: frame_def)
    have "due_total d3 < due_total d2"
      by (rule modify_account_due [OF m wf_dbD(1) [OF D2(1)]])
         (use A(1) vs(2) that h in \<open>auto intro!: finish_withdrawal_due\<close>)
    then show ?thesis using due_total_frame [OF F2] due_total_frame [OF F5] by simp
  qed
  show ?thesis using R1 R2 R3 R4 R5 fa by auto
qed

lemma withdrawals_loop_result:
  assumes "withdrawals_loop F n cur d = Some (Inr d')" "wf_db d" "withdrawals_ok d"
  shows "wf_db d' \<and> withdrawals_ok d' \<and> (balanced (ledger d) \<longrightarrow> balanced (ledger d'))"
  using assms
proof (induction n arbitrary: cur d)
  case (Suc n)
  show ?case
  proof (cases "\<exists>i e. cur = Some i \<and> process_withdrawal F i d = Inr e
      \<and> withdrawals_loop F n (successor i (by_next_vesting_withdrawal d)) e = Some (Inr d')")
    case True
    then obtain i e where e: "process_withdrawal F i d = Inr e"
      "withdrawals_loop F n (successor i (by_next_vesting_withdrawal d)) e = Some (Inr d')" by blast
    have P: "wf_db e" "withdrawals_ok e" "balanced (ledger d) \<longrightarrow> balanced (ledger e)"
      using process_withdrawal_result [OF e(1) Suc.prems(2,3)] by blast+
    show ?thesis using Suc.IH [OF e(2) P(1,2)] P(3) by blast
  next
    case False
    then have "d' = d" using Suc.prems(1) by (auto simp: Let_def split: option.splits sum.splits if_splits)
    then show ?thesis using Suc.prems by simp
  qed
qed simp

lemma withdrawals_loop_terminates:
  assumes "due_total d < n" "wf_db d" "withdrawals_ok d" "uint (head_block_time d) < 2 ^ 32 - 604800"
  shows "withdrawals_loop F n cur d \<noteq> None"
  using assms
proof (induction n arbitrary: cur d)
  case (Suc n)
  have "withdrawals_loop F n c e \<noteq> None"
    if e: "process_withdrawal F i d = Inr e" and a: "tbl_get i (accounts d) = Inr a"
      "acc_next_vesting_withdrawal a \<le> head_block_time d" for i e c a
  proof -
    note R = process_withdrawal_result [OF e Suc.prems(2,3)]
    have "due_total e < due_total d" using R a Suc.prems(4) by blast
    then show ?thesis using Suc.IH [of e c] R Suc.prems(1,4) by auto
  qed
  then show ?case by (auto simp: Let_def split: option.split sum.split)
qed simp

end

text \<open>
  (C3) Vesting withdrawals neither create nor destroy value: if the withdrawals of a block
  succeed on a well-formed database whose accounts have non-negative shares and whose routes
  have at most 100% each, the supply invariants still hold afterwards (every vesting share taken
  from an account is deposited or converted, and every converted token leaves the vesting fund),
  and the signs and route bounds are kept.
\<close>

theorem withdrawals_conserve_value:
  assumes "fc_ok F" "wf_db d" "withdrawals_ok d" "balanced (ledger d)"
    and "process_vesting_withdrawals F d = Inr d'"
  shows "wf_db d' \<and> withdrawals_ok d' \<and> balanced (ledger d')"
proof -
  obtain cur n where "withdrawals_loop F n cur d = Some (Inr d')"
    using assms(5) by (auto simp: process_vesting_withdrawals_def Let_def simp del: withdrawals_loop.simps split: option.splits)
  then show ?thesis using fc_env.withdrawals_loop_result [OF fc_env.intro [OF assms(1)]] assms(2-4) by blast
qed

lemma sample_withdrawals_ok: "withdrawals_ok sample_db"
  by (simp add: sample_simps withdrawals_ok_def tbl_all_def withdrawal_ok_def in64_def)

theorem withdrawals_conserve_value_witness:
  "\<exists>d'. process_vesting_withdrawals fc_int64 sample_db = Inr d' \<and> balanced (ledger d')"
proof -
  have "\<not> isl (process_vesting_withdrawals fc_int64 sample_db)" by code_simp
  then obtain d' where "process_vesting_withdrawals fc_int64 sample_db = Inr d'"
    by (cases "process_vesting_withdrawals fc_int64 sample_db") auto
  with withdrawals_conserve_value [OF fc_ok_int64 sample_wf sample_withdrawals_ok sample_balanced] show ?thesis by blast
qed

text \<open>
  (C33) The loop over the accounts with a due withdrawal ends: whatever row it starts at, one
  iteration more than the number of due intervals is enough (for block times before the last
  interval that a 32-bit time can represent).
\<close>

theorem withdrawals_terminate:
  assumes "fc_ok F" "wf_db d" "withdrawals_ok d" "uint (head_block_time d) < 2 ^ 32 - 604800"
  shows "\<exists>r. withdrawals_loop F (Suc (due_total d)) current d = Some r"
  using fc_env.withdrawals_loop_terminates [OF fc_env.intro [OF assms(1)] _ assms(2-4), of "Suc (due_total d)"] by auto

theorem withdrawals_terminate_witness:
  "\<exists>r. withdrawals_loop fc_int64 (Suc (due_total sample_db)) (Some 1) sample_db = Some r"
  by (rule withdrawals_terminate [OF fc_ok_int64 sample_wf sample_withdrawals_ok])
     (simp add: sample_simps head_block_time_def)

text \<open>
  (C30) Minting keeps the supply invariants: what \<open>process_funds\<close> adds to the current supply per
  block is exactly what it adds to the reward funds, the witness's vesting fund share and the
  development fund.
\<close>

theorem process_funds_conserves:
  assumes "fc_ok F" "wf_db d" "balanced (ledger d)" "process_funds F d = Inr d'"
  shows "wf_db d' \<and> balanced (ledger d')"
  using fc_env.process_funds_ledger [OF fc_env.intro [OF assms(1)] assms(4,2)] assms(3) by blast

theorem process_funds_conserves_witness:
  "\<exists>d'. process_funds fc_int64 sample_db = Inr d' \<and> balanced (ledger d')"
proof -
  have "\<not> isl (process_funds fc_int64 sample_db)" by code_simp
  then obtain d' where "process_funds fc_int64 sample_db = Inr d'"
    by (cases "process_funds fc_int64 sample_db") auto
  with process_funds_conserves [OF fc_ok_int64 sample_wf sample_balanced] show ?thesis by blast
qed

end
