(* ===== verification/Evaluators.thy ===== *)
theory Evaluators
  imports Funds
begin

text \<open>
  The evaluators of \<open>wls_evaluator.cpp\<close> for accounts, witnesses, transfers and vesting.  Each
  \<open>do_apply\<close> is a function from the operation and the database to the new database or the
  exception; a reference to an object is its id, read again after every modification.

  \<open>producing\<close> is the flag \<open>database::is_producing\<close>.  The interpreters of custom operations are
  registered by plugins and are the parameter \<open>interp\<close>; they work inside an undo session of
  their own (\<open>generic_custom_operation_interpreter.hpp\<close>), so a failing one leaves no trace.
\<close>

section \<open>Witnesses and accounts\<close>

definition witness_update_do_apply :: "bool \<Rightarrow> witness_update_operation \<Rightarrow> database \<Rightarrow> database result" where
  "witness_update_do_apply producing op d =
     ebind (get_account (wuo_owner op) d) (\<lambda>_.
     require (length (wuo_url op) \<le> WLS_MAX_WITNESS_URL_LENGTH)
     (require (symbol (cp_account_creation_fee (wuo_props op)) = WLS_SYMBOL)
     (require (producing \<longrightarrow> cp_maximum_block_size (wuo_props op) \<le> WLS_SOFT_MAX_BLOCK_SIZE)
     (case find_witness (wuo_owner op) d of
        Some (w, _) \<Rightarrow> modify_witness w (\<lambda>w. Inr (w\<lparr>wit_url := wuo_url op,
            wit_signing_key := wuo_block_signing_key op, wit_props := wuo_props op\<rparr>)) d
      | None \<Rightarrow>
          ebind (tbl_create key_witness (default_witness\<lparr>wit_owner := wuo_owner op, wit_url := wuo_url op,
              wit_signing_key := wuo_block_signing_key op, wit_created := head_block_time d,
              wit_props := wuo_props op\<rparr>) (witnesses d)) (\<lambda>(_, t).
          Inr (d\<lparr>witnesses := t\<rparr>))))))"

definition check_accounts_exist :: "authority \<Rightarrow> database \<Rightarrow> unit result" where
  "check_accounts_exist au d = efold (\<lambda>a _. ebind (get_account (fst a) d) (\<lambda>_. Inr ())) (account_auths au) ()"

definition account_create_do_apply :: "fc_lib \<Rightarrow> account_create_operation \<Rightarrow> database \<Rightarrow> database result" where
  "account_create_do_apply F op d =
     require (acr_creator op = WLS_WHALESHARE_ACC_NAME)
     (ebind (get_account (acr_creator op) d) (\<lambda>(creator, c).
     ebind (asset_ge (acc_balance c) (acr_fee op)) (\<lambda>ok. require ok
     (ebind (asset_ge (acr_fee op) (WLS (amount (cp_account_creation_fee (wso_median_props (wso d)))))) (\<lambda>ok. require ok
     (ebind (check_accounts_exist (acr_owner op) d) (\<lambda>_.
     ebind (check_accounts_exist (acr_active op) d) (\<lambda>_.
     ebind (check_accounts_exist (acr_posting op) d) (\<lambda>_.
     ebind (modify_account creator (\<lambda>c.
         ebind (asset_sub F (acc_balance c) (acr_fee op)) (\<lambda>b. Inr (c\<lparr>acc_balance := b\<rparr>))) d) (\<lambda>d.
     ebind (tbl_create key_account (default_account\<lparr>acc_name := acr_new_account_name op,
         acc_memo_key := acr_memo_key op, acc_created := gpo_time (gpo d), acc_last_vote_time := gpo_time (gpo d),
         acc_recovery_account := acr_creator op, acc_json_metadata := acr_json_metadata op\<rparr>) (accounts d)) (\<lambda>(new_account, t).
     let d = d\<lparr>accounts := t\<rparr>;
         (_, t) = tbl_create_id \<lparr>aut_account = acr_new_account_name op, aut_owner = acr_owner op,
            aut_active = acr_active op, aut_posting = acr_posting op, aut_last_owner_update = time_min\<rparr> (authorities d);
         d = d\<lparr>authorities := t\<rparr>
     in if amount (acr_fee op) > 0 then
          ebind (create_vesting F new_account (acr_fee op) False d) (\<lambda>(_, d). Inr d)
        else Inr d)))))))))))"

definition account_update_do_apply :: "account_update_operation \<Rightarrow> database \<Rightarrow> database result" where
  "account_update_do_apply op d =
     require (aup_account op \<noteq> WLS_TEMP_ACCOUNT)
     (ebind (case aup_posting op of Some p \<Rightarrow> authority_validate p | None \<Rightarrow> Inr ()) (\<lambda>_.
     ebind (get_account (aup_account op) d) (\<lambda>(account, acc).
     ebind (get_authority (aup_account op) d) (\<lambda>(account_auth, auth).
     ebind (case aup_owner op of
              Some ow \<Rightarrow>
                require (time_diff (head_block_time d) (aut_last_owner_update auth) > WLS_OWNER_UPDATE_LIMIT)
                (ebind (check_accounts_exist ow d) (\<lambda>_. update_owner_authority (acc_name acc) ow d))
            | None \<Rightarrow> Inr d) (\<lambda>d.
     ebind (case aup_active op of Some a \<Rightarrow> check_accounts_exist a d | None \<Rightarrow> Inr ()) (\<lambda>_.
     ebind (case aup_posting op of Some a \<Rightarrow> check_accounts_exist a d | None \<Rightarrow> Inr ()) (\<lambda>_.
     ebind (modify_account account (\<lambda>acc.
         let acc = (if aup_memo_key op \<noteq> 0 then acc\<lparr>acc_memo_key := aup_memo_key op\<rparr> else acc);
             acc = acc\<lparr>acc_last_account_update := head_block_time d\<rparr>
         in Inr (if length (aup_json_metadata op) > 0 then acc\<lparr>acc_json_metadata := aup_json_metadata op\<rparr> else acc)) d) (\<lambda>d.
     if aup_active op \<noteq> None \<or> aup_posting op \<noteq> None then
       ebind (tbl_modify_id account_auth (\<lambda>auth.
           let auth = (case aup_active op of Some a \<Rightarrow> auth\<lparr>aut_active := a\<rparr> | None \<Rightarrow> auth)
           in Inr (case aup_posting op of Some p \<Rightarrow> auth\<lparr>aut_posting := p\<rparr> | None \<Rightarrow> auth)) (authorities d)) (\<lambda>t.
       Inr (d\<lparr>authorities := t\<rparr>))
     else Inr d))))))))"

definition account_forsale_do_apply :: "account_forsale_operation \<Rightarrow> database \<Rightarrow> database result" where
  "account_forsale_do_apply op d = require False (Inr d)"

definition account_buying_do_apply :: "account_buying_operation \<Rightarrow> database \<Rightarrow> database result" where
  "account_buying_do_apply op d = require False (Inr d)"

section \<open>Transfers and vesting\<close>

definition transfer_do_apply :: "fc_lib \<Rightarrow> transfer_operation \<Rightarrow> database \<Rightarrow> database result" where
  "transfer_do_apply F op d =
     ebind (get_account (tro_from op) d) (\<lambda>(from_account, fa).
     ebind (get_account (tro_to op) d) (\<lambda>(to_account, _).
     ebind (get_balance fa (symbol (tro_amount op))) (\<lambda>bal.
     ebind (asset_ge bal (tro_amount op)) (\<lambda>ok. require ok
     (ebind (asset_neg F (tro_amount op)) (\<lambda>neg.
     ebind (adjust_balance F from_account neg d) (\<lambda>d.
     adjust_balance F to_account (tro_amount op) d)))))))"

definition transfer_to_vesting_do_apply :: "fc_lib \<Rightarrow> transfer_to_vesting_operation \<Rightarrow> database \<Rightarrow> database result" where
  "transfer_to_vesting_do_apply F op d =
     ebind (get_account (tvo_from op) d) (\<lambda>(from_account, fa).
     ebind (if length (tvo_to op) \<noteq> 0 then get_account (tvo_to op) d else Inr (from_account, fa)) (\<lambda>(to_account, _).
     ebind (get_balance fa WLS_SYMBOL) (\<lambda>bal.
     ebind (asset_ge bal (tvo_amount op)) (\<lambda>ok. require ok
     (ebind (asset_neg F (tvo_amount op)) (\<lambda>neg.
     ebind (adjust_balance F from_account neg d) (\<lambda>d.
     ebind (create_vesting F to_account (tvo_amount op) False d) (\<lambda>(_, d). Inr d))))))))"

text \<open>\<open>min_vests.amount.value *= 10\<close> multiplies the raw 64-bit value, without the check of \<open>fc::safe\<close>.\<close>

definition wrap64 :: "int \<Rightarrow> int" where
  "wrap64 x = sint (word_of_int x :: u64)"

definition withdraw_vesting_do_apply :: "fc_lib \<Rightarrow> withdraw_vesting_operation \<Rightarrow> database \<Rightarrow> database result" where
  "withdraw_vesting_do_apply F op d =
     ebind (get_account (wvo_account op) d) (\<lambda>(account, acc).
     require (\<not> amount (wvo_vesting_shares op) < 0)
     (ebind (asset_ge (acc_vesting_shares acc) (VESTS 0)) (\<lambda>ok. require ok
     (ebind (asset_ge (acc_vesting_shares acc) (wvo_vesting_shares op)) (\<lambda>ok. require ok
     (ebind (fc_mul F (amount (acc_vesting_shares acc)) (WLS_100_PERCENT - get_current_inflation_rate d)) (\<lambda>x.
     ebind (fc_div F x WLS_100_PERCENT) (\<lambda>max_amount_powerdown_allowed.
     require (amount (wvo_vesting_shares op) \<le> max_amount_powerdown_allowed)
     (ebind (asset_mult_price F (cp_account_creation_fee (wso_median_props (wso d))) (get_vesting_share_price (gpo d))) (\<lambda>min_vests.
     let min_vests = min_vests\<lparr>amount := wrap64 (amount min_vests * 10)\<rparr> in
     ebind (asset_gt (acc_vesting_shares acc) min_vests) (\<lambda>gt. require (gt \<or> amount (wvo_vesting_shares op) = 0)
     (if amount (wvo_vesting_shares op) = 0 then
        require (amount (acc_vesting_withdraw_rate acc) \<noteq> 0)
        (modify_account account (\<lambda>a. Inr (a\<lparr>acc_vesting_withdraw_rate := VESTS 0,
            acc_next_vesting_withdrawal := time_maximum, acc_to_withdraw := 0, acc_withdrawn := 0\<rparr>)) d)
      else
        modify_account account (\<lambda>a.
          ebind (fc_div F (amount (wvo_vesting_shares op)) WLS_VESTING_WITHDRAW_INTERVALS) (\<lambda>r.
          let new_vesting_withdraw_rate = VESTS (if r = 0 then 1 else r) in
          require (\<not> asset_eq (acc_vesting_withdraw_rate acc) new_vesting_withdraw_rate)
          (Inr (a\<lparr>acc_vesting_withdraw_rate := new_vesting_withdraw_rate,
             acc_next_vesting_withdrawal := head_block_time d + WLS_VESTING_WITHDRAW_INTERVAL_SECONDS,
             acc_to_withdraw := amount (wvo_vesting_shares op), acc_withdrawn := 0\<rparr>)))) d))))))))))))"

definition set_withdraw_vesting_route_do_apply ::
  "set_withdraw_vesting_route_operation \<Rightarrow> database \<Rightarrow> database result" where
  "set_withdraw_vesting_route_do_apply op d =
     ebind (get_account (swr_from_account op) d) (\<lambda>(from_account, fa).
     ebind (get_account (swr_to_account op) d) (\<lambda>(to_account, _).
     let route = \<lparr>wro_from_account = from_account, wro_to_account = to_account,
                  wro_percent = swr_percent op, wro_auto_vest = swr_auto_vest op\<rparr> in
     ebind (case tbl_find_by (\<lambda>r. wro_from_account r = from_account \<and> wro_to_account r = to_account) (withdraw_routes d) of
         None \<Rightarrow>
           require (swr_percent op \<noteq> 0) (require (acc_withdraw_routes fa < WLS_MAX_WITHDRAW_ROUTES)
           (ebind (tbl_create key_route route (withdraw_routes d)) (\<lambda>(_, t).
            modify_account from_account (\<lambda>a. Inr (a\<lparr>acc_withdraw_routes := acc_withdraw_routes a + 1\<rparr>)) (d\<lparr>withdraw_routes := t\<rparr>))))
       | Some (i, _) \<Rightarrow>
           if swr_percent op = 0 then
             ebind (tbl_remove i (withdraw_routes d)) (\<lambda>t.
             modify_account from_account (\<lambda>a. Inr (a\<lparr>acc_withdraw_routes := acc_withdraw_routes a - 1\<rparr>)) (d\<lparr>withdraw_routes := t\<rparr>))
           else
             ebind (tbl_modify key_route i (\<lambda>_. Inr route) (withdraw_routes d)) (\<lambda>t.
             Inr (d\<lparr>withdraw_routes := t\<rparr>))) (\<lambda>d.
     let total_percent = fold (\<lambda>r total_percent. total_percent + wro_percent (snd r)) (routes_from from_account d) 0 in
     require (total_percent \<le> WLS_100_PERCENT) (Inr d))))"

section \<open>Witness voting\<close>

text \<open>
  The loop that follows the proxies of the new proxy.  \<open>proxy\<close> is \<open>cprox->proxy\<close>; the set
  \<open>proxy_chain\<close> is a list of distinct ids.
\<close>

function proxy_loop :: "database \<Rightarrow> account_name_type \<Rightarrow> int list \<Rightarrow> unit result" where
  "proxy_loop d proxy proxy_chain =
     (if length proxy = 0 then Inr ()
      else case get_account proxy d of
          Inl e \<Rightarrow> Inl e
        | Inr (next_proxy, np) \<Rightarrow>
            if next_proxy \<in> set proxy_chain then Inl assert_exception
            else if \<not> length (next_proxy # proxy_chain) \<le> WLS_MAX_PROXY_RECURSION_DEPTH then Inl assert_exception
            else proxy_loop d (acc_proxy np) (next_proxy # proxy_chain))"
  by pat_completeness auto

termination proxy_loop
  by (relation "measure (\<lambda>(d, proxy, chain). 5 - length chain)") auto

declare proxy_loop.simps [simp del]

definition account_witness_proxy_do_apply ::
  "fc_lib \<Rightarrow> account_witness_proxy_operation \<Rightarrow> database \<Rightarrow> database result" where
  "account_witness_proxy_do_apply F op d =
     ebind (get_account (awp_account op) d) (\<lambda>(account, acc).
     require (acc_proxy acc \<noteq> awp_proxy op)
     (ebind (fc_neg F (amount (acc_vesting_shares acc))) (\<lambda>delta0.
     ebind (efold (\<lambda>v ds. ebind (fc_neg F v) (\<lambda>n. Inr (ds @ [n]))) (acc_proxied_vsf_votes acc) [delta0]) (\<lambda>delta.
     ebind (adjust_proxied_witness_votes_array F account delta d) (\<lambda>d.
     if length (awp_proxy op) \<noteq> 0 then
       ebind (get_account (awp_proxy op) d) (\<lambda>(new_proxy, np).
       ebind (proxy_loop d (acc_proxy np) (remdups [account, new_proxy])) (\<lambda>_.
       ebind (clear_witness_votes account d) (\<lambda>d.
       ebind (modify_account account (\<lambda>a. Inr (a\<lparr>acc_proxy := awp_proxy op\<rparr>)) d) (\<lambda>d.
       ebind (efold (\<lambda>v ds. ebind (fc_neg F v) (\<lambda>n. Inr (ds @ [n]))) delta []) (\<lambda>delta.
       adjust_proxied_witness_votes_array F account delta d)))))
     else modify_account account (\<lambda>a. Inr (a\<lparr>acc_proxy := awp_proxy op\<rparr>)) d)))))"

definition account_witness_vote_do_apply ::
  "fc_lib \<Rightarrow> account_witness_vote_operation \<Rightarrow> database \<Rightarrow> database result" where
  "account_witness_vote_do_apply F op d =
     ebind (get_account (awv_account op) d) (\<lambda>(voter, v).
     require (length (acc_proxy v) = 0)
     (ebind (get_witness (awv_witness op) d) (\<lambda>(wit, _).
     case tbl_find_by (\<lambda>x. wvo_voter x = voter \<and> wvo_witness x = wit) (witness_votes d) of
       None \<Rightarrow>
         require (awv_approve op) (require (acc_witnesses_voted_for v < WLS_MAX_ACCOUNT_WITNESS_VOTES)
         (ebind (tbl_create key_witness_vote \<lparr>wvo_witness = wit, wvo_voter = voter\<rparr> (witness_votes d)) (\<lambda>(_, t).
          let d = d\<lparr>witness_votes := t\<rparr> in
          ebind (witness_vote_weight F v) (\<lambda>w.
          ebind (adjust_witness_vote F wit w d) (\<lambda>d.
          modify_account voter (\<lambda>a. Inr (a\<lparr>acc_witnesses_voted_for := acc_witnesses_voted_for a + 1\<rparr>)) d)))))
     | Some (i, _) \<Rightarrow>
         require (\<not> awv_approve op)
         (ebind (witness_vote_weight F v) (\<lambda>w.
          ebind (fc_neg F w) (\<lambda>n.
          ebind (adjust_witness_vote F wit n d) (\<lambda>d.
          ebind (modify_account voter (\<lambda>a. Inr (a\<lparr>acc_witnesses_voted_for := acc_witnesses_voted_for a - 1\<rparr>)) d) (\<lambda>d.
          ebind (tbl_remove i (witness_votes d)) (\<lambda>t. Inr (d\<lparr>witness_votes := t\<rparr>))))))))))"

section \<open>Custom operations and rewards\<close>

definition custom_do_apply :: "custom_operation \<Rightarrow> database \<Rightarrow> database result" where
  "custom_do_apply op d = Inr d"

text \<open>Lookups throw \<open>std::out_of_range\<close> or \<open>std::logic_error\<close>; all other exceptions are \<open>fc::exception\<close>.\<close>

definition is_fc_exception :: "exc \<Rightarrow> bool" where
  "is_fc_exception e \<longleftrightarrow> e \<noteq> out_of_range \<and> e \<noteq> logic_error"

type_synonym 'o interpreters = "string \<Rightarrow> ('o \<Rightarrow> database \<Rightarrow> database result) option"

definition run_interpreter :: "bool \<Rightarrow> ('o \<Rightarrow> database \<Rightarrow> database result) option \<Rightarrow> 'o \<Rightarrow> database \<Rightarrow> database result" where
  "run_interpreter producing eval op d = (case eval of None \<Rightarrow> Inr d
     | Some f \<Rightarrow> (case f op d of
         Inr d' \<Rightarrow> Inr d'
       | Inl e \<Rightarrow> if is_fc_exception e \<and> producing then Inl e else Inr d))"

definition custom_json_do_apply ::
  "custom_json_operation interpreters \<Rightarrow> bool \<Rightarrow> custom_json_operation \<Rightarrow> database \<Rightarrow> database result" where
  "custom_json_do_apply interp producing op d = run_interpreter producing (interp (cjo_id op)) op d"

definition custom_binary_do_apply ::
  "custom_binary_operation interpreters \<Rightarrow> bool \<Rightarrow> custom_binary_operation \<Rightarrow> database \<Rightarrow> database result" where
  "custom_binary_do_apply interp producing op d = run_interpreter producing (interp (cbo_id op)) op d"

definition claim_reward_balance_do_apply ::
  "fc_lib \<Rightarrow> claim_reward_balance_operation \<Rightarrow> database \<Rightarrow> database result" where
  "claim_reward_balance_do_apply F op d =
     ebind (get_account (cro_account op) d) (\<lambda>(i, acnt).
     ebind (asset_le (cro_reward_steem op) (acc_reward_steem_balance acnt)) (\<lambda>ok. require ok
     (ebind (asset_le (cro_reward_vests op) (acc_reward_vesting_balance acnt)) (\<lambda>ok. require ok
     (ebind (if asset_eq (cro_reward_vests op) (acc_reward_vesting_balance acnt) then Inr (acc_reward_vesting_steem acnt)
             else if to_u128 (amount (acc_reward_vesting_balance acnt)) = 0 then Inl divide_by_zero_exception
             else ebind (fc_to_uint64 F ((to_u128 (amount (cro_reward_vests op)) * to_u128 (amount (acc_reward_vesting_steem acnt)))
                     div to_u128 (amount (acc_reward_vesting_balance acnt)))) (\<lambda>v. Inr (WLS (sint v)))) (\<lambda>reward_vesting_steem_to_move.
     ebind (asset_neg F (cro_reward_steem op)) (\<lambda>neg.
     ebind (adjust_reward_balance F i neg d) (\<lambda>d.
     ebind (adjust_balance F i (cro_reward_steem op) d) (\<lambda>d.
     ebind (modify_account i (\<lambda>a.
         ebind (asset_add F (acc_vesting_shares a) (cro_reward_vests op)) (\<lambda>v.
         ebind (asset_sub F (acc_reward_vesting_balance a) (cro_reward_vests op)) (\<lambda>b.
         ebind (asset_sub F (acc_reward_vesting_steem a) reward_vesting_steem_to_move) (\<lambda>s.
         Inr (a\<lparr>acc_vesting_shares := v, acc_reward_vesting_balance := b, acc_reward_vesting_steem := s\<rparr>))))) d) (\<lambda>d.
     ebind (modify_gpo (\<lambda>g.
         ebind (asset_add F (gpo_total_vesting_shares g) (cro_reward_vests op)) (\<lambda>v.
         ebind (asset_add F (gpo_total_vesting_fund_steem g) reward_vesting_steem_to_move) (\<lambda>f.
         ebind (asset_sub F (gpo_pending_rewarded_vesting_shares g) (cro_reward_vests op)) (\<lambda>ps.
         ebind (asset_sub F (gpo_pending_rewarded_vesting_steem g) reward_vesting_steem_to_move) (\<lambda>pt.
         Inr (g\<lparr>gpo_total_vesting_shares := v, gpo_total_vesting_fund_steem := f,
                gpo_pending_rewarded_vesting_shares := ps, gpo_pending_rewarded_vesting_steem := pt\<rparr>)))))) d) (\<lambda>d.
     adjust_proxied_witness_votes F i (amount (cro_reward_vests op)) d)))))))))))"

end
