(* ===== verification/Evaluator_Ledger.thy ===== *)
theory Evaluator_Ledger
  imports Evaluators
begin

text \<open>
  The evaluators keep the supply invariants.  \<open>keeps_balance\<close> is the contract that every operation
  meets: a well-formed database stays well-formed and a balanced ledger stays balanced.
\<close>

definition keeps_balance :: "database \<Rightarrow> database \<Rightarrow> bool" where
  "keeps_balance d d' \<longleftrightarrow> (wf_db d \<longrightarrow> wf_db d' \<and> (balanced (ledger d) \<longrightarrow> balanced (ledger d')))"

lemma same_money_keeps: "same_money d d' \<Longrightarrow> keeps_balance d d'"
  by (auto simp: same_money_def keeps_balance_def)

lemma keeps_balance_refl [simp]: "keeps_balance d d"
  by (simp add: keeps_balance_def)

lemma keeps_balance_trans: "keeps_balance d e \<Longrightarrow> keeps_balance e f \<Longrightarrow> keeps_balance d f"
  by (auto simp: keeps_balance_def)

section \<open>Operations that move no money\<close>

lemmas same_rules = same_wp wp

lemma witness_update_same: "yields (witness_update_do_apply producing op d) (same_money d)"
  unfolding witness_update_do_apply_def by (intro same_rules) simp_all

lemma account_update_same: "yields (account_update_do_apply op d) (same_money d)"
  unfolding account_update_do_apply_def by (intro same_rules) (auto simp: same_funds_def)

lemma set_withdraw_vesting_route_same: "yields (set_withdraw_vesting_route_do_apply op d) (same_money d)"
  unfolding set_withdraw_vesting_route_do_apply_def by (intro same_rules) (auto simp: same_funds_def)

lemma withdraw_vesting_same: "yields (withdraw_vesting_do_apply F op d) (same_money d)"
  unfolding withdraw_vesting_do_apply_def by (intro same_rules) (auto simp: same_funds_def)

lemma account_witness_vote_same: "yields (account_witness_vote_do_apply F op d) (same_money d)"
  unfolding account_witness_vote_do_apply_def by (intro same_rules) (auto simp: same_funds_def)

section \<open>Transfers and rewards\<close>

context fc_env
begin

lemma transfer_ledger:
  assumes "wf_db d"
  shows "yields (transfer_do_apply F op d) (\<lambda>d'. wf_db d' \<and> ledger d' = ledger d)"
  unfolding transfer_do_apply_def
proof (intro wp yieldsI)
  fix neg d1 d2 i j
  assume n: "asset_neg F (tro_amount op) = Inr neg"
    and a: "adjust_balance F i neg d = Inr d1" and b: "adjust_balance F j (tro_amount op) d1 = Inr d2"
  have "amount neg = - amount (tro_amount op)" using n by auto
  then show "wf_db d2 \<and> ledger d2 = ledger d"
    using adjust_balance_ledger [OF a assms] adjust_balance_ledger [OF b] by auto
qed

lemma transfer_to_vesting_ledger:
  assumes "wf_db d"
  shows "yields (transfer_to_vesting_do_apply F op d) (\<lambda>d'. wf_db d' \<and> (balanced (ledger d) \<longrightarrow> balanced (ledger d')))"
  unfolding transfer_to_vesting_do_apply_def
proof (intro wp)
  fix neg d1 v d2 i j and r :: "asset \<times> database"
  assume n: "asset_neg F (tvo_amount op) = Inr neg"
    and a: "adjust_balance F i neg d = Inr d1" and c: "create_vesting F j (tvo_amount op) False d1 = Inr r" and r: "r = (v, d2)"
  have n: "amount neg = - amount (tvo_amount op)" "symbol neg = symbol (tvo_amount op)" using n by auto
  note A = adjust_balance_ledger [OF a assms]
  then show "wf_db d2 \<and> (balanced (ledger d) \<longrightarrow> balanced (ledger d2))"
    using create_vesting_result [OF c [unfolded r]] c r n by (auto simp: Let_def balanced_def)
qed

lemma claim_account_ledger:
  assumes m: "modify_account i (\<lambda>a.
         ebind (asset_add F (acc_vesting_shares a) v) (\<lambda>vs.
         ebind (asset_sub F (acc_reward_vesting_balance a) v) (\<lambda>b.
         ebind (asset_sub F (acc_reward_vesting_steem a) s) (\<lambda>st.
         Inr (a\<lparr>acc_vesting_shares := vs, acc_reward_vesting_balance := b, acc_reward_vesting_steem := st\<rparr>))))) d = Inr d1"
    and wf: "wf_db d"
  shows "\<exists>a'. wf_db d1 \<and> gpo d1 = gpo d \<and> map_of (rows (accounts d1)) i = Some a'
    \<and> ledger d1 = (ledger d)\<lparr>L_vest_steem := L_vest_steem (ledger d) - amount s,
        L_vsf := L_vsf (ledger d) + (if self_proxy a' then amount v else 0)\<rparr>"
proof -
  let ?f = "\<lambda>a. ebind (asset_add F (acc_vesting_shares a) v) (\<lambda>vs.
         ebind (asset_sub F (acc_reward_vesting_balance a) v) (\<lambda>b.
         ebind (asset_sub F (acc_reward_vesting_steem a) s) (\<lambda>st.
         Inr (a\<lparr>acc_vesting_shares := vs, acc_reward_vesting_balance := b, acc_reward_vesting_steem := st\<rparr>))))"
  have k: "keeps_ok ?f" by (auto simp: keeps_ok_def account_ok_def)
  obtain a a' where "?f a = Inr a'" "wf_db d1" "ledger d1 = account_delta a a' (ledger d)"
    "map_of (rows (accounts d1)) i = Some a'" "gpo d1 = gpo d"
    using modify_account_ledger [OF m wf k] by auto
  then show ?thesis
    by (auto simp: account_delta_def steem_of_def vests_of_def vsf_votes_def self_proxy_def)
qed

lemma claim_reward_balance_ledger:
  assumes "wf_db d"
  shows "yields (claim_reward_balance_do_apply F op d) (\<lambda>d'. wf_db d' \<and> (balanced (ledger d) \<longrightarrow> balanced (ledger d')))"
  unfolding claim_reward_balance_do_apply_def
proof (intro wp yieldsI)
  fix neg d1 d2 d3 d4 d5 i mv
  assume n: "asset_neg F (cro_reward_steem op) = Inr neg"
    and a: "adjust_reward_balance F i neg d = Inr d1" and b: "adjust_balance F i (cro_reward_steem op) d1 = Inr d2"
    and m: "modify_account i (\<lambda>a.
         ebind (asset_add F (acc_vesting_shares a) (cro_reward_vests op)) (\<lambda>v.
         ebind (asset_sub F (acc_reward_vesting_balance a) (cro_reward_vests op)) (\<lambda>b.
         ebind (asset_sub F (acc_reward_vesting_steem a) mv) (\<lambda>s.
         Inr (a\<lparr>acc_vesting_shares := v, acc_reward_vesting_balance := b, acc_reward_vesting_steem := s\<rparr>))))) d2 = Inr d3"
    and g: "modify_gpo (\<lambda>g.
         ebind (asset_add F (gpo_total_vesting_shares g) (cro_reward_vests op)) (\<lambda>v.
         ebind (asset_add F (gpo_total_vesting_fund_steem g) mv) (\<lambda>f.
         ebind (asset_sub F (gpo_pending_rewarded_vesting_shares g) (cro_reward_vests op)) (\<lambda>ps.
         ebind (asset_sub F (gpo_pending_rewarded_vesting_steem g) mv) (\<lambda>pt.
         Inr (g\<lparr>gpo_total_vesting_shares := v, gpo_total_vesting_fund_steem := f,
                gpo_pending_rewarded_vesting_shares := ps, gpo_pending_rewarded_vesting_steem := pt\<rparr>)))))) d3 = Inr d4"
    and p: "adjust_proxied_witness_votes F i (amount (cro_reward_vests op)) d4 = Inr d5"
  have n: "amount neg = - amount (cro_reward_steem op)" using n by auto
  have A: "wf_db d2 \<and> ledger d2 = ledger d"
    using adjust_reward_balance_ledger [OF a assms] adjust_balance_ledger [OF b] n by auto
  obtain a' where B: "wf_db d3" "map_of (rows (accounts d3)) i = Some a'"
    "ledger d3 = (ledger d2)\<lparr>L_vest_steem := L_vest_steem (ledger d2) - amount mv,
        L_vsf := L_vsf (ledger d2) + (if self_proxy a' then amount (cro_reward_vests op) else 0)\<rparr>"
    using claim_account_ledger [OF m] A by blast
  have C: "wf_db d4" "accounts d4 = accounts d3"
    "ledger d4 = (ledger d3)\<lparr>L_shares := L_shares (ledger d3) + amount (cro_reward_vests op), L_fund := L_fund (ledger d3) + amount mv,
       L_pending_shares := L_pending_shares (ledger d3) - amount (cro_reward_vests op),
       L_pending_steem := L_pending_steem (ledger d3) - amount mv\<rparr>"
    using g B(1) by (auto simp: modify_gpo_def wf_db_def gpo_ok_def ledger_def)
  have "map_of (rows (accounts d4)) i = Some a'" using B(2) C(2) by simp
  from adjust_proxied_ledger [OF p [unfolded adjust_proxied_witness_votes_def] C(1) _ this]
  show "wf_db d5 \<and> (balanced (ledger d) \<longrightarrow> balanced (ledger d5))"
    using A B(3) C(3) by (auto simp: balanced_def)
qed

lemma new_account_ledger:
  assumes "tbl_create key_account v (accounts d) = Inr (i, t)" "wf_db d" "account_ok v"
    and "steem_of v = 0" "vests_of v = 0" "amount (acc_reward_vesting_steem v) = 0" "vsf_votes v = 0"
  shows "wf_db (d\<lparr>accounts := t\<rparr>) \<and> ledger (d\<lparr>accounts := t\<rparr>) = ledger d"
  using assms tbl_create_ok [OF assms(1)] tbl_create_all [OF assms(1)] tbl_create_sum [OF assms(1)]
  by (simp add: wf_db_def ledger_def)

lemma account_create_ledger:
  assumes "wf_db d" "0 \<le> amount (acr_fee op)"
  shows "yields (account_create_do_apply F op d) (\<lambda>d'. wf_db d' \<and> (balanced (ledger d) \<longrightarrow> balanced (ledger d')))"
proof -
  have main: "wf_db e \<and> (balanced (ledger d) \<longrightarrow> balanced (ledger e))"
    if m: "modify_account creator (\<lambda>c. ebind (asset_sub F (acc_balance c) (acr_fee op)) (\<lambda>b. Inr (c\<lparr>acc_balance := b\<rparr>))) d = Inr d1"
      and t: "tbl_create key_account (default_account\<lparr>acc_name := acr_new_account_name op,
         acc_memo_key := acr_memo_key op, acc_created := gpo_time (gpo d1), acc_last_vote_time := gpo_time (gpo d1),
         acc_recovery_account := acr_creator op, acc_json_metadata := acr_json_metadata op\<rparr>) (accounts d1) = Inr (i, t)"
      and e: "amount (acr_fee op) > 0 \<and> create_vesting F i (acr_fee op) False (d1\<lparr>accounts := t, authorities := au\<rparr>) = Inr (v, e)
        \<or> \<not> amount (acr_fee op) > 0 \<and> e = d1\<lparr>accounts := t, authorities := au\<rparr>"
    for creator d1 i t au e v
  proof -
    let ?f = "\<lambda>c. ebind (asset_sub F (acc_balance c) (acr_fee op)) (\<lambda>b. Inr (c\<lparr>acc_balance := b\<rparr>))"
    have k: "keeps_ok ?f" by (auto simp: keeps_ok_def account_ok_def)
    obtain a a' where a: "?f a = Inr a'" "account_ok a" "wf_db d1" "ledger d1 = account_delta a a' (ledger d)"
      using modify_account_ledger [OF m assms(1) k] by auto
    have s: "symbol (acr_fee op) = WLS_SYMBOL" using a(1,2) by (auto simp: account_ok_def)
    have l1: "ledger d1 = (ledger d)\<lparr>L_steem := L_steem (ledger d) - amount (acr_fee op)\<rparr>"
      using a(1,4) by (auto simp: account_delta_def steem_of_def vests_of_def vsf_votes_def)
    have N: "wf_db (d1\<lparr>accounts := t\<rparr>) \<and> ledger (d1\<lparr>accounts := t\<rparr>) = ledger d1"
      by (rule new_account_ledger [OF t a(3)])
         (simp_all add: default_account_def account_ok_def steem_of_def vests_of_def vsf_votes_def)
    then have N: "wf_db (d1\<lparr>accounts := t, authorities := au\<rparr>)" "ledger (d1\<lparr>accounts := t, authorities := au\<rparr>) = ledger d1"
      by (simp_all add: wf_db_def ledger_def)
    from e show ?thesis
    proof
      assume "amount (acr_fee op) > 0 \<and> create_vesting F i (acr_fee op) False (d1\<lparr>accounts := t, authorities := au\<rparr>) = Inr (v, e)"
      then show ?thesis using create_vesting_result [of i "acr_fee op" False "d1\<lparr>accounts := t, authorities := au\<rparr>" v e] N s l1
        by (auto simp: Let_def balanced_def)
    next
      assume "\<not> amount (acr_fee op) > 0 \<and> e = d1\<lparr>accounts := t, authorities := au\<rparr>"
      then show ?thesis using N assms(2) l1 by auto
    qed
  qed
  show ?thesis
    unfolding account_create_do_apply_def by (intro wp; rule main; (assumption | simp add: tbl_create_id_def))
qed

end

end
