(* ===== verification/Proxy.thy ===== *)
theory Proxy
  imports Evaluator_Ledger
begin

text \<open>
  Voting proxies.  An account that sets a proxy hands the weight of its shares, and of the shares
  proxied to it, up a chain of at most \<open>WLS_MAX_PROXY_RECURSION_DEPTH\<close> accounts.  This theory
  shows that the evaluator keeps the proxy graph acyclic (what the loop over the chain is for) and
  that changing a proxy keeps the supply invariants.
\<close>

section \<open>Weights handed up the chain\<close>

definition weights_below :: "nat \<Rightarrow> int list \<Rightarrow> int" where
  "weights_below n delta = sum_list (map (nth delta) [0..<n])"

lemma weights_below_simps [simp]:
  "weights_below 0 delta = 0" "weights_below (Suc n) delta = weights_below n delta + delta ! n"
  by (simp_all add: weights_below_def)

definition same_proxy :: "account_object \<Rightarrow> account_object \<Rightarrow> bool" where
  "same_proxy a a' \<longleftrightarrow> acc_name a' = acc_name a \<and> acc_proxy a' = acc_proxy a"

lemma same_proxy_refl [simp]: "same_proxy a a"
  by (simp add: same_proxy_def)

lemma same_proxy_trans: "same_proxy a b \<Longrightarrow> same_proxy b c \<Longrightarrow> same_proxy a c"
  by (simp add: same_proxy_def)

lemma account_delta_trans: "account_delta b c (account_delta a b l) = account_delta a c l"
  by (simp add: account_delta_def)

context fc_env
begin

lemma add_proxied_same_proxy: "add_proxied F i delta a = Inr a' \<Longrightarrow> same_proxy a a'"
  by (auto simp: add_proxied_def same_proxy_def)

lemma add_proxied_list:
  assumes "efold (\<lambda>i a. add_proxied F (i + depth) (delta ! i) a) js a = Inr a'" "account_ok a" "\<forall>i\<in>set js. i + depth < 4"
  shows "account_ok a' \<and> same_proxy a a' \<and> account_delta a a' l =
    l\<lparr>L_vsf := L_vsf l + (\<Sum>i\<leftarrow>js. if self_proxy a \<or> i + depth = 3 then delta ! i else 0)\<rparr>"
  using assms
proof (induction js arbitrary: a l)
  case Nil
  then show ?case by (simp add: account_delta_def)
next
  case (Cons i js)
  then obtain b where b: "add_proxied F (i + depth) (delta ! i) a = Inr b"
    "efold (\<lambda>i a. add_proxied F (i + depth) (delta ! i) a) js b = Inr a'" by auto
  have i: "i + depth < 4" using Cons.prems(3) by simp
  note B = add_proxied_result [OF b(1) Cons.prems(2) i]
  have sp: "same_proxy a b" by (rule add_proxied_same_proxy [OF b(1)])
  have self: "self_proxy b = self_proxy a" using sp by (simp add: same_proxy_def self_proxy_def)
  have "account_ok a' \<and> same_proxy b a' \<and> account_delta b a' (account_delta a b l) =
    (account_delta a b l)\<lparr>L_vsf := L_vsf (account_delta a b l) + (\<Sum>i\<leftarrow>js. if self_proxy b \<or> i + depth = 3 then delta ! i else 0)\<rparr>"
    using Cons.IH [OF b(2)] B Cons.prems(3) by auto
  then show ?case
    using B sp same_proxy_trans [OF sp] unfolding account_delta_trans self by auto
qed

lemma last_weight:
  assumes "left < 4"
  shows "(\<Sum>i\<leftarrow>[0..<Suc left]. if i + (4 - Suc left) = 3 then delta ! i else 0) = delta ! left"
proof -
  have "map (\<lambda>i. if i + (4 - Suc left) = 3 then delta ! i else 0) [0..<left] = map (\<lambda>i. 0) [0..<left]"
    using assms by auto
  then have "(\<Sum>i\<leftarrow>[0..<left]. if i + (4 - Suc left) = 3 then delta ! i else 0) = 0"
    by (simp only: sum_list_0)
  then show ?thesis using assms by auto
qed

lemma add_proxied_array_result:
  assumes "add_proxied_array F (4 - Suc left) delta a = Inr a'" "account_ok a" "left < 4"
  shows "account_ok a' \<and> same_proxy a a' \<and> account_delta a a' l =
    l\<lparr>L_vsf := L_vsf l + (if self_proxy a then weights_below (Suc left) delta else delta ! left)\<rparr>"
proof -
  have n: "4 - (4 - Suc left) = Suc left" using assms(3) by simp
  have w: "(\<Sum>i\<leftarrow>rev [0..<Suc left]. if self_proxy a \<or> i + (4 - Suc left) = 3 then delta ! i else 0) =
      (if self_proxy a then weights_below (Suc left) delta else delta ! left)"
    using last_weight [OF assms(3), of delta] unfolding sum_list_rev rev_map [symmetric]
    by (simp add: weights_below_def)
  have "\<forall>i\<in>set (rev [0..<Suc left]). i + (4 - Suc left) < 4" using assms(3) by auto
  from add_proxied_list [OF assms(1) [unfolded add_proxied_array_def n] assms(2) this, of l]
  show ?thesis unfolding w .
qed

end

section \<open>The proxy graph\<close>

definition proxies :: "database \<Rightarrow> (account_name_type \<times> account_name_type) set" where
  "proxies d = (\<lambda>p. (acc_name (snd p), acc_proxy (snd p))) ` {p \<in> set (rows (accounts d)). acc_proxy (snd p) \<noteq> []}"

definition unique_names :: "database \<Rightarrow> bool" where
  "unique_names d \<longleftrightarrow> distinct (map (\<lambda>p. acc_name (snd p)) (rows (accounts d)))"

definition proxy_ok :: "database \<Rightarrow> bool" where
  "proxy_ok d \<longleftrightarrow> unique_names d \<and> acyclic (proxies d)"

definition same_proxies :: "database \<Rightarrow> database \<Rightarrow> bool" where
  "same_proxies d e \<longleftrightarrow> (table_ok (accounts d) \<longrightarrow> table_ok (accounts e) \<and> rows_rel same_proxy (accounts d) (accounts e))"

lemma map_snd_eq: "map (\<lambda>p. (fst p, f p)) xs = map (\<lambda>p. (fst p, f p)) ys \<Longrightarrow> map f xs = map f ys"
  by (drule arg_cong [where f = "map snd"]) (simp add: comp_def)

lemma rows_rel_proxies:
  assumes "rows_rel same_proxy (accounts d) (accounts e)"
  shows "proxies e = proxies d" "unique_names e = unique_names d"
proof -
  have "map (\<lambda>p. (fst p, acc_name (snd p), acc_proxy (snd p))) (rows (accounts e))
      = map (\<lambda>p. (fst p, acc_name (snd p), acc_proxy (snd p))) (rows (accounts d))"
    using rows_rel_map [OF assms, of "\<lambda>a. (acc_name a, acc_proxy a)"] by (simp add: same_proxy_def)
  then have m: "map (\<lambda>p. (acc_name (snd p), acc_proxy (snd p))) (rows (accounts e))
      = map (\<lambda>p. (acc_name (snd p), acc_proxy (snd p))) (rows (accounts d))"
    using map_snd_eq [of "\<lambda>p. (acc_name (snd p), acc_proxy (snd p))" "rows (accounts e)" "rows (accounts d)"] by simp
  have p: "proxies x = set (filter (\<lambda>q. snd q \<noteq> []) (map (\<lambda>p. (acc_name (snd p), acc_proxy (snd p))) (rows (accounts x))))" for x
    by (simp add: proxies_def filter_map comp_def)
  show "proxies e = proxies d" unfolding p m ..
  have u: "unique_names x = distinct (map fst (map (\<lambda>p. (acc_name (snd p), acc_proxy (snd p))) (rows (accounts x))))" for x
    by (simp add: unique_names_def comp_def)
  show "unique_names e = unique_names d" unfolding u m ..
qed

lemma same_proxies_refl [simp]: "same_proxies d d"
  by (simp add: same_proxies_def rows_rel_refl)

lemma same_proxies_trans: "same_proxies d e \<Longrightarrow> same_proxies e f \<Longrightarrow> same_proxies d f"
  using rows_rel_trans [OF _ _ same_proxy_trans] by (auto simp: same_proxies_def)

lemma same_proxies_ok: "same_proxies d e \<Longrightarrow> table_ok (accounts d) \<Longrightarrow> proxy_ok d \<Longrightarrow> proxy_ok e"
  using rows_rel_proxies by (auto simp: same_proxies_def proxy_ok_def)

text \<open>Rules for \<open>yields m (same_proxies d)\<close>.\<close>

named_theorems proxy_wp \<open>operations that keep names and proxies\<close>

lemma proxy_step [proxy_wp]:
  "yields m (same_proxies d) \<Longrightarrow> (\<And>e. m = Inr e \<Longrightarrow> same_proxies d e \<Longrightarrow> yields (f e) (same_proxies d)) \<Longrightarrow> yields (ebind m f) (same_proxies d)"
  by (auto simp: yields_def)

lemma same_proxies_fields: "accounts d' = accounts e \<Longrightarrow> same_proxies d d' = same_proxies d e"
  by (simp add: same_proxies_def)

lemma modify_account_proxies:
  assumes "modify_account i f d = Inr d'" "\<And>a a'. f a = Inr a' \<Longrightarrow> same_proxy a a'"
  shows "same_proxies d d'"
proof -
  obtain t where t: "tbl_modify key_account i f (accounts d) = Inr t" "d' = d\<lparr>accounts := t\<rparr>"
    using assms(1) by (auto simp: modify_account_def)
  show ?thesis
    using tbl_modify_rel [where R = same_proxy, OF t(1) _ same_proxy_refl assms(2)] tbl_modify_ok [OF t(1)]
    by (auto simp: same_proxies_def t(2))
qed

lemma proxies_operations [proxy_wp]:
  "same_proxies d e \<Longrightarrow> (\<And>a. yields (f a) (same_proxy a)) \<Longrightarrow> yields (modify_account i f e) (same_proxies d)"
  "same_proxies d e \<Longrightarrow> yields (modify_witness i g e) (same_proxies d)"
  "same_proxies d e \<Longrightarrow> yields (modify_comment i h e) (same_proxies d)"
  "same_proxies d e \<Longrightarrow> yields (modify_comment_vote i k e) (same_proxies d)"
  "same_proxies d e \<Longrightarrow> yields (modify_reward_fund i r e) (same_proxies d)"
  "same_proxies d e \<Longrightarrow> yields (modify_gpo q e) (same_proxies d)"
  "same_proxies d e \<Longrightarrow> yields (update_owner_authority nm au e) (same_proxies d)"
  using same_proxies_trans modify_account_proxies unfolding yields_def
  by (blast, auto simp: modify_witness_def modify_comment_def modify_comment_vote_def modify_reward_fund_def modify_gpo_def
      update_owner_authority_def same_proxies_def)

lemma adjust_witness_votes_proxies [proxy_wp]:
  "same_proxies d e \<Longrightarrow> yields (adjust_witness_vote F w delta e) (same_proxies d)"
  "same_proxies d e \<Longrightarrow> yields (adjust_witness_votes F a delta e) (same_proxies d)"
  using adjust_witness_vote_same adjust_witness_votes_same
  by (auto simp: yields_def same_proxies_def)

context fc_env
begin

lemma add_proxied_array_same_proxy: "yields (add_proxied_array F depth delta a) (same_proxy a)"
  unfolding add_proxied_array_def
  by (rule yields_efold) (auto intro!: yieldsI dest: add_proxied_same_proxy same_proxy_trans)

lemma array_proxies [proxy_wp]:
  "same_proxies d e \<Longrightarrow> yields (adjust_proxied_array_at F left a delta e) (same_proxies d)"
proof (induction left arbitrary: a e)
  case 0
  then show ?case by (simp only: adjust_proxied_array_at.simps) (intro proxy_wp wp)
next
  case (Suc left)
  show ?case unfolding adjust_proxied_array_at.simps
    by (intro proxy_wp wp Suc add_proxied_array_same_proxy)
qed

lemma vote_proxies [proxy_wp]:
  "same_proxies d e \<Longrightarrow> yields (adjust_proxied_witness_votes_at F left a x e) (same_proxies d)"
proof (induction left arbitrary: a e)
  case 0
  then show ?case by (simp only: adjust_proxied_witness_votes_at.simps) (intro proxy_wp wp)
next
  case (Suc left)
  show ?case unfolding adjust_proxied_witness_votes_at.simps
    by (intro proxy_wp wp Suc yieldsI) (rule add_proxied_same_proxy)
qed

lemma adjust_proxied_array_ledger:
  assumes "adjust_proxied_array_at F left a delta d = Inr d'" "wf_db d" "left \<le> 4"
    and "map_of (rows (accounts d)) a = Some acc"
  shows "wf_db d' \<and> ledger d' = (ledger d)\<lparr>L_vsf := L_vsf (ledger d) + (if self_proxy acc then 0 else weights_below left delta)\<rparr>"
  using assms
proof (induction left arbitrary: a acc d)
  case 0
  then show ?case using adjust_witness_votes_same [of F a _ d d']
    by (auto simp: tbl_get_def same_money_def split: if_splits)
next
  case (Suc left)
  show ?case
  proof (cases "self_proxy acc")
    case True
    then show ?thesis using Suc.prems adjust_witness_votes_same [of F a _ d d']
      by (auto simp: tbl_get_def same_money_def self_proxy_def)
  next
    case False
    let ?f = "add_proxied_array F (4 - Suc left) delta"
    have left: "left < 4" using Suc.prems(3) by simp
    obtain p pa d1 where m: "modify_account p ?f d = Inr d1" and r: "adjust_proxied_array_at F left p delta d1 = Inr d'"
      using Suc.prems(1,4) False by (auto simp: tbl_get_def self_proxy_def)
    have k: "keeps_ok ?f" using add_proxied_array_result [OF _ _ left] unfolding keeps_ok_def by blast
    obtain b b' where b: "?f b = Inr b'" "account_ok b" "wf_db d1" "ledger d1 = account_delta b b' (ledger d)"
      and b1: "map_of (rows (accounts d1)) p = Some b'"
      using modify_account_ledger [OF m Suc.prems(2) k] by auto
    note R = add_proxied_array_result [OF b(1,2) left, of "ledger d"]
    have "self_proxy b' = self_proxy b" using R by (simp add: self_proxy_def same_proxy_def)
    moreover have "wf_db d' \<and> ledger d' = (ledger d1)\<lparr>L_vsf := L_vsf (ledger d1) + (if self_proxy b' then 0 else weights_below left delta)\<rparr>"
      using Suc.IH [OF r b(3)] left b1 by simp
    ultimately show ?thesis using R b(4) False by (cases "self_proxy b") auto
  qed
qed

text \<open>The weights go only to accounts further up the chain; every other account stays as it is.\<close>

lemma adjust_proxied_array_above:
  assumes "adjust_proxied_array_at F left a delta d = Inr d'" "table_ok (accounts d)"
    and "map_of (rows (accounts d)) a = Some acc" "map_of (rows (accounts d)) j = Some r"
    and "(acc_name acc, acc_name r) \<notin> (proxies d)\<^sup>+"
  shows "map_of (rows (accounts d')) j = Some r"
  using assms
proof (induction left arbitrary: a acc d)
  case 0
  then show ?case using adjust_witness_votes_same [of F a _ d d'] by (auto simp: tbl_get_def split: if_splits)
next
  case (Suc left)
  show ?case
  proof (cases "self_proxy acc")
    case True
    then show ?thesis using Suc.prems adjust_witness_votes_same [of F a _ d d']
      by (auto simp: tbl_get_def self_proxy_def)
  next
    case False
    let ?f = "add_proxied_array F (4 - Suc left) delta"
    obtain p pa d1 where g: "get_account (acc_proxy acc) d = Inr (p, pa)" and m: "modify_account p ?f d = Inr d1"
      and r: "adjust_proxied_array_at F left p delta d1 = Inr d'"
      using Suc.prems(1,3) False by (auto simp: tbl_get_def self_proxy_def)
    have pa: "acc_name pa = acc_proxy acc" "map_of (rows (accounts d)) p = Some pa"
      using g Suc.prems(2) tbl_find_by_Some [of "\<lambda>a. acc_name a = acc_proxy acc"] by (auto simp: get_account_def tbl_get_by_Inr)
    have "(acc_name acc, acc_proxy acc) \<in> proxies d"
      using False map_of_SomeD [OF Suc.prems(3)] by (force simp: proxies_def self_proxy_def)
    then have e: "(acc_name acc, acc_name pa) \<in> proxies d" by (simp add: pa(1))
    obtain t where t: "tbl_modify key_account p ?f (accounts d) = Inr t" "d1 = d\<lparr>accounts := t\<rparr>"
      using m by (auto simp: modify_account_def)
    obtain pa' where pa': "?f pa = Inr pa'" "map_of (rows t) = (map_of (rows (accounts d)))(p \<mapsto> pa')"
      using tbl_modify_sum [OF t(1) Suc.prems(2)] pa(2) by auto
    have sp: "same_proxy pa pa'" by (rule yieldsD [OF add_proxied_array_same_proxy pa'(1)])
    have "p \<noteq> j" using e Suc.prems(4,5) pa(2) by auto
    then have j: "map_of (rows (accounts d1)) j = Some r" using pa'(2) Suc.prems(4) t(2) by simp
    have "same_proxies d d1" using m by (rule modify_account_proxies) (rule yieldsD [OF add_proxied_array_same_proxy])
    then have pr: "proxies d1 = proxies d" "table_ok (accounts d1)"
      using rows_rel_proxies Suc.prems(2) by (auto simp: same_proxies_def)
    have "(acc_name pa', acc_name r) \<notin> (proxies d1)\<^sup>+"
      using Suc.prems(5) e sp unfolding pr(1) by (auto simp: same_proxy_def dest: trancl_into_trancl2)
    from Suc.IH [OF r pr(2) _ j this] show ?thesis using pa'(2) t(2) by simp
  qed
qed

end

section \<open>The loop over the chain\<close>

lemma names_inj:
  assumes "unique_names d" "map_of (rows (accounts d)) i = Some a" "map_of (rows (accounts d)) j = Some b" "acc_name a = acc_name b"
  shows "i = j \<and> a = b"
proof -
  have "(i, a) \<in> set (rows (accounts d))" "(j, b) \<in> set (rows (accounts d))"
    using assms(2,3) by (auto dest: map_of_SomeD)
  then have "(i, a) = (j, b)"
    using assms(1,4) unfolding unique_names_def distinct_map inj_on_def by (metis snd_conv)
  then show ?thesis by simp
qed

lemma proxies_edge:
  assumes "unique_names d" "table_ok (accounts d)" "map_of (rows (accounts d)) i = Some a" "(acc_name a, x) \<in> proxies d"
  shows "x = acc_proxy a \<and> acc_proxy a \<noteq> []"
proof -
  obtain p where p: "p \<in> set (rows (accounts d))" "acc_name (snd p) = acc_name a" "x = acc_proxy (snd p)" "x \<noteq> []"
    using assms(4) by (auto simp: proxies_def)
  have "map_of (rows (accounts d)) (fst p) = Some (snd p)"
    using p(1) assms(2) by (intro map_of_is_SomeI) (auto simp: table_ok_def)
  from names_inj [OF assms(1) this assms(3) p(2)] show ?thesis using p(3,4) by simp
qed

lemma get_account_row:
  "get_account nm d = Inr (i, a) \<Longrightarrow> table_ok (accounts d) \<Longrightarrow> acc_name a = nm \<and> map_of (rows (accounts d)) i = Some a"
  using tbl_find_by_Some [of "\<lambda>a. acc_name a = nm"] by (auto simp: get_account_def tbl_get_by_Inr)

text \<open>When the loop ends normally, no account collected on the way is above the start of the chain.\<close>

lemma proxy_loop_sound:
  assumes "proxy_loop d nm chain = Inr ()" "unique_names d" "table_ok (accounts d)" "i \<in> set chain"
    and "map_of (rows (accounts d)) i = Some a" "nm \<noteq> []"
  shows "(nm, acc_name a) \<notin> (proxies d)\<^sup>*"
  using assms
proof (induction d nm chain rule: proxy_loop.induct)
  case (1 d nm chain)
  obtain n np where g: "get_account nm d = Inr (n, np)" and n: "n \<notin> set chain"
    and l: "length (n # chain) \<le> 4" and r: "proxy_loop d (acc_proxy np) (n # chain) = Inr ()"
    using 1(2,7) by (subst (asm) proxy_loop.simps) (auto split: sum.splits prod.splits if_splits)
  note row = get_account_row [OF g 1(4)]
  have ne: "nm \<noteq> acc_name a" using names_inj [OF 1(3) _ 1(6), of n np] row n 1(5) by auto
  show ?case
  proof
    assume "(nm, acc_name a) \<in> (proxies d)\<^sup>*"
    then obtain x where x: "(nm, x) \<in> proxies d" "(x, acc_name a) \<in> (proxies d)\<^sup>*"
      using ne by (meson converse_rtranclE)
    then have "x = acc_proxy np" "acc_proxy np \<noteq> []"
      using proxies_edge [OF 1(3,4), of n np x] row by auto
    moreover have "acc_proxy np \<noteq> [] \<Longrightarrow> (acc_proxy np, acc_name a) \<notin> (proxies d)\<^sup>*"
      by (rule 1(1) [OF _ g refl]) (use 1 n l r in auto)
    ultimately show False using x(2) by simp
  qed
qed

lemma loop_keeps_acyclic:
  assumes "proxy_ok d" "table_ok (accounts d)" "get_account nm d = Inr (k, np)" "proxy_loop d (acc_proxy np) chain = Inr ()"
    and "i \<in> set chain" "map_of (rows (accounts d)) i = Some acc" "nm \<noteq> acc_name acc"
  shows "acyclic (insert (acc_name acc, nm) (proxies d))"
proof -
  note K = get_account_row [OF assms(3,2)]
  have u: "unique_names d" "acyclic (proxies d)" using assms(1) by (simp_all add: proxy_ok_def)
  have "(nm, acc_name acc) \<notin> (proxies d)\<^sup>*"
  proof
    assume "(nm, acc_name acc) \<in> (proxies d)\<^sup>*"
    then obtain x where x: "(nm, x) \<in> proxies d" "(x, acc_name acc) \<in> (proxies d)\<^sup>*"
      using assms(7) by (meson converse_rtranclE)
    have e: "x = acc_proxy np" "acc_proxy np \<noteq> []"
      using proxies_edge [OF u(1) assms(2), of k np x] x(1) K by auto
    then show False using proxy_loop_sound [OF assms(4) u(1) assms(2,5,6) e(2)] x(2) by simp
  qed
  then show ?thesis using u(2) by (simp add: acyclic_insert)
qed

lemma set_proxy:
  assumes "modify_account i (\<lambda>a. Inr (a\<lparr>acc_proxy := x\<rparr>)) d = Inr d'" "table_ok (accounts d)"
    and "map_of (rows (accounts d)) i = Some acc"
  shows "proxies d' \<subseteq> insert (acc_name acc, x) (proxies d)" "x = [] \<Longrightarrow> proxies d' \<subseteq> proxies d" "unique_names d' = unique_names d"
proof -
  obtain t where t: "tbl_modify key_account i (\<lambda>a. Inr (a\<lparr>acc_proxy := x\<rparr>)) (accounts d) = Inr t" "d' = d\<lparr>accounts := t\<rparr>"
    using assms(1) by (auto simp: modify_account_def)
  have r: "rows t = map_assign i (acc\<lparr>acc_proxy := x\<rparr>) (rows (accounts d))"
    using t(1) assms(3) by (auto elim!: tbl_modify_elim)
  show "proxies d' \<subseteq> insert (acc_name acc, x) (proxies d)" "x = [] \<Longrightarrow> proxies d' \<subseteq> proxies d"
    using t(2) r by (auto simp: proxies_def image_iff dest!: set_assign)
  have "rows_rel (\<lambda>a a'. acc_name a' = acc_name a) (accounts d) t"
    by (rule tbl_modify_rel [OF t(1) assms(2)]) auto
  from rows_rel_map [OF this, of acc_name] show "unique_names d' = unique_names d"
    using map_snd_eq [of "\<lambda>p. acc_name (snd p)" "rows t" "rows (accounts d)"] t(2) by (simp add: unique_names_def)
qed

section \<open>Changing a proxy\<close>

definition weights :: "account_object \<Rightarrow> int list" where
  "weights a = amount (acc_vesting_shares a) # acc_proxied_vsf_votes a"

lemma length4:
  assumes "length xs = 4"
  shows "\<exists>a b c d. xs = [a, b, c, d]"
  using assms by (auto simp: numeral_eq_Suc length_Suc_conv)

lemma vsf_votes_weights:
  assumes "account_ok a"
  shows "vsf_votes a = (if self_proxy a then weights_below 4 (weights a) else 0) + acc_proxied_vsf_votes a ! 3"
proof -
  obtain p q r s where "acc_proxied_vsf_votes a = [p, q, r, s]"
    using assms length4 [of "acc_proxied_vsf_votes a"] by (auto simp: account_ok_def)
  then show ?thesis by (simp add: vsf_votes_def weights_def self_proxy_def weights_below_def upt_rec)
qed

lemma weights_below_uminus: "n \<le> length xs \<Longrightarrow> weights_below n (map uminus xs) = - weights_below n xs"
  by (induction n) auto

lemma same_funds_weights: "same_funds a a' \<Longrightarrow> weights a' = weights a"
  by (simp add: same_funds_def weights_def)

lemma clear_witness_votes_result:
  assumes "clear_witness_votes i d = Inr d'" "wf_db d" "map_of (rows (accounts d)) i = Some a"
  shows "wf_db d' \<and> ledger d' = ledger d \<and> same_proxies d d'
    \<and> map_of (rows (accounts d')) i = Some (a\<lparr>acc_witnesses_voted_for := 0\<rparr>)"
proof -
  obtain e where e: "efold (\<lambda>p d. ebind (tbl_remove (fst p) (witness_votes d)) (\<lambda>t. Inr (d\<lparr>witness_votes := t\<rparr>)))
        (votes_of_account i d) d = Inr e" and m: "modify_account i (\<lambda>acc. Inr (acc\<lparr>acc_witnesses_voted_for := 0\<rparr>)) e = Inr d'"
    using assms(1) by (auto simp: clear_witness_votes_def)
  have E: "same_money d e \<and> accounts e = accounts d"
    using e by (rule efold_invariant) (auto simp: same_money_def wf_db_def ledger_def)
  have "same_money e d'" using m by (rule modify_account_same) (auto simp: same_funds_def)
  moreover have "same_proxies e d'" using m by (rule modify_account_proxies) (auto simp: same_proxy_def)
  moreover have "same_proxies d e" using E by (simp add: same_proxies_fields [of e d d])
  moreover have "map_of (rows (accounts d')) i = Some (a\<lparr>acc_witnesses_voted_for := 0\<rparr>)"
    using tbl_modify_sum [of key_account i _ "accounts e"] m E assms(2,3) by (fastforce simp: modify_account_def wf_db_def)
  ultimately show ?thesis using E assms(2) same_proxies_trans by (auto simp: same_money_def)
qed

context fc_env
begin

lemma negate_all:
  "efold (\<lambda>v ds. ebind (fc_neg F v) (\<lambda>n. Inr (ds @ [n]))) xs ys = Inr zs \<Longrightarrow> zs = ys @ map uminus xs"
  by (induction xs arbitrary: ys) fastforce+

lemma set_proxy_ledger:
  assumes "modify_account i (\<lambda>a. Inr (a\<lparr>acc_proxy := x\<rparr>)) d = Inr d'" "wf_db d" "map_of (rows (accounts d)) i = Some a"
  shows "wf_db d' \<and> map_of (rows (accounts d')) i = Some (a\<lparr>acc_proxy := x\<rparr>)
    \<and> ledger d' = (ledger d)\<lparr>L_vsf := L_vsf (ledger d) - (if self_proxy a then weights_below 4 (weights a) else 0)
        + (if x = [] then weights_below 4 (weights a) else 0)\<rparr>"
proof -
  have k: "keeps_ok (\<lambda>a. Inr (a\<lparr>acc_proxy := x\<rparr>))" by (auto simp: keeps_ok_def account_ok_def)
  have A: "account_ok a" "wf_db d'" "ledger d' = account_delta a (a\<lparr>acc_proxy := x\<rparr>) (ledger d)"
    "map_of (rows (accounts d')) i = Some (a\<lparr>acc_proxy := x\<rparr>)"
    using modify_account_ledger [OF assms(1,2) k] assms(3) by auto
  have "account_ok (a\<lparr>acc_proxy := x\<rparr>)" using A(1) by (simp add: account_ok_def)
  then show ?thesis using A vsf_votes_weights [of a] vsf_votes_weights [of "a\<lparr>acc_proxy := x\<rparr>"]
    by (simp add: account_delta_def steem_of_def vests_of_def self_proxy_def weights_def)
qed

text \<open>The three steps: take the weights off the old chain, move the account, put them on the new chain.\<close>

lemma remove_from_chain:
  assumes r: "adjust_proxied_array_at F 4 i (map uminus (weights acc)) d = Inr d1"
    and wf: "wf_db d" and ok: "proxy_ok d" and i: "map_of (rows (accounts d)) i = Some acc"
  shows "wf_db d1 \<and> same_proxies d d1 \<and> map_of (rows (accounts d1)) i = Some acc
    \<and> ledger d1 = (ledger d)\<lparr>L_vsf := L_vsf (ledger d) - (if self_proxy acc then 0 else weights_below 4 (weights acc))\<rparr>"
proof -
  have "account_ok acc" using tbl_allD [OF wf_dbD(2) [OF wf] i] .
  then have l: "length (weights acc) = 5" by (simp add: weights_def account_ok_def)
  have "(acc_name acc, acc_name acc) \<notin> (proxies d)\<^sup>+" using ok by (simp add: proxy_ok_def acyclic_def)
  then have "map_of (rows (accounts d1)) i = Some acc"
    using adjust_proxied_array_above [OF r wf_dbD(1) [OF wf] i i] by simp
  then show ?thesis
    using adjust_proxied_array_ledger [OF r wf _ i] yieldsD [OF array_proxies [of d d] r] l
    by (auto simp: weights_below_uminus)
qed

lemma account_witness_proxy_result:
  assumes wf: "wf_db d" and ok: "proxy_ok d" and ne: "awp_proxy op \<noteq> awp_account op"
  shows "yields (account_witness_proxy_do_apply F op d) (\<lambda>d'. wf_db d' \<and> proxy_ok d' \<and> ledger d' = ledger d)"
proof -
  have main: "wf_db d' \<and> proxy_ok d' \<and> ledger d' = ledger d"
    if g: "get_account (awp_account op) d = Inr (i, acc)"
      and r: "adjust_proxied_array_at F 4 i (map uminus (weights acc)) d = Inr d1"
      and c: "awp_proxy op \<noteq> [] \<and> get_account (awp_proxy op) d1 = Inr (k, np)
          \<and> proxy_loop d1 (acc_proxy np) (remdups [i, k]) = Inr () \<and> clear_witness_votes i d1 = Inr d2
        \<or> awp_proxy op = [] \<and> d2 = d1"
      and m: "modify_account i (\<lambda>a. Inr (a\<lparr>acc_proxy := awp_proxy op\<rparr>)) d2 = Inr d3"
      and a: "awp_proxy op \<noteq> [] \<and> adjust_proxied_array_at F 4 i (weights acc) d3 = Inr d' \<or> awp_proxy op = [] \<and> d' = d3"
    for i acc d1 k np d2 d3 d'
  proof -
    note t0 = wf_dbD(1) [OF wf]
    note G = get_account_row [OF g t0]
    note R = remove_from_chain [OF r wf ok conjunct2 [OF G]]
    have t1: "table_ok (accounts d1)" using R by (simp add: wf_db_def)
    have P1: "proxies d1 = proxies d" "unique_names d1 = unique_names d"
      using R t0 rows_rel_proxies by (auto simp: same_proxies_def)
    obtain acc2 where C: "wf_db d2" "same_proxies d1 d2" "map_of (rows (accounts d2)) i = Some acc2" "ledger d2 = ledger d1"
      "same_funds acc acc2" "same_proxy acc acc2"
    proof (cases "awp_proxy op = []")
      case True
      then have "d2 = d1" using c by simp
      then show ?thesis using that [of acc] R by (simp add: same_funds_def)
    next
      case False
      then have cl: "clear_witness_votes i d1 = Inr d2" using c by simp
      have "wf_db d1" "map_of (rows (accounts d1)) i = Some acc" using R by auto
      from clear_witness_votes_result [OF cl this] show ?thesis
        using that [of "acc\<lparr>acc_witnesses_voted_for := 0\<rparr>"] by (simp add: same_funds_def same_proxy_def)
    qed
    have t2: "table_ok (accounts d2)" using C(1) by (simp add: wf_db_def)
    have P2: "proxies d2 = proxies d" "unique_names d2 = unique_names d"
      using C(2) t1 P1 rows_rel_proxies by (auto simp: same_proxies_def)
    have w2: "weights acc2 = weights acc" "self_proxy acc2 = self_proxy acc" "acc_name acc2 = awp_account op"
      using C(5,6) G by (simp_all add: same_funds_weights self_proxy_def same_proxy_def)
    note S = set_proxy_ledger [OF m C(1,3)]
    have t3: "table_ok (accounts d3)" using S by (simp add: wf_db_def)
    note SP = set_proxy [OF m t2 C(3)]
    have u: "unique_names d" "acyclic (proxies d)" using ok by (simp_all add: proxy_ok_def)
    have ac: "acyclic (proxies d3)"
    proof (cases "awp_proxy op = []")
      case True
      then show ?thesis using SP(2) P2(1) u(2) acyclic_subset by auto
    next
      case False
      have "acyclic (insert (acc_name acc, awp_proxy op) (proxies d1))"
        by (rule loop_keeps_acyclic [of d1 "awp_proxy op" k np "remdups [i, k]" i acc])
           (use c False R G u P1 t1 ne in \<open>auto simp: proxy_ok_def\<close>)
      then show ?thesis by (rule acyclic_subset) (use SP(1) P1(1) P2(1) w2(3) G in simp)
    qed
    then have ok3: "proxy_ok d3" using SP(3) P2(2) u(1) by (simp add: proxy_ok_def)
    have len: "length (weights acc) = 5"
      using tbl_allD [OF wf_dbD(2) [OF wf] conjunct2 [OF G]] by (simp add: weights_def account_ok_def)
    show ?thesis
    proof (cases "awp_proxy op = []")
      case True
      then show ?thesis using a S R C(4) w2 ok3 by auto
    next
      case False
      then have a': "adjust_proxied_array_at F 4 i (weights acc) d3 = Inr d'" using a by simp
      have i3: "map_of (rows (accounts d3)) i = Some (acc2\<lparr>acc_proxy := awp_proxy op\<rparr>)" and w3: "wf_db d3" using S by auto
      have "same_proxies d3 d'" by (rule yieldsD [OF array_proxies a']) simp
      then have "proxy_ok d'" using t3 ok3 by (rule same_proxies_ok)
      moreover have "wf_db d' \<and> ledger d' = (ledger d3)\<lparr>L_vsf := L_vsf (ledger d3) + weights_below 4 (weights acc)\<rparr>"
        using adjust_proxied_array_ledger [OF a' w3 _ i3] False by (simp add: self_proxy_def)
      ultimately show ?thesis using False S R C(4) w2 by auto
    qed
  qed
  show ?thesis
    unfolding account_witness_proxy_do_apply_def adjust_proxied_witness_votes_array_def
  proof (intro wp yieldsI)
    fix r i acc delta0 delta d1 r2 k np u d2 d3 delta2 d'
    assume h: "get_account (awp_account op) d = Inr r" "r = (i, acc)"
      "fc_neg F (amount (acc_vesting_shares acc)) = Inr delta0"
      "efold (\<lambda>v ds. ebind (fc_neg F v) (\<lambda>n. Inr (ds @ [n]))) (acc_proxied_vsf_votes acc) [delta0] = Inr delta"
      "adjust_proxied_array_at F 4 i delta d = Inr d1" "length (awp_proxy op) \<noteq> 0"
      "get_account (awp_proxy op) d1 = Inr r2" "r2 = (k, np)"
      "proxy_loop d1 (acc_proxy np) (remdups [i, k]) = Inr u"
      "clear_witness_votes i d1 = Inr d2" "modify_account i (\<lambda>a. Inr (a\<lparr>acc_proxy := awp_proxy op\<rparr>)) d2 = Inr d3"
      "efold (\<lambda>v ds. ebind (fc_neg F v) (\<lambda>n. Inr (ds @ [n]))) delta [] = Inr delta2"
      "adjust_proxied_array_at F 4 i delta2 d3 = Inr d'"
    have delta: "delta = map uminus (weights acc)" using negate_all [OF h(4)] h(3) by (simp add: weights_def)
    have "delta2 = weights acc" using negate_all [OF h(12)] delta by (simp add: comp_def)
    then show "wf_db d' \<and> proxy_ok d' \<and> ledger d' = ledger d" using main [of i acc d1 k np d2 d3 d'] h delta by simp
  next
    fix r i acc delta0 delta d1 d'
    assume h: "get_account (awp_account op) d = Inr r" "r = (i, acc)"
      "fc_neg F (amount (acc_vesting_shares acc)) = Inr delta0"
      "efold (\<lambda>v ds. ebind (fc_neg F v) (\<lambda>n. Inr (ds @ [n]))) (acc_proxied_vsf_votes acc) [delta0] = Inr delta"
      "adjust_proxied_array_at F 4 i delta d = Inr d1" "\<not> length (awp_proxy op) \<noteq> 0"
      "modify_account i (\<lambda>a. Inr (a\<lparr>acc_proxy := awp_proxy op\<rparr>)) d1 = Inr d'"
    have "delta = map uminus (weights acc)" using negate_all [OF h(4)] h(3) by (simp add: weights_def)
    then show "wf_db d' \<and> proxy_ok d' \<and> ledger d' = ledger d" using main [of i acc d1 _ _ d1 d' d'] h by simp
  qed
qed

end

end
