(* ===== verification/Transfers.thy ===== *)
theory Transfers
  imports Proxy
begin

text \<open>
  The exact effect of transfers (who gains, who loses, and when the evaluator refuses) and the
  bound on the percentages of withdrawal routes.
\<close>

section \<open>Transfers\<close>

text \<open>A modification that keeps the name of the account never violates the uniqueness of names.\<close>

lemma modify_account_Inr:
  assumes "table_ok (accounts d)" "unique_names d" "map_of (rows (accounts d)) i = Some a"
    and "\<And>a'. f a = Inr a' \<Longrightarrow> acc_name a' = acc_name a"
  shows "modify_account i f d = ebind (f a) (\<lambda>a'. Inr (d\<lparr>accounts := (accounts d)\<lparr>rows := map_assign i a' (rows (accounts d))\<rparr>\<rparr>))"
proof (cases "f a")
  case (Inr a')
  have n: "acc_name a' = acc_name a" using assms(4) Inr by simp
  have "\<not> (\<exists>p\<in>set (rows (accounts d)). fst p \<noteq> i \<and> key_account (snd p) = key_account a')"
  proof
    assume "\<exists>p\<in>set (rows (accounts d)). fst p \<noteq> i \<and> key_account (snd p) = key_account a'"
    then obtain j b where b: "(j, b) \<in> set (rows (accounts d))" "j \<noteq> i" "acc_name b = acc_name a"
      using n by (auto simp: key_account_def)
    then have "map_of (rows (accounts d)) j = Some b" using assms(1) by (auto simp: table_ok_def)
    then show False using names_inj [OF assms(2) _ assms(3)] b by blast
  qed
  moreover have "i \<in> fst ` set (rows (accounts d))" using assms(3) by (force dest: map_of_SomeD)
  ultimately show ?thesis using assms(3) Inr by (simp add: modify_account_def tbl_modify_def set_row_def)
qed (use assms(3) in \<open>simp add: modify_account_def tbl_modify_def\<close>)

definition with_row :: "int \<Rightarrow> account_object \<Rightarrow> database \<Rightarrow> database" where
  "with_row i a d = d\<lparr>accounts := (accounts d)\<lparr>rows := map_assign i a (rows (accounts d))\<rparr>\<rparr>"

lemma map_assign_twice [simp]: "map_assign i a (map_assign i b m) = map_assign i a m"
  by (simp add: map_assign_def)

lemma map_assign_id: "distinct (map fst m) \<Longrightarrow> map_of m i = Some a \<Longrightarrow> map_assign i a m = m"
  by (auto simp: map_assign_def map_of_eq_Some_iff intro!: map_idI) (metis eq_key_imp_eq_value)

lemma with_row_facts:
  assumes "table_ok (accounts d)" "unique_names d" "map_of (rows (accounts d)) i = Some a" "acc_name a' = acc_name a"
  shows "table_ok (accounts (with_row i a' d))" "unique_names (with_row i a' d)"
    "map_of (rows (accounts (with_row i a' d))) = (map_of (rows (accounts d)))(i \<mapsto> a')"
    "with_row i a d = d" "with_row i b (with_row i a' d) = with_row i b d"
proof -
  have m: "modify_account i (\<lambda>_. Inr a') d = Inr (with_row i a' d)"
    by (subst modify_account_Inr [OF assms(1-3)]) (use assms(4) in \<open>auto simp: with_row_def\<close>)
  then obtain t where t: "tbl_modify key_account i (\<lambda>_. Inr a') (accounts d) = Inr t" "with_row i a' d = d\<lparr>accounts := t\<rparr>"
    by (auto simp: modify_account_def)
  show "table_ok (accounts (with_row i a' d))" using tbl_modify_ok [OF t(1) assms(1)] t(2) by simp
  show "map_of (rows (accounts (with_row i a' d))) = (map_of (rows (accounts d)))(i \<mapsto> a')"
    using tbl_modify_sum [OF t(1) assms(1)] t(2) by auto
  have "map (\<lambda>p. acc_name (snd p)) (rows (accounts (with_row i a' d))) = map (\<lambda>p. acc_name (snd p)) (rows (accounts d))"
    using assms(1,3,4) by (auto simp: with_row_def map_assign_def table_ok_def dest: eq_key_imp_eq_value)
  then show "unique_names (with_row i a' d)" using assms(2) by (simp add: unique_names_def)
  show "with_row i a d = d" using assms(1,3) by (simp add: with_row_def map_assign_id table_ok_def)
  show "with_row i b (with_row i a' d) = with_row i b d" by (simp add: with_row_def)
qed

context fc_env
begin

lemma adjust_balance_eq:
  assumes "table_ok (accounts d)" "unique_names d" "map_of (rows (accounts d)) i = Some a"
    "symbol (acc_balance a) = WLS_SYMBOL" "symbol delta = WLS_SYMBOL"
  shows "adjust_balance F i delta d = Inr d' \<longleftrightarrow> in64 (amount (acc_balance a) + amount delta)
    \<and> d' = with_row i (a\<lparr>acc_balance := WLS (amount (acc_balance a) + amount delta)\<rparr>) d"
proof -
  have "adjust_balance F i delta d = ebind (asset_add F (acc_balance a) delta) (\<lambda>b. Inr (with_row i (a\<lparr>acc_balance := b\<rparr>) d))"
    unfolding adjust_balance_def
    by (subst modify_account_Inr [OF assms(1-3)]) (use assms(5) in \<open>auto simp: with_row_def ebind_assoc\<close>)
  then show ?thesis using assms(4,5) by auto
qed

lemma transfer_spec:
  assumes wf: "wf_db d" and u: "unique_names d"
  shows "transfer_do_apply F op d = Inr d' \<longleftrightarrow> (\<exists>i a j b. get_account (tro_from op) d = Inr (i, a)
    \<and> get_account (tro_to op) d = Inr (j, b) \<and> symbol (tro_amount op) = WLS_SYMBOL
    \<and> amount (tro_amount op) \<le> amount (acc_balance a)
    \<and> in64 (- amount (tro_amount op)) \<and> in64 (amount (acc_balance a) - amount (tro_amount op))
    \<and> in64 (if i = j then amount (acc_balance a) else amount (acc_balance b) + amount (tro_amount op))
    \<and> d' = (if i = j then d else
        with_row j (b\<lparr>acc_balance := WLS (amount (acc_balance b) + amount (tro_amount op))\<rparr>)
        (with_row i (a\<lparr>acc_balance := WLS (amount (acc_balance a) - amount (tro_amount op))\<rparr>) d)))"
    (is "?L \<longleftrightarrow> ?R")
proof -
  note t = wf_dbD(1) [OF wf]
  have row: "map_of (rows (accounts d)) i = Some a \<and> symbol (acc_balance a) = WLS_SYMBOL" if "get_account nm d = Inr (i, a)" for nm i a
    using get_account_row [OF that t] tbl_allD [OF wf_dbD(2) [OF wf]] by (auto simp: account_ok_def)
  have core: "ebind (adjust_balance F i \<lparr>amount = - amount x, symbol = WLS_SYMBOL\<rparr> d) (adjust_balance F j x) = Inr d' \<longleftrightarrow>
      in64 (amount (acc_balance a) - amount x) \<and> in64 (if i = j then amount (acc_balance a) else amount (acc_balance b) + amount x)
      \<and> d' = (if i = j then d else with_row j (b\<lparr>acc_balance := WLS (amount (acc_balance b) + amount x)\<rparr>)
        (with_row i (a\<lparr>acc_balance := WLS (amount (acc_balance a) - amount x)\<rparr>) d))"
    if i: "map_of (rows (accounts d)) i = Some a" "symbol (acc_balance a) = WLS_SYMBOL"
      and j: "map_of (rows (accounts d)) j = Some b" "symbol (acc_balance b) = WLS_SYMBOL"
      and x: "symbol x = WLS_SYMBOL" for i a j b x
  proof -
    let ?a = "a\<lparr>acc_balance := WLS (amount (acc_balance a) - amount x)\<rparr>"
    note W = with_row_facts [OF t u i(1), of ?a]
    have w: "WLS (amount (acc_balance a)) = acc_balance a" using i(2) by simp
    have j': "map_of (rows (accounts (with_row i ?a d))) j = Some (if i = j then ?a else b)" using W(3) j(1) by simp
    show ?thesis
      using adjust_balance_eq [OF t u i] adjust_balance_eq [of "with_row i ?a d" j _ x, OF W(1,2) j'] W(4,5) x i j w
      by (cases "i = j") auto
  qed
  show ?thesis
  proof
    assume ?L
    then obtain i a j b neg where "get_account (tro_from op) d = Inr (i, a)" "get_account (tro_to op) d = Inr (j, b)"
      "symbol (tro_amount op) = WLS_SYMBOL" "amount (tro_amount op) \<le> amount (acc_balance a)"
      "asset_neg F (tro_amount op) = Inr neg" "ebind (adjust_balance F i neg d) (adjust_balance F j (tro_amount op)) = Inr d'"
      unfolding transfer_do_apply_def by (auto simp: get_balance_def split: prod.splits if_splits)
    then show ?R using core [of i a j b "tro_amount op"] row by fastforce
  next
    assume ?R
    then obtain i a j b where h: "get_account (tro_from op) d = Inr (i, a)" "get_account (tro_to op) d = Inr (j, b)"
      "symbol (tro_amount op) = WLS_SYMBOL" "amount (tro_amount op) \<le> amount (acc_balance a)" "in64 (- amount (tro_amount op))"
      "ebind (adjust_balance F i \<lparr>amount = - amount (tro_amount op), symbol = WLS_SYMBOL\<rparr> d) (adjust_balance F j (tro_amount op)) = Inr d'"
      using core row by metis
    then show ?L using row [OF h(1)] unfolding transfer_do_apply_def by (auto simp: get_balance_def)
  qed
qed

end

section \<open>Withdrawal routes\<close>

text \<open>
  \<open>routed i d\<close> is the sum of the percentages of all routes of account \<open>i\<close> that withdrawals follow,
  without wrap-around.
\<close>

definition routed :: "int \<Rightarrow> withdraw_vesting_route_object table \<Rightarrow> int" where
  "routed i t = tbl_sum (\<lambda>r. if wro_from_account r = i \<and> 0 < wro_to_account r then uint (wro_percent r) else 0) t"

definition routes_bounded :: "database \<Rightarrow> bool" where
  "routes_bounded d \<longleftrightarrow> table_ok (withdraw_routes d) \<and> (\<forall>i. routed i (withdraw_routes d) \<le> 10000)"

lemma routed_total:
  "uint (fold (\<lambda>r t. t + wro_percent (snd r)) (routes_from i d) 0) = routed i (withdraw_routes d) mod 2 ^ 16"
proof -
  have f: "uint (fold (\<lambda>r t. t + wro_percent (snd r)) rs x) = (uint x + (\<Sum>r\<leftarrow>rs. uint (wro_percent (snd r)))) mod 2 ^ 16"
    for rs :: "(int \<times> withdraw_vesting_route_object) list" and x
  proof (induction rs arbitrary: x)
    case Nil
    then show ?case using uint_lt2p [of x] by simp
  next
    case (Cons r rs)
    then show ?case by (simp add: uint_word_ariths mod_simps add.assoc)
  qed
  have "(\<Sum>r\<leftarrow>routes_from i d. uint (wro_percent (snd r))) = routed i (withdraw_routes d)"
    unfolding routes_from_def fc64.sum_list_sort_key routed_def tbl_sum_def sum_list_map_filter' ..
  then show ?thesis by (simp add: f)
qed

text \<open>A table operation on one route of \<open>i\<close> adds at most its percentage to the total of \<open>i\<close>.\<close>

definition routes_grow :: "int \<Rightarrow> int \<Rightarrow> withdraw_vesting_route_object table \<Rightarrow> withdraw_vesting_route_object table \<Rightarrow> bool" where
  "routes_grow i p t t' \<longleftrightarrow> table_ok t' \<and> (\<forall>k. routed k t' \<le> routed k t + (if k = i then p else 0))"

lemma neg_uint_le: "- uint a \<le> uint b"
  using uint_ge_0 [of a] uint_ge_0 [of b] by linarith

lemma routes_modify:
  assumes "tbl_modify key_route k (\<lambda>_. Inr r) t = Inr t'" "table_ok t"
  shows "routes_grow (wro_from_account r) (uint (wro_percent r)) t t'"
  using tbl_modify_sum [OF assms] tbl_modify_ok [OF assms] unfolding routed_def routes_grow_def
  by (auto simp: neg_uint_le)

lemma routes_create:
  assumes "tbl_create key_route r t = Inr (k, t')" "table_ok t"
  shows "routes_grow (wro_from_account r) (uint (wro_percent r)) t t'"
  using tbl_create_sum [OF assms(1)] tbl_create_ok [OF assms] unfolding routed_def routes_grow_def by fastforce

lemma routes_remove:
  assumes "tbl_remove k t = Inr t'" "table_ok t" "0 \<le> p"
  shows "routes_grow i p t t'"
proof -
  have "routed j t' \<le> routed j t" for j
    using tbl_remove_sum [OF assms(1,2), of "\<lambda>r. if wro_from_account r = j \<and> 0 < wro_to_account r then uint (wro_percent r) else 0"]
    unfolding routed_def by fastforce
  then show ?thesis using tbl_remove_ok [OF assms(1,2)] assms(3) by (simp add: routes_grow_def add_increasing2)
qed

text \<open>
  After a change of one route of \<open>i\<close> by at most 100%, the 16-bit total is exact, so the final check
  of the evaluator bounds the real total.
\<close>

lemma routed_checked:
  assumes "fold (\<lambda>r t. t + wro_percent (snd r)) (routes_from i d) 0 \<le> (10000 :: u16)"
    and "0 \<le> routed i (withdraw_routes d)" "routed i (withdraw_routes d) \<le> 20000"
  shows "routed i (withdraw_routes d) \<le> 10000"
proof -
  have "uint (fold (\<lambda>r t. t + wro_percent (snd r)) (routes_from i d) 0) \<le> 10000"
    using assms(1) by (simp add: word_le_def)
  then show ?thesis using routed_total [of i d] assms(2,3) by simp
qed

lemma routed_nonneg: "0 \<le> routed i t"
  by (auto simp: routed_def tbl_sum_def intro!: sum_list_nonneg)

lemma set_withdraw_vesting_route_bounded:
  assumes ok: "routes_bounded d" and p: "swr_percent op \<le> 10000"
  shows "yields (set_withdraw_vesting_route_do_apply op d) routes_bounded"
proof -
  have up: "uint (swr_percent op) \<le> 10000" using p by (simp add: word_le_def)
  note t = ok [unfolded routes_bounded_def, THEN conjunct1]
  have main: "routes_bounded d'"
    if c: "routes_grow i (uint (swr_percent op)) (withdraw_routes d) (withdraw_routes d')"
      and f: "fold (\<lambda>r t. t + wro_percent (snd r)) (routes_from i d') 0 \<le> 10000" for i d'
  proof -
    have g: "routed k (withdraw_routes d') \<le> routed k (withdraw_routes d) + (if k = i then uint (swr_percent op) else 0)"
      "routed k (withdraw_routes d) \<le> 10000" for k
      using c ok by (simp_all add: routes_grow_def routes_bounded_def)
    have "routed i (withdraw_routes d') \<le> 10000"
      using g [of i] up by (intro routed_checked [OF f routed_nonneg]) simp
    then have "routed k (withdraw_routes d') \<le> 10000" for k
      using g [of k] by (cases "k = i") auto
    then show ?thesis using c by (simp add: routes_bounded_def routes_grow_def)
  qed
  have m: "withdraw_routes e = withdraw_routes d" if "modify_account i f d = Inr e" for i f d e
    using that by (auto simp: modify_account_def)
  show ?thesis
    unfolding set_withdraw_vesting_route_do_apply_def Let_def
  proof (intro wp)
    fix r i fa r2 j ta d'
    assume c: "(case tbl_find_by (\<lambda>r. wro_from_account r = i \<and> wro_to_account r = j) (withdraw_routes d) of
         None \<Rightarrow>
           require (swr_percent op \<noteq> 0) (require (acc_withdraw_routes fa < WLS_MAX_WITHDRAW_ROUTES)
           (ebind (tbl_create key_route \<lparr>wro_from_account = i, wro_to_account = j,
                  wro_percent = swr_percent op, wro_auto_vest = swr_auto_vest op\<rparr> (withdraw_routes d)) (\<lambda>(_, t).
            modify_account i (\<lambda>a. Inr (a\<lparr>acc_withdraw_routes := acc_withdraw_routes a + 1\<rparr>)) (d\<lparr>withdraw_routes := t\<rparr>))))
       | Some (k, _) \<Rightarrow>
           if swr_percent op = 0 then
             ebind (tbl_remove k (withdraw_routes d)) (\<lambda>t.
             modify_account i (\<lambda>a. Inr (a\<lparr>acc_withdraw_routes := acc_withdraw_routes a - 1\<rparr>)) (d\<lparr>withdraw_routes := t\<rparr>))
           else
             ebind (tbl_modify key_route k (\<lambda>_. Inr \<lparr>wro_from_account = i, wro_to_account = j,
                  wro_percent = swr_percent op, wro_auto_vest = swr_auto_vest op\<rparr>) (withdraw_routes d)) (\<lambda>t.
             Inr (d\<lparr>withdraw_routes := t\<rparr>))) = Inr d'"
      and f: "fold (\<lambda>r total_percent. total_percent + wro_percent (snd r)) (routes_from i d') 0 \<le> 10000"
    let ?r = "\<lparr>wro_from_account = i, wro_to_account = j, wro_percent = swr_percent op, wro_auto_vest = swr_auto_vest op\<rparr>"
    consider k where "tbl_create key_route ?r (withdraw_routes d) = Inr (k, withdraw_routes d')"
      | k where "tbl_remove k (withdraw_routes d) = Inr (withdraw_routes d')"
      | k where "tbl_modify key_route k (\<lambda>_. Inr ?r) (withdraw_routes d) = Inr (withdraw_routes d')"
      using c by (auto split: option.splits prod.splits if_splits dest!: m)
    then show "routes_bounded d'"
    proof cases
      case 1
      show ?thesis by (rule main [OF _ f]) (use routes_create [OF 1 t] in simp)
    next
      case 2
      show ?thesis by (rule main [OF _ f]) (use routes_remove [OF 2 t] in simp)
    next
      case 3
      show ?thesis by (rule main [OF _ f]) (use routes_modify [OF 3 t] in simp)
    qed
  qed
qed

section \<open>Properties\<close>

text \<open>
  (C14) The evaluator of transfers, completely: it succeeds exactly when both accounts exist, the
  amount is in tokens, the sender's balance covers it and no balance leaves 64 bits; then exactly
  the amount moves from the sender's balance to the receiver's and nothing else in the database
  changes (a transfer to oneself changes nothing at all).
\<close>

theorem transfer_exact:
  assumes "fc_ok F" "wf_db d" "unique_names d"
  shows "transfer_do_apply F op d = Inr d' \<longleftrightarrow> (\<exists>i a j b. get_account (tro_from op) d = Inr (i, a)
    \<and> get_account (tro_to op) d = Inr (j, b) \<and> symbol (tro_amount op) = WLS_SYMBOL
    \<and> amount (tro_amount op) \<le> amount (acc_balance a)
    \<and> in64 (- amount (tro_amount op)) \<and> in64 (amount (acc_balance a) - amount (tro_amount op))
    \<and> in64 (if i = j then amount (acc_balance a) else amount (acc_balance b) + amount (tro_amount op))
    \<and> d' = (if i = j then d else
        with_row j (b\<lparr>acc_balance := WLS (amount (acc_balance b) + amount (tro_amount op))\<rparr>)
        (with_row i (a\<lparr>acc_balance := WLS (amount (acc_balance a) - amount (tro_amount op))\<rparr>) d)))"
  by (rule fc_env.transfer_spec [OF fc_env.intro [OF assms(1)] assms(2,3)])

lemma sample_unique_names: "unique_names sample_db"
  by (simp add: sample_simps unique_names_def)

theorem transfer_exact_witness:
  "transfer_do_apply fc_int64 \<lparr>tro_from = ''alice'', tro_to = ''bob'', tro_amount = WLS 300, tro_memo = []\<rparr> sample_db
     = Inr (with_row 2 ((snd (rows (accounts sample_db) ! 2))\<lparr>acc_balance := WLS 800\<rparr>)
        (with_row 1 ((snd (rows (accounts sample_db) ! 1))\<lparr>acc_balance := WLS 700\<rparr>) sample_db))"
  unfolding transfer_exact [OF fc_ok_int64 sample_wf sample_unique_names]
  by (simp add: sample_simps get_account_def tbl_get_by_def tbl_find_by_def in64_def)

text \<open>
  Withdrawal routes never promise more than everything: if the percentages of the routes of
  every account sum to at most 100% (counted without wrap-around), they still do after
  \<open>set_withdraw_vesting_route\<close>, although the evaluator sums them in 16 bits.  So the vesting
  withdrawals of an account never exceed what is due to it.
\<close>

theorem routes_stay_bounded:
  assumes "routes_bounded d" "set_withdraw_vesting_route_validate op = Inr ()"
    and "set_withdraw_vesting_route_do_apply op d = Inr d'"
  shows "routes_bounded d'"
proof -
  have "swr_percent op \<le> 10000" using assms(2) by (auto simp: set_withdraw_vesting_route_validate_def validate_account_name_def)
  from yieldsD [OF set_withdraw_vesting_route_bounded [OF assms(1) this] assms(3)] show ?thesis .
qed

lemma sample_routes_bounded: "routes_bounded sample_db"
proof -
  have "routed i (withdraw_routes sample_db) \<le> 10000" for i
    by (simp add: sample_db_def routed_def tbl_sum_def)
  then show ?thesis by (simp add: routes_bounded_def sample_db_def table_ok_def)
qed

theorem routes_stay_bounded_witness:
  "\<exists>d'. set_withdraw_vesting_route_do_apply \<lparr>swr_from_account = ''alice'', swr_to_account = ''bob'', swr_percent = 8000, swr_auto_vest = False\<rparr>
     sample_db = Inr d' \<and> routes_bounded d'"
proof -
  let ?op = "\<lparr>swr_from_account = ''alice'', swr_to_account = ''bob'', swr_percent = 8000, swr_auto_vest = False\<rparr>"
  have "\<not> isl (set_withdraw_vesting_route_do_apply ?op sample_db)" by code_simp
  then obtain d' where d': "set_withdraw_vesting_route_do_apply ?op sample_db = Inr d'"
    by (cases "set_withdraw_vesting_route_do_apply ?op sample_db") auto
  have "set_withdraw_vesting_route_validate ?op = Inr ()" by code_simp
  from routes_stay_bounded [OF sample_routes_bounded this d'] d' show ?thesis by blast
qed


lemma sample_proxy_ok: "proxy_ok sample_db"
proof -
  have "\<forall>p\<in>set (rows (accounts sample_db)). acc_proxy (snd p) = []" by (simp add: sample_simps)
  then have "proxies sample_db = {}" by (auto simp: proxies_def)
  then show ?thesis using sample_unique_names by (simp add: proxy_ok_def acyclic_def)
qed


end
