(* ===== verification/Comments.thy ===== *)
theory Comments
  imports Transfers
begin

text \<open>
  Comments and votes: the evaluators \<open>delete_comment\<close>, \<open>comment_options\<close>, \<open>comment\<close> and \<open>vote\<close> of
  \<open>wls_evaluator.cpp\<close>.

  Editing a body applies a text patch with the library \<open>diff_match_patch\<close>, which is not part of the
  repository.  It is the parameter \<open>T\<close>: \<open>dmp_patch body old\<close> is the patched text, or \<open>None\<close> when the
  new body is no patch or the library throws; \<open>prune_invalid_utf8\<close> is the function of \<open>fc\<close>.
\<close>

record text_lib =
  dmp_patch :: "string \<Rightarrow> string \<Rightarrow> string option"
  prune_invalid_utf8 :: "string \<Rightarrow> string"

section \<open>Permlinks\<close>

definition validate_permlink_0_1 :: "string \<Rightarrow> unit result" where
  "validate_permlink_0_1 permlink =
     require (length permlink > 0 \<and> length permlink < WLS_MAX_PERMLINK_LENGTH)
     (efold (\<lambda>c _. require (c \<in> set ''abcdefghijklmnopqrstuvwxyz0123456789-'') (Inr ())) permlink ())"

definition strcmp_equal :: "string \<Rightarrow> string \<Rightarrow> bool" where
  "strcmp_equal a b \<longleftrightarrow> length a = length b
     \<or> takeWhile (\<lambda>c. c \<noteq> CHR 0x00) a = takeWhile (\<lambda>c. c \<noteq> CHR 0x00) b"

section \<open>The chain of parents\<close>

text \<open>
  The loop that updates all ancestors, starting at the comment with id \<open>i\<close>.  The bound is one more
  than the depth of the first of them: every step goes up one level.
\<close>

primrec touch_parents :: "nat \<Rightarrow> (comment_object \<Rightarrow> comment_object) \<Rightarrow> int \<Rightarrow> database \<Rightarrow> database result" where
  "touch_parents 0 f i d = Inl nontermination"
| "touch_parents (Suc n) f i d =
     ebind (modify_comment i (\<lambda>p. Inr (f p)) d) (\<lambda>d.
     ebind (tbl_get i (comments d)) (\<lambda>parent.
     if com_parent_author parent \<noteq> WLS_ROOT_POST_PARENT then
       ebind (get_comment (com_parent_author parent) (com_parent_permlink parent) d) (\<lambda>(j, _).
       touch_parents n f j d)
     else Inr d))"

definition votes_of_comment :: "int \<Rightarrow> database \<Rightarrow> (int \<times> comment_vote_object) list" where
  "votes_of_comment c d =
     sort_key (\<lambda>p. cvo_voter (snd p)) (filter (\<lambda>p. cvo_comment (snd p) = c) (rows (comment_votes d)))"

definition delete_comment_do_apply :: "delete_comment_operation \<Rightarrow> database \<Rightarrow> database result" where
  "delete_comment_do_apply op d =
     ebind (get_comment (dco_author op) (dco_permlink op) d) (\<lambda>(i, c).
     require (com_children c = 0)
     (require (com_cashout_time c \<noteq> time_maximum)
     (require (com_net_rshares c \<le> 0)
     (ebind (efold (\<lambda>p d. ebind (tbl_remove (fst p) (comment_votes d)) (\<lambda>t. Inr (d\<lparr>comment_votes := t\<rparr>)))
         (votes_of_comment i d) d) (\<lambda>d.
     ebind (if com_parent_author c \<noteq> WLS_ROOT_POST_PARENT then
              ebind (get_comment (com_parent_author c) (com_parent_permlink c) d) (\<lambda>(j, parent).
              touch_parents (Suc (unat (com_depth parent)))
                (\<lambda>p. p\<lparr>com_children := com_children p - 1, com_active := head_block_time d\<rparr>) j d)
            else Inr d) (\<lambda>d.
     ebind (tbl_remove i (comments d)) (\<lambda>t. Inr (d\<lparr>comments := t\<rparr>))))))))"

section \<open>Options\<close>

definition add_beneficiaries :: "int \<Rightarrow> comment_payout_beneficiaries \<Rightarrow> database \<Rightarrow> database result" where
  "add_beneficiaries i cpb d =
     ebind (tbl_get i (comments d)) (\<lambda>c.
     require (length (com_beneficiaries c) = 0)
     (require (com_abs_rshares c = 0)
     (modify_comment i (\<lambda>c. efold (\<lambda>b c. require (find_account (ben_account b) d \<noteq> None)
         (Inr (c\<lparr>com_beneficiaries := com_beneficiaries c @ [b]\<rparr>))) cpb c) d)))"

definition comment_options_do_apply :: "comment_options_operation \<Rightarrow> database \<Rightarrow> database result" where
  "comment_options_do_apply op d =
     ebind (get_comment (cop_author op) (cop_permlink op) d) (\<lambda>(i, c).
     require (\<not> cop_allow_curation_rewards op \<or> \<not> cop_allow_votes op
         \<or> amount (cop_max_accepted_payout op) < amount (com_max_accepted_payout c) \<longrightarrow> com_abs_rshares c = 0)
     (require (com_allow_curation_rewards c \<ge> cop_allow_curation_rewards op)
     (require (com_allow_votes c \<ge> cop_allow_votes op)
     (require (amount (com_max_accepted_payout c) \<ge> amount (cop_max_accepted_payout op))
     (ebind (modify_comment i (\<lambda>c. Inr (c\<lparr>com_max_accepted_payout := cop_max_accepted_payout op,
         com_allow_votes := cop_allow_votes op, com_allow_curation_rewards := cop_allow_curation_rewards op\<rparr>)) d) (\<lambda>d.
     efold (add_beneficiaries i) (cop_extensions op) d))))))"

section \<open>New comments and edits\<close>

definition new_comment :: "fc_lib \<Rightarrow> comment_operation \<Rightarrow> comment_object option \<Rightarrow> database \<Rightarrow> comment_object result" where
  "new_comment F op parent d =
     ebind (validate_permlink_0_1 (cmo_parent_permlink op)) (\<lambda>_.
     ebind (validate_permlink_0_1 (cmo_permlink op)) (\<lambda>_.
     let now = head_block_time d;
         com = default_comment\<lparr>com_author := cmo_author op, com_permlink := cmo_permlink op, com_last_update := now,
           com_created := now, com_active := now, com_last_payout := time_min, com_max_cashout_time := time_maximum,
           com_reward_weight := WLS_100_PERCENT\<rparr>;
         com = (case parent of
             None \<Rightarrow> com\<lparr>com_parent_author := [], com_parent_permlink := cmo_parent_permlink op,
               com_category := cmo_parent_permlink op, com_root_comment := next_row_id (comments d)\<rparr>
           | Some p \<Rightarrow> com\<lparr>com_parent_author := com_author p, com_parent_permlink := com_permlink p,
               com_depth := com_depth p + 1, com_category := com_category p, com_root_comment := com_root_comment p\<rparr>);
         com = com\<lparr>com_cashout_time := now + WLS_CASHOUT_WINDOW_SECONDS, com_title := cmo_title op\<rparr>;
         com = (if int (length (cmo_body op)) < 134217728 then com\<lparr>com_body := cmo_body op\<rparr> else com)
     in Inr (if fc_is_utf8 F (cmo_json_metadata op) then com\<lparr>com_json_metadata := cmo_json_metadata op\<rparr> else com)))"

definition edit_body :: "fc_lib \<Rightarrow> text_lib \<Rightarrow> string \<Rightarrow> string \<Rightarrow> string" where
  "edit_body F T body old = (case dmp_patch T body old of
       Some patched_body \<Rightarrow> if \<not> fc_is_utf8 F patched_body then prune_invalid_utf8 T patched_body else patched_body
     | None \<Rightarrow> body)"

definition edit_comment :: "fc_lib \<Rightarrow> text_lib \<Rightarrow> comment_operation \<Rightarrow> bool \<Rightarrow> time_point_sec \<Rightarrow> comment_object \<Rightarrow> comment_object result" where
  "edit_comment F T op has_parent now com =
     (let com = com\<lparr>com_last_update := now, com_active := now\<rparr> in
      require (com_parent_author com = (if has_parent then cmo_parent_author op else []))
      (require (strcmp_equal (com_parent_permlink com) (cmo_parent_permlink op))
      (let com = (if length (cmo_title op) > 0 then com\<lparr>com_title := cmo_title op\<rparr> else com);
           com = (if length (cmo_json_metadata op) > 0 \<and> fc_is_utf8 F (cmo_json_metadata op)
                  then com\<lparr>com_json_metadata := cmo_json_metadata op\<rparr> else com)
       in Inr (if length (cmo_body op) > 0 then com\<lparr>com_body := edit_body F T (cmo_body op) (com_body com)\<rparr> else com))))"

definition comment_do_apply :: "fc_lib \<Rightarrow> text_lib \<Rightarrow> comment_operation \<Rightarrow> database \<Rightarrow> database result" where
  "comment_do_apply F T op d =
     require (length (cmo_title op) + length (cmo_body op) + length (cmo_json_metadata op) > 0)
     (ebind (get_account (cmo_author op) d) (\<lambda>(auth, a).
     ebind (if cmo_parent_author op \<noteq> WLS_ROOT_POST_PARENT then
              ebind (get_comment (cmo_parent_author op) (cmo_parent_permlink op) d) (\<lambda>p.
              require (com_depth (snd p) < WLS_MAX_COMMENT_DEPTH) (Inr (Some p)))
            else Inr None) (\<lambda>parent.
     require (length (cmo_json_metadata op) > 0 \<longrightarrow> fc_is_utf8 F (cmo_json_metadata op))
     (let now = head_block_time d in
      case find_comment (cmo_author op) (cmo_permlink op) d of
        None \<Rightarrow>
          ebind (case parent of
              Some (_, p) \<Rightarrow> ebind (tbl_get (com_root_comment p) (comments d)) (\<lambda>root. require (com_allow_replies root) (Inr ()))
            | None \<Rightarrow> Inr ()) (\<lambda>_.
          require (head_block_num d > 28800 \<longrightarrow>
              (if cmo_parent_author op = WLS_ROOT_POST_PARENT
               then time_diff now (acc_last_root_post a) > WLS_MIN_ROOT_COMMENT_INTERVAL
               else time_diff now (acc_last_post a) > WLS_MIN_REPLY_INTERVAL))
          (ebind (modify_account auth (\<lambda>a.
              let a = (if cmo_parent_author op = WLS_ROOT_POST_PARENT then a\<lparr>acc_last_root_post := now\<rparr> else a)
              in Inr (a\<lparr>acc_last_post := now, acc_post_count := acc_post_count a + 1\<rparr>)) d) (\<lambda>d.
          ebind (new_comment F op (map_option snd parent) d) (\<lambda>com.
          ebind (tbl_create key_comment com (comments d)) (\<lambda>(_, t).
          let d = d\<lparr>comments := t\<rparr> in
          case parent of
            None \<Rightarrow> Inr d
          | Some (j, p) \<Rightarrow> touch_parents (Suc (unat (com_depth p)))
              (\<lambda>p. p\<lparr>com_children := com_children p + 1, com_active := head_block_time d\<rparr>) j d)))))
      | Some (i, _) \<Rightarrow> modify_comment i (edit_comment F T op (parent \<noteq> None) now) d))))"

section \<open>Votes\<close>

text \<open>
  The voting power that a vote can draw on and the part of it that the vote uses, in hundredths of
  a percent.  \<open>vote_power_reserve_rate * WLS_VOTE_REGENERATION_SECONDS\<close> is a 32-bit product.
\<close>

definition current_power :: "time_point_sec \<Rightarrow> account_object \<Rightarrow> int" where
  "current_power now a =
     min (uint (acc_voting_power a) + (WLS_100_PERCENT * time_diff now (acc_last_vote_time a)) div WLS_VOTE_REGENERATION_SECONDS)
         WLS_100_PERCENT"

definition max_vote_denom :: "dynamic_global_property_object \<Rightarrow> int" where
  "max_vote_denom g = uint ((gpo_vote_power_reserve_rate g * WLS_VOTE_REGENERATION_SECONDS) div 86400)"

definition used_power :: "int \<Rightarrow> u16 \<Rightarrow> int \<Rightarrow> int" where
  "used_power avail weight denom = ((avail * \<bar>sint weight\<bar>) div WLS_100_PERCENT + denom - 1) div denom"

definition vote_abs_rshares :: "fc_lib \<Rightarrow> account_object \<Rightarrow> u16 \<Rightarrow> int \<Rightarrow> int result" where
  "vote_abs_rshares F a weight used =
     ebind (fc_to_uint64 F ((to_u128 (amount (acc_vesting_shares a)) * to_u128 used) div WLS_100_PERCENT)) (\<lambda>w.
     Inr (if sint weight < 0 then tdiv (sint w) 3 else sint w))"

definition spend_power :: "int \<Rightarrow> int \<Rightarrow> int \<Rightarrow> database \<Rightarrow> database result" where
  "spend_power voter avail used d = modify_account voter (\<lambda>a. Inr (a\<lparr>acc_voting_power := word_of_int (avail - used),
     acc_last_vote_time := head_block_time d\<rparr>)) d"

text \<open>The weight of a vote for curation: what it adds to the curve, and that discounted by time.\<close>

definition vote_weight :: "fc_lib \<Rightarrow> int \<Rightarrow> int \<Rightarrow> comment_object \<Rightarrow> database \<Rightarrow> (u64 \<times> u64) result" where
  "vote_weight F rshares old_vote_rshares comment d =
     ebind (if rshares > 0 \<and> com_last_payout comment = 0 \<and> com_allow_curation_rewards comment
            then ebind (get_curation_rewards_percent d) (\<lambda>p. Inr (p > 0)) else Inr False) (\<lambda>eligible.
     if eligible then
       ebind (get_reward_fund d) (\<lambda>(_, rf).
       ebind (evaluate_reward_curve F (to_u128 old_vote_rshares) (rfo_curation_reward_curve rf) (rfo_content_constant rf)) (\<lambda>x.
       ebind (fc_to_uint64 F x) (\<lambda>old_weight.
       ebind (evaluate_reward_curve F (to_u128 (com_vote_rshares comment)) (rfo_curation_reward_curve rf) (rfo_content_constant rf)) (\<lambda>y.
       ebind (fc_to_uint64 F y) (\<lambda>new_weight.
       let max_vote_weight = new_weight - old_weight;
           delta_t = min (word_of_int (time_diff (head_block_time d) (com_created comment)) :: u64) WLS_REVERSE_AUCTION_WINDOW_SECONDS
       in ebind (fc_to_uint64 F ((ucast max_vote_weight * ucast delta_t) div WLS_REVERSE_AUCTION_WINDOW_SECONDS)) (\<lambda>w.
          Inr (max_vote_weight, w)))))))
     else Inr (0, 0))"

definition first_vote :: "fc_lib \<Rightarrow> vote_operation \<Rightarrow> int \<Rightarrow> int \<Rightarrow> int \<Rightarrow> int \<Rightarrow> int \<Rightarrow> database \<Rightarrow> database result" where
  "first_vote F op i voter avail used abs_rshares d =
     require (sint (vto_weight op) \<noteq> 0)
     (let rshares = (if sint (vto_weight op) < 0 then - abs_rshares else abs_rshares) in
      ebind (tbl_get i (comments d)) (\<lambda>comment.
      require (rshares > 0 \<longrightarrow> uint (head_block_time d) < uint (com_cashout_time comment) - WLS_UPVOTE_LOCKOUT)
      (ebind (spend_power voter avail used d) (\<lambda>d.
      ebind (tbl_get (com_root_comment comment) (comments d)) (\<lambda>_.
      require (abs_rshares > 0)
      (ebind (modify_comment i (\<lambda>c.
          ebind (fc_add F (com_net_rshares c) rshares) (\<lambda>net.
          ebind (fc_add F (com_abs_rshares c) abs_rshares) (\<lambda>ab.
          ebind (if rshares > 0 then fc_add F (com_vote_rshares c) rshares else Inr (com_vote_rshares c)) (\<lambda>vr.
          Inr (c\<lparr>com_net_rshares := net, com_abs_rshares := ab, com_vote_rshares := vr,
            com_net_votes := (if rshares > 0 then com_net_votes c + 1 else com_net_votes c - 1)\<rparr>))))) d) (\<lambda>d.
      ebind (modify_comment (com_root_comment comment) (\<lambda>c.
          ebind (fc_add F (com_children_abs_rshares c) abs_rshares) (\<lambda>x. Inr (c\<lparr>com_children_abs_rshares := x\<rparr>))) d) (\<lambda>d.
      ebind (tbl_get i (comments d)) (\<lambda>c.
      ebind (evaluate_reward_curve F (to_u128 (max (com_net_rshares c) 0)) quadratic WLS_CONTENT_CONSTANT) (\<lambda>_.
      ebind (evaluate_reward_curve F (to_u128 (max (com_net_rshares comment) 0)) quadratic WLS_CONTENT_CONSTANT) (\<lambda>_.
      ebind (vote_weight F rshares (com_vote_rshares comment) c d) (\<lambda>(max_vote_weight, w).
      ebind (tbl_create key_comment_vote \<lparr>cvo_voter = voter, cvo_comment = i, cvo_weight = w, cvo_rshares = rshares,
          cvo_vote_percent = vto_weight op, cvo_last_update = head_block_time d, cvo_num_changes = 0\<rparr> (comment_votes d)) (\<lambda>(_, t).
      let d = d\<lparr>comment_votes := t\<rparr> in
      if max_vote_weight \<noteq> 0 then
        modify_comment i (\<lambda>c. Inr (c\<lparr>com_total_vote_weight := com_total_vote_weight c + max_vote_weight\<rparr>)) d
      else Inr d)))))))))))))"

definition net_votes_change :: "int \<Rightarrow> int \<Rightarrow> u32" where
  "net_votes_change rshares old =
     (if rshares > 0 \<and> old < 0 then 2
      else if rshares > 0 \<and> old = 0 then 1
      else if rshares = 0 \<and> old < 0 then 1
      else if rshares = 0 \<and> old > 0 then - 1
      else if rshares < 0 \<and> old = 0 then - 1
      else if rshares < 0 \<and> old > 0 then - 2
      else 0)"

definition change_vote :: "fc_lib \<Rightarrow> vote_operation \<Rightarrow> int \<Rightarrow> int \<Rightarrow> int \<Rightarrow> int \<Rightarrow> int \<Rightarrow> int \<Rightarrow> comment_vote_object \<Rightarrow> database \<Rightarrow> database result" where
  "change_vote F op i voter avail used abs_rshares v itr d =
     require (sint (cvo_num_changes itr) < WLS_MAX_VOTE_CHANGES)
     (require (cvo_vote_percent itr \<noteq> vto_weight op)
     (let rshares = (if sint (vto_weight op) < 0 then - abs_rshares else abs_rshares) in
      ebind (tbl_get i (comments d)) (\<lambda>comment.
      require (cvo_rshares itr < rshares \<longrightarrow> uint (head_block_time d) < uint (com_cashout_time comment) - WLS_UPVOTE_LOCKOUT)
      (ebind (spend_power voter avail used d) (\<lambda>d.
      ebind (tbl_get (com_root_comment comment) (comments d)) (\<lambda>_.
      ebind (modify_comment i (\<lambda>c.
          ebind (fc_sub F (com_net_rshares c) (cvo_rshares itr)) (\<lambda>net.
          ebind (fc_add F net rshares) (\<lambda>net.
          ebind (fc_add F (com_abs_rshares c) abs_rshares) (\<lambda>ab.
          Inr (c\<lparr>com_net_rshares := net, com_abs_rshares := ab,
            com_net_votes := com_net_votes c + net_votes_change rshares (cvo_rshares itr)\<rparr>))))) d) (\<lambda>d.
      ebind (modify_comment (com_root_comment comment) (\<lambda>c.
          ebind (fc_add F (com_children_abs_rshares c) abs_rshares) (\<lambda>x. Inr (c\<lparr>com_children_abs_rshares := x\<rparr>))) d) (\<lambda>d.
      ebind (tbl_get i (comments d)) (\<lambda>c.
      ebind (evaluate_reward_curve F (to_u128 (max (com_net_rshares c) 0)) quadratic WLS_CONTENT_CONSTANT) (\<lambda>_.
      ebind (evaluate_reward_curve F (to_u128 (max (com_net_rshares comment) 0)) quadratic WLS_CONTENT_CONSTANT) (\<lambda>_.
      ebind (modify_comment i (\<lambda>c. Inr (c\<lparr>com_total_vote_weight := com_total_vote_weight c - cvo_weight itr\<rparr>)) d) (\<lambda>d.
      modify_comment_vote v (\<lambda>cv. Inr (cv\<lparr>cvo_rshares := rshares, cvo_vote_percent := vto_weight op,
        cvo_last_update := head_block_time d, cvo_weight := 0, cvo_num_changes := cvo_num_changes cv + 1\<rparr>)) d))))))))))))"

text \<open>A vote on a comment that has been paid out is only recorded.\<close>

definition record_vote :: "vote_operation \<Rightarrow> int \<Rightarrow> int \<Rightarrow> database \<Rightarrow> database result" where
  "record_vote op i voter d =
     (case tbl_find_by (\<lambda>v. cvo_comment v = i \<and> cvo_voter v = voter) (comment_votes d) of
        None \<Rightarrow>
          ebind (tbl_create key_comment_vote \<lparr>cvo_voter = voter, cvo_comment = i, cvo_weight = 0, cvo_rshares = 0,
            cvo_vote_percent = vto_weight op, cvo_last_update = head_block_time d, cvo_num_changes = 0\<rparr> (comment_votes d)) (\<lambda>(_, t).
          Inr (d\<lparr>comment_votes := t\<rparr>))
      | Some (v, _) \<Rightarrow> modify_comment_vote v (\<lambda>cv. Inr (cv\<lparr>cvo_vote_percent := vto_weight op,
            cvo_last_update := head_block_time d\<rparr>)) d)"

definition vote_do_apply :: "fc_lib \<Rightarrow> vote_operation \<Rightarrow> database \<Rightarrow> database result" where
  "vote_do_apply F op d =
     ebind (get_comment (vto_author op) (vto_permlink op) d) (\<lambda>(i, comment).
     ebind (get_account (vto_voter op) d) (\<lambda>(voter, a).
     require (sint (vto_weight op) > 0 \<longrightarrow> com_allow_votes comment)
     (if calculate_discussion_payout_time comment = time_maximum then record_vote op i voter d
      else
        let itr = tbl_find_by (\<lambda>v. cvo_comment v = i \<and> cvo_voter v = voter) (comment_votes d);
            elapsed_seconds = time_diff (head_block_time d) (acc_last_vote_time a);
            avail = current_power (head_block_time d) a;
            denom = max_vote_denom (gpo d);
            used = used_power avail (vto_weight op) denom
        in require (elapsed_seconds \<ge> WLS_MIN_VOTE_INTERVAL_SEC)
           (require (avail > 0)
           (require (denom > 0)
           (require (used \<le> avail)
           (ebind (vote_abs_rshares F a (vto_weight op) used) (\<lambda>abs_rshares.
            require (abs_rshares > WLS_VOTE_DUST_THRESHOLD \<or> sint (vto_weight op) = 0)
            (case itr of
               None \<Rightarrow> first_vote F op i voter avail used abs_rshares d
             | Some (v, cv) \<Rightarrow>
                 require (cvo_num_changes cv \<noteq> - 1) (change_vote F op i voter avail used abs_rshares v cv d))))))))))"

section \<open>A concrete discussion\<close>

text \<open>A post of bob with a reply of alice, on which bob has voted.\<close>

definition sample_posts :: database where
  "sample_posts = sample_db\<lparr>
     comments := \<lparr>rows = [
       (0, default_comment\<lparr>com_author := ''bob'', com_permlink := ''hello'', com_parent_permlink := ''news'', com_created := 90,
          com_cashout_time := 604890, com_children := 1, com_reward_weight := 10000\<rparr>),
       (1, default_comment\<lparr>com_author := ''alice'', com_permlink := ''re'', com_parent_author := ''bob'', com_parent_permlink := ''hello'',
          com_depth := 1, com_created := 95, com_cashout_time := 604895, com_reward_weight := 10000\<rparr>)], next_row_id = 2\<rparr>,
     comment_votes := \<lparr>rows = [(0, \<lparr>cvo_voter = 2, cvo_comment = 1, cvo_weight = 0, cvo_rshares = 0, cvo_vote_percent = 0,
       cvo_last_update = 96, cvo_num_changes = 0\<rparr>)], next_row_id = 1\<rparr>\<rparr>"

lemma sample_posts_wf: "wf_db sample_posts"
  using sample_wf by (simp add: sample_posts_def wf_db_def)

section \<open>Comments and votes move no money\<close>

text \<open>
  \<open>quiet\<close> operations change neither money nor proxies.  The rules extend those for \<open>same_money\<close> and
  \<open>same_proxies\<close>.
\<close>

definition quiet :: "database \<Rightarrow> database \<Rightarrow> bool" where
  "quiet d e \<longleftrightarrow> same_money d e \<and> same_proxies d e"

lemma quiet_refl [simp]: "quiet d d"
  by (simp add: quiet_def)

lemma quiet_trans: "quiet d e \<Longrightarrow> quiet e f \<Longrightarrow> quiet d f"
  using same_money_trans same_proxies_trans by (auto simp: quiet_def)

named_theorems quiet_wp \<open>operations that change neither money nor proxies\<close>

lemma quiet_step [quiet_wp]:
  "yields m (quiet d) \<Longrightarrow> (\<And>e. m = Inr e \<Longrightarrow> quiet d e \<Longrightarrow> yields (f e) (quiet d)) \<Longrightarrow> yields (ebind m f) (quiet d)"
  by (auto simp: yields_def)

lemma quiet_updates [simp]:
  "quiet d (e\<lparr>authorities := au\<rparr>) = quiet d e"
  "quiet d (e\<lparr>witnesses := wi\<rparr>) = quiet d e"
  "quiet d (e\<lparr>witness_votes := wv\<rparr>) = quiet d e"
  "quiet d (e\<lparr>comments := co\<rparr>) = quiet d e"
  "quiet d (e\<lparr>comment_votes := cv\<rparr>) = quiet d e"
  "quiet d (e\<lparr>withdraw_routes := wr\<rparr>) = quiet d e"
  by (simp_all add: quiet_def same_proxies_def)

lemma quietI: "yields m (same_money d) \<Longrightarrow> yields m (same_proxies d) \<Longrightarrow> yields m (quiet d)"
  by (simp add: quiet_def yields_def)

lemma quiet_account [quiet_wp]:
  assumes "quiet d e" "\<And>a. yields (f a) (same_funds a)" "\<And>a. yields (f a) (same_proxy a)"
  shows "yields (modify_account i f e) (quiet d)"
  using assms same_operations(1) [of d e f i] proxies_operations(1) [of d e f i] by (simp add: quiet_def yields_def)

lemma quiet_operations [quiet_wp]:
  "quiet d e \<Longrightarrow> yields (modify_witness i g e) (quiet d)"
  "quiet d e \<Longrightarrow> yields (modify_comment i h e) (quiet d)"
  "quiet d e \<Longrightarrow> yields (modify_comment_vote i k e) (quiet d)"
  "quiet d e \<Longrightarrow> yields (update_owner_authority nm au e) (quiet d)"
  "quiet d e \<Longrightarrow> yields (adjust_witness_vote F w delta e) (quiet d)"
  by (intro quietI same_wp proxy_wp; simp add: quiet_def)+

lemma quiet_touch_parents [quiet_wp]: "quiet d e \<Longrightarrow> yields (touch_parents n f i e) (quiet d)"
proof (induction n arbitrary: i e)
  case (Suc n)
  show ?case unfolding touch_parents.simps by (intro quiet_wp wp Suc)
qed (simp add: yields_def)

lemma quiet_efold [quiet_wp]:
  "quiet d e \<Longrightarrow> (\<And>x s. quiet d s \<Longrightarrow> yields (f x s) (quiet d)) \<Longrightarrow> yields (efold f xs e) (quiet d)"
  by (rule yields_efold)

lemma delete_comment_quiet: "yields (delete_comment_do_apply op d) (quiet d)"
  unfolding delete_comment_do_apply_def by (intro quiet_wp wp) simp_all

lemma comment_options_quiet: "yields (comment_options_do_apply op d) (quiet d)"
  unfolding comment_options_do_apply_def add_beneficiaries_def by (intro quiet_wp wp) simp_all

lemma comment_quiet: "yields (comment_do_apply F T op d) (quiet d)"
  unfolding comment_do_apply_def by (intro quiet_wp wp) (auto simp: same_funds_def same_proxy_def)

lemma spend_power_quiet [quiet_wp]: "quiet d e \<Longrightarrow> yields (spend_power i p u e) (quiet d)"
  unfolding spend_power_def by (intro quiet_wp wp) (auto simp: same_funds_def same_proxy_def)

lemma first_vote_quiet [quiet_wp]: "yields (first_vote F op i v p u ab d) (quiet d)"
  unfolding first_vote_def by (intro quiet_wp wp) simp_all

lemma change_vote_quiet [quiet_wp]: "yields (change_vote F op i v p u ab k itr d) (quiet d)"
  unfolding change_vote_def by (intro quiet_wp wp) simp_all

lemma vote_quiet: "yields (vote_do_apply F op d) (quiet d)"
  unfolding vote_do_apply_def record_vote_def by (intro quiet_wp wp) simp_all

section \<open>The loop over the parents ends\<close>

text \<open>Every reply is deeper than the comment it replies to.\<close>

definition depth_ok :: "comment_object table \<Rightarrow> bool" where
  "depth_ok t \<longleftrightarrow> (\<forall>p\<in>set (rows t). \<forall>q\<in>set (rows t). com_parent_author (snd p) \<noteq> []
     \<and> com_author (snd q) = com_parent_author (snd p) \<and> com_permlink (snd q) = com_parent_permlink (snd p)
     \<longrightarrow> com_depth (snd q) < com_depth (snd p))"

definition same_position :: "comment_object \<Rightarrow> comment_object \<Rightarrow> bool" where
  "same_position c c' \<longleftrightarrow> com_author c' = com_author c \<and> com_permlink c' = com_permlink c
     \<and> com_parent_author c' = com_parent_author c \<and> com_parent_permlink c' = com_parent_permlink c \<and> com_depth c' = com_depth c"

lemma same_position_refl [simp]: "same_position c c"
  by (simp add: same_position_def)

lemma depth_ok_rel:
  assumes "depth_ok t" "rows_rel same_position t t'"
  shows "depth_ok t'"
proof -
  let ?pos = "\<lambda>c. (com_author c, com_permlink c, com_parent_author c, com_parent_permlink c, com_depth c)"
  have "map (\<lambda>p. (fst p, ?pos (snd p))) (rows t') = map (\<lambda>p. (fst p, ?pos (snd p))) (rows t)"
    by (rule rows_rel_map [OF assms(2)]) (simp add: same_position_def)
  then have "map (\<lambda>p. ?pos (snd p)) (rows t') = map (\<lambda>p. ?pos (snd p)) (rows t)" by (rule map_snd_eq)
  then have m: "set (map (\<lambda>p. ?pos (snd p)) (rows t')) = set (map (\<lambda>p. ?pos (snd p)) (rows t))" by (simp only:)
  have d: "depth_ok u \<longleftrightarrow> (\<forall>x \<in> set (map (\<lambda>p. ?pos (snd p)) (rows u)). \<forall>y \<in> set (map (\<lambda>p. ?pos (snd p)) (rows u)).
      (case x of (_, _, pa, pp, dp) \<Rightarrow> case y of (a, p, _, _, dq) \<Rightarrow> pa \<noteq> [] \<and> a = pa \<and> p = pp \<longrightarrow> dq < dp))" for u
    unfolding depth_ok_def set_map ball_simps prod.case ..
  show ?thesis using assms(1) unfolding d m .
qed

lemma get_comment_row:
  "get_comment a p d = Inr (i, c) \<Longrightarrow> table_ok (comments d) \<Longrightarrow>
     com_author c = a \<and> com_permlink c = p \<and> map_of (rows (comments d)) i = Some c"
  using tbl_find_by_Some [of "\<lambda>c. com_author c = a \<and> com_permlink c = p"] by (auto simp: get_comment_def tbl_get_by_Inr)

lemma modify_comment_facts:
  assumes "modify_comment i (\<lambda>p. Inr (f p)) d = Inr d'" "table_ok (comments d)" "\<And>c. same_position c (f c)"
  shows "table_ok (comments d') \<and> rows_rel same_position (comments d) (comments d')"
proof -
  obtain t where t: "tbl_modify key_comment i (\<lambda>p. Inr (f p)) (comments d) = Inr t" "d' = d\<lparr>comments := t\<rparr>"
    using assms(1) by (auto simp: modify_comment_def)
  show ?thesis using tbl_modify_ok [OF t(1) assms(2)] tbl_modify_rel [where R = same_position, OF t(1) assms(2)] assms(3) t(2) by auto
qed

lemma touch_parents_ends:
  assumes "depth_ok (comments d)" "table_ok (comments d)" "map_of (rows (comments d)) i = Some c" "unat (com_depth c) < n"
    and f: "\<And>c. same_position c (f c)"
  shows "touch_parents n f i d \<noteq> Inl nontermination"
  using assms(1-4)
proof (induction n arbitrary: i c d)
  case (Suc n)
  have step: "touch_parents n f j e \<noteq> Inl nontermination"
    if m: "modify_comment i (\<lambda>p. Inr (f p)) d = Inr e" and g: "tbl_get i (comments e) = Inr c'"
      and p: "com_parent_author c' \<noteq> []" "get_comment (com_parent_author c') (com_parent_permlink c') e = Inr (j, q)" for e c' j q
  proof -
    note M = modify_comment_facts [OF m Suc.prems(2) f]
    have ok: "depth_ok (comments e)" using depth_ok_rel [OF Suc.prems(1)] M by blast
    have c': "map_of (rows (comments e)) i = Some c'" using g by (auto simp: tbl_get_def split: option.splits)
    then have "com_depth c' = com_depth c"
      using rows_rel_lookup [OF conjunct2 [OF M] Suc.prems(3)] by (auto simp: same_position_def)
    moreover note Q = get_comment_row [OF p(2) conjunct1 [OF M]]
    have "com_depth q < com_depth c'"
      using ok p(1) Q map_of_SomeD [OF c'] map_of_SomeD [of "rows (comments e)" j q] unfolding depth_ok_def by fastforce
    then have "unat (com_depth q) < unat (com_depth c')" by (simp add: word_less_nat_alt)
    ultimately show ?thesis using Suc.IH [OF ok conjunct1 [OF M], of j q] Q Suc.prems(4) by simp
  qed
  have "modify_comment i (\<lambda>p. Inr (f p)) d \<noteq> Inl nontermination" "tbl_get i (comments e) \<noteq> Inl nontermination"
    "get_comment a b e \<noteq> Inl nontermination" for e a b
    by (auto simp: modify_comment_def tbl_modify_def set_row_def tbl_get_def get_comment_def tbl_get_by_def ebind_def
        split: option.splits sum.splits if_splits)
  then show ?case using step
    by (auto simp: ebind_eq_Inl split: prod.splits if_splits)
qed simp

section \<open>Voting power\<close>

lemma modify_comment_accounts: "modify_comment i f d = Inr e \<Longrightarrow> accounts e = accounts d"
  by (auto simp: modify_comment_def)

lemma modify_comment_vote_accounts: "modify_comment_vote i f d = Inr e \<Longrightarrow> accounts e = accounts d"
  by (auto simp: modify_comment_vote_def)

lemma first_vote_accounts:
  "yields (first_vote F op i v p u ab d) (\<lambda>e. \<exists>d1. spend_power v p u d = Inr d1 \<and> accounts e = accounts d1)"
  unfolding first_vote_def by (intro wp yieldsI) (auto dest!: modify_comment_accounts)

lemma change_vote_accounts:
  "yields (change_vote F op i v p u ab k itr d) (\<lambda>e. \<exists>d1. spend_power v p u d = Inr d1 \<and> accounts e = accounts d1)"
  unfolding change_vote_def by (intro wp yieldsI) (auto dest!: modify_comment_accounts modify_comment_vote_accounts)

lemma vote_accounts:
  assumes "get_comment (vto_author op) (vto_permlink op) d = Inr (i, c)" "get_account (vto_voter op) d = Inr (v, a)"
    and "com_cashout_time c \<noteq> time_maximum"
  shows "yields (vote_do_apply F op d) (\<lambda>e. \<exists>d1 u. u = used_power (current_power (head_block_time d) a) (vto_weight op) (max_vote_denom (gpo d))
    \<and> spend_power v (current_power (head_block_time d) a) u d = Inr d1 \<and> accounts e = accounts d1
    \<and> 3 \<le> time_diff (head_block_time d) (acc_last_vote_time a) \<and> 0 < max_vote_denom (gpo d)
    \<and> u \<le> current_power (head_block_time d) a)"
  unfolding vote_do_apply_def Let_def
  using assms
  by (intro wp yieldsI)
     (auto simp: calculate_discussion_payout_time_def dest!: yieldsD [OF first_vote_accounts] yieldsD [OF change_vote_accounts])

lemma current_power_range: "0 \<le> time_diff now (acc_last_vote_time a) \<Longrightarrow> 0 \<le> current_power now a \<and> current_power now a \<le> 10000"
  by (simp add: current_power_def)

lemma used_power_nonneg: "0 \<le> p \<Longrightarrow> 0 < k \<Longrightarrow> 0 \<le> used_power p w k"
proof -
  assume a: "0 \<le> p" "0 < k"
  then have "0 \<le> p * \<bar>sint w\<bar> div 10000" by (simp add: pos_imp_zdiv_nonneg_iff)
  then show ?thesis using a(2) by (simp add: used_power_def pos_imp_zdiv_nonneg_iff)
qed

lemma uint_of_int_u16: "0 \<le> x \<Longrightarrow> x < 65536 \<Longrightarrow> uint (word_of_int x :: u16) = x"
  by (simp add: uint_word_of_int)



section \<open>Deletion\<close>

lemma remove_votes:
  assumes "efold (\<lambda>p d. ebind (tbl_remove (fst p) (comment_votes d)) (\<lambda>t. Inr (d\<lparr>comment_votes := t\<rparr>))) ps d = Inr d'"
  shows "d' = d\<lparr>comment_votes := comment_votes d'\<rparr> \<and> rows (comment_votes d') = filter (\<lambda>q. fst q \<notin> fst ` set ps) (rows (comment_votes d))"
  using assms
proof (induction ps arbitrary: d)
  case Nil
  then show ?case by simp
next
  case (Cons p ps)
  then obtain t where t: "tbl_remove (fst p) (comment_votes d) = Inr t"
    "efold (\<lambda>p d. ebind (tbl_remove (fst p) (comment_votes d)) (\<lambda>t. Inr (d\<lparr>comment_votes := t\<rparr>))) ps (d\<lparr>comment_votes := t\<rparr>) = Inr d'" by auto
  have r: "rows t = filter (\<lambda>q. fst q \<noteq> fst p) (rows (comment_votes d))"
    using t(1) by (auto simp: tbl_remove_def map_erase_def split: option.splits)
  have "d' = d\<lparr>comment_votes := comment_votes d'\<rparr>" "rows (comment_votes d') = filter (\<lambda>q. fst q \<notin> fst ` set ps) (rows t)"
    using Cons.IH [OF t(2)] by simp_all
  then show ?case by (auto simp: r conj_commute intro: filter_cong)
qed

lemma touch_parents_votes: "comment_votes e = v \<Longrightarrow> yields (touch_parents n f i e) (\<lambda>x. comment_votes x = v)"
proof (induction n arbitrary: i e)
  case (Suc n)
  show ?case unfolding touch_parents.simps
    by (intro wp Suc) (auto simp: modify_comment_def Suc.prems)
qed (simp add: yields_def)

text \<open>
  Deleting a comment: it succeeds only for a comment without replies, without positive votes
  and not yet paid out; then the comment is gone together with exactly its own votes.
\<close>

theorem delete_comment_exact:
  assumes "delete_comment_do_apply op d = Inr d'" "get_comment (dco_author op) (dco_permlink op) d = Inr (i, c)"
    and "table_ok (comment_votes d)"
  shows "com_children c = 0 \<and> com_net_rshares c \<le> 0 \<and> com_cashout_time c \<noteq> time_maximum
    \<and> map_of (rows (comments d')) i = None
    \<and> rows (comment_votes d') = filter (\<lambda>p. cvo_comment (snd p) \<noteq> i) (rows (comment_votes d))"
proof -
  obtain d1 d2 t where g: "com_children c = 0" "com_net_rshares c \<le> 0" "com_cashout_time c \<noteq> time_maximum"
    and r: "efold (\<lambda>p d. ebind (tbl_remove (fst p) (comment_votes d)) (\<lambda>t. Inr (d\<lparr>comment_votes := t\<rparr>))) (votes_of_comment i d) d = Inr d1"
    and p: "(if com_parent_author c \<noteq> [] then
              ebind (get_comment (com_parent_author c) (com_parent_permlink c) d1) (\<lambda>(j, parent).
              touch_parents (Suc (unat (com_depth parent)))
                (\<lambda>p. p\<lparr>com_children := com_children p - 1, com_active := head_block_time d1\<rparr>) j d1)
            else Inr d1) = Inr d2"
    and t: "tbl_remove i (comments d2) = Inr t" "d' = d2\<lparr>comments := t\<rparr>"
    using assms(1,2) unfolding delete_comment_do_apply_def by (auto simp del: touch_parents.simps)
  have v2: "comment_votes d2 = comment_votes d1"
    using p yieldsD [OF touch_parents_votes [OF refl]] by (auto simp del: touch_parents.simps split: if_splits)
  have ids: "fst ` set (votes_of_comment i d) = fst ` {p \<in> set (rows (comment_votes d)). cvo_comment (snd p) = i}"
    by (simp add: votes_of_comment_def)
  have "rows (comment_votes d1) = filter (\<lambda>q. fst q \<notin> fst ` {p \<in> set (rows (comment_votes d)). cvo_comment (snd p) = i}) (rows (comment_votes d))"
    using remove_votes [OF r] unfolding ids by simp
  also have "\<dots> = filter (\<lambda>p. cvo_comment (snd p) \<noteq> i) (rows (comment_votes d))"
    using assms(3) by (intro filter_cong refl) (force simp: table_ok_def dest: eq_key_imp_eq_value)
  finally show ?thesis
    using g t v2 by (auto simp: tbl_remove_def map_erase_def map_of_eq_None_iff split: option.splits)
qed

theorem delete_comment_exact_witness:
  "\<exists>d'. delete_comment_do_apply \<lparr>dco_author = ''alice'', dco_permlink = ''re''\<rparr> sample_posts = Inr d'
     \<and> map_of (rows (comments d')) 1 = None \<and> rows (comment_votes d') = []"
proof -
  let ?op = "\<lparr>dco_author = ''alice'', dco_permlink = ''re''\<rparr>"
  have "\<not> isl (delete_comment_do_apply ?op sample_posts)" by code_simp
  then obtain d' where d': "delete_comment_do_apply ?op sample_posts = Inr d'"
    by (cases "delete_comment_do_apply ?op sample_posts") auto
  have g: "get_comment (dco_author ?op) (dco_permlink ?op) sample_posts = Inr (1, snd (rows (comments sample_posts) ! 1))"
    by (simp add: sample_posts_def get_comment_def tbl_get_by_def tbl_find_by_def default_comment_def)
  have v: "table_ok (comment_votes sample_posts)" by (simp add: sample_posts_def table_ok_def)
  have "filter (\<lambda>p. cvo_comment (snd p) \<noteq> 1) (rows (comment_votes sample_posts)) = []" by (simp add: sample_posts_def)
  then show ?thesis using delete_comment_exact [OF d' g v] d' by simp
qed

text \<open>\<open>strcmp_equal\<close> accepts any two texts of the same length.\<close>

lemma strcmp_equal_same_length: "length a = length b \<Longrightarrow> strcmp_equal a b"
  by (simp add: strcmp_equal_def)

end
