(* ===== verification/Payout.thy ===== *)
theory Payout
  imports Comments
begin

text \<open>
  The payout of comments, \<open>database::process_comment_cashout\<close> of \<open>database.cpp\<close>: when a comment is
  due, its share of the reward fund is divided between curators, beneficiaries and the author, all
  of it as vesting shares in their reward balances.
\<close>

section \<open>Curators\<close>

definition adjust_total_payout :: "fc_lib \<Rightarrow> int \<Rightarrow> asset \<Rightarrow> asset \<Rightarrow> asset \<Rightarrow> database \<Rightarrow> database result" where
  "adjust_total_payout F cur total_payout_value curator_steem_value beneficiary_value d =
     modify_comment cur (\<lambda>c.
       ebind (if symbol (com_total_payout_value c) = symbol total_payout_value
              then asset_add F (com_total_payout_value c) total_payout_value else Inr (com_total_payout_value c)) (\<lambda>t.
       ebind (asset_add F (com_curator_payout_value c) curator_steem_value) (\<lambda>cv.
       ebind (asset_add F (com_beneficiary_payout_value c) beneficiary_value) (\<lambda>bv.
       Inr (c\<lparr>com_total_payout_value := t, com_curator_payout_value := cv, com_beneficiary_payout_value := bv\<rparr>))))) d"

text \<open>The votes of a comment in the order of \<open>by_comment_weight_voter\<close>: heaviest first, then by voter.\<close>

definition votes_by_weight :: "int \<Rightarrow> database \<Rightarrow> comment_vote_object list" where
  "votes_by_weight c d = sort_key (\<lambda>v. - uint (cvo_weight v)) (sort_key cvo_voter
     (filter (\<lambda>v. cvo_comment v = c) (map snd (rows (comment_votes d)))))"

definition pay_curator :: "fc_lib \<Rightarrow> comment_object \<Rightarrow> int \<Rightarrow> comment_vote_object \<Rightarrow> int \<times> database \<Rightarrow> (int \<times> database) result" where
  "pay_curator F c max_rewards v = (\<lambda>(unclaimed_rewards, d).
     ebind (fc_to_uint64 F ((to_u128 max_rewards * ucast (cvo_weight v)) div ucast (com_total_vote_weight c))) (\<lambda>claim.
     if claim > 0 then
       ebind (fc_sub F unclaimed_rewards (sint claim)) (\<lambda>unclaimed_rewards.
       ebind (tbl_get (cvo_voter v) (accounts d)) (\<lambda>voter.
       ebind (create_vesting F (cvo_voter v) (WLS (sint claim)) True d) (\<lambda>(reward, d).
       let d = push_virtual_operation (curation_reward_operation (acc_name voter) reward (com_author c) (com_permlink c)) d in
       ebind (modify_account (cvo_voter v) (\<lambda>a.
           ebind (fc_add F (acc_curation_rewards a) (sint claim)) (\<lambda>x. Inr (a\<lparr>acc_curation_rewards := x\<rparr>))) d) (\<lambda>d.
       Inr (unclaimed_rewards, d)))))
     else Inr (unclaimed_rewards, d)))"

text \<open>\<open>pay_curators\<close> returns the unclaimed rewards and the new value of its reference \<open>max_rewards\<close>.\<close>

definition pay_curators :: "fc_lib \<Rightarrow> int \<Rightarrow> comment_object \<Rightarrow> int \<Rightarrow> database \<Rightarrow> (int \<times> int \<times> database) result" where
  "pay_curators F i c max_rewards d =
     (if \<not> com_allow_curation_rewards c then Inr (0, 0, d)
      else
        ebind (if com_total_vote_weight c > 0 then efold (pay_curator F c max_rewards) (votes_by_weight i d) (max_rewards, d)
               else Inr (max_rewards, d)) (\<lambda>(unclaimed_rewards, d).
        ebind (fc_sub F max_rewards unclaimed_rewards) (\<lambda>max_rewards.
        Inr (unclaimed_rewards, max_rewards, d))))"

section \<open>One comment\<close>

definition fill_comment_reward_context_local_state :: "comment_object \<Rightarrow> comment_reward_context \<Rightarrow> comment_reward_context" where
  "fill_comment_reward_context_local_state comment ctx = ctx\<lparr>ctx_rshares := com_net_rshares comment,
     ctx_reward_weight := com_reward_weight comment, ctx_max_payout := com_max_accepted_payout comment\<rparr>"

definition pay_beneficiary :: "fc_lib \<Rightarrow> comment_object \<Rightarrow> int \<Rightarrow> beneficiary_route_type \<Rightarrow> int \<times> database \<Rightarrow> (int \<times> database) result" where
  "pay_beneficiary F comment author_tokens b = (\<lambda>(total_beneficiary, d).
     ebind (fc_mul F author_tokens (uint (ben_weight b))) (\<lambda>x.
     ebind (fc_div F x WLS_100_PERCENT) (\<lambda>benefactor_tokens.
     ebind (get_account (ben_account b) d) (\<lambda>(acc, _).
     ebind (create_vesting F acc (WLS benefactor_tokens) True d) (\<lambda>(vest_created, d).
     let d = push_virtual_operation (comment_benefactor_reward_operation (ben_account b) (com_author comment)
               (com_permlink comment) vest_created) d in
     ebind (fc_add F total_beneficiary benefactor_tokens) (\<lambda>total_beneficiary.
     Inr (total_beneficiary, d)))))))"

definition pay_comment :: "fc_lib \<Rightarrow> int \<Rightarrow> comment_object \<Rightarrow> int \<Rightarrow> database \<Rightarrow> (int \<times> database) result" where
  "pay_comment F i comment reward d =
     (let reward_tokens = to_u128 reward in
      if reward_tokens > 0 then
        ebind (get_curation_rewards_percent d) (\<lambda>percent.
        ebind (fc_to_uint64 F ((reward_tokens * ucast percent) div WLS_100_PERCENT)) (\<lambda>ct.
        ebind (fc_to_uint64 F reward_tokens) (\<lambda>rt.
        ebind (fc_sub F (sint rt) (sint ct)) (\<lambda>author_tokens.
        ebind (pay_curators F i comment (sint ct) d) (\<lambda>(unclaimed, curation_tokens, d).
        ebind (fc_add F author_tokens unclaimed) (\<lambda>author_tokens.
        ebind (fc_add F author_tokens curation_tokens) (\<lambda>claimed_reward.
        ebind (efold (pay_beneficiary F comment author_tokens) (com_beneficiaries comment) (0, d)) (\<lambda>(total_beneficiary, d).
        ebind (fc_sub F author_tokens total_beneficiary) (\<lambda>author_tokens.
        ebind (get_account (com_author comment) d) (\<lambda>(author, _).
        ebind (create_vesting F author (WLS author_tokens) True d) (\<lambda>(vest_created, d).
        ebind (adjust_total_payout F i (WLS author_tokens) (WLS curation_tokens) (WLS total_beneficiary) d) (\<lambda>d.
        let d = push_virtual_operation (author_reward_operation (com_author comment) (com_permlink comment) (WLS 0) vest_created) d;
            d = push_virtual_operation (comment_reward_operation (com_author comment) (com_permlink comment) (WLS claimed_reward)) d
        in ebind (modify_comment i (\<lambda>c.
               ebind (fc_add F (com_author_rewards c) author_tokens) (\<lambda>x. Inr (c\<lparr>com_author_rewards := x\<rparr>))) d) (\<lambda>d.
           ebind (get_account (com_author comment) d) (\<lambda>(author, _).
           ebind (modify_account author (\<lambda>a.
               ebind (fc_add F (acc_posting_rewards a) author_tokens) (\<lambda>x. Inr (a\<lparr>acc_posting_rewards := x\<rparr>))) d) (\<lambda>d.
           Inr (claimed_reward, d))))))))))))))))
      else Inr (0, d))"

definition mark_votes :: "int \<Rightarrow> database \<Rightarrow> database result" where
  "mark_votes i d =
     efold (\<lambda>p d. ebind (tbl_get i (comments d)) (\<lambda>comment.
       if calculate_discussion_payout_time comment \<noteq> time_maximum
       then modify_comment_vote (fst p) (\<lambda>v. Inr (v\<lparr>cvo_num_changes := - 1\<rparr>)) d
       else Inr d)) (votes_of_comment i d) d"

definition cashout_comment_helper :: "fc_lib \<Rightarrow> comment_reward_context \<Rightarrow> int \<Rightarrow> database \<Rightarrow> (int \<times> database) result" where
  "cashout_comment_helper F ctx i d =
     ebind (tbl_get i (comments d)) (\<lambda>comment.
     ebind (if com_net_rshares comment > 0 then
              let ctx = fill_comment_reward_context_local_state comment ctx in
              ebind (get_reward_fund d) (\<lambda>(_, rf).
              let ctx = ctx\<lparr>ctx_reward_curve := rfo_author_reward_curve rf, ctx_content_constant := rfo_content_constant rf\<rparr> in
              ebind (get_rshare_reward F ctx) (\<lambda>r.
              pay_comment F i comment (sint r) d))
            else Inr (0, d)) (\<lambda>(claimed_reward, d).
     ebind (modify_comment i (\<lambda>c. Inr (c\<lparr>
         com_net_rshares := (if com_net_rshares c > 0 then 0 else com_net_rshares c), com_children_abs_rshares := 0,
         com_abs_rshares := 0, com_vote_rshares := 0, com_total_vote_weight := 0, com_max_cashout_time := time_maximum,
         com_cashout_time := time_maximum, com_last_payout := head_block_time d\<rparr>)) d) (\<lambda>d.
     let d = push_virtual_operation (comment_payout_update_operation (com_author comment) (com_permlink comment)) d in
     ebind (mark_votes i d) (\<lambda>d. Inr (claimed_reward, d)))))"

section \<open>All comments that are due\<close>

record reward_fund_context =
  rfc_recent_claims :: u128
  rfc_reward_balance :: asset
  rfc_steem_awarded :: int

definition decay_claims :: "time_point_sec \<Rightarrow> reward_fund_object \<Rightarrow> reward_fund_object" where
  "decay_claims now rfo =
     (let delta_seconds = time_diff now (rfo_last_update rfo);
          rfo = (if delta_seconds < WLS_RECENT_RSHARES_DECAY_RATE
                 then rfo\<lparr>rfo_recent_claims := rfo_recent_claims rfo
                        - (rfo_recent_claims rfo * to_u128 delta_seconds) div WLS_RECENT_RSHARES_DECAY_RATE\<rparr>
                 else rfo)
      in rfo\<lparr>rfo_last_update := now\<rparr>)"

definition load_fund :: "int \<times> reward_fund_object \<Rightarrow> reward_fund_context list \<times> database \<Rightarrow> (reward_fund_context list \<times> database) result" where
  "load_fund p = (\<lambda>(funds, d).
     ebind (modify_reward_fund (fst p) (\<lambda>rfo. Inr (decay_claims (head_block_time d) rfo)) d) (\<lambda>d.
     ebind (tbl_get (fst p) (reward_funds d)) (\<lambda>rfo.
     Inr (funds @ [\<lparr>rfc_recent_claims = rfo_recent_claims rfo, rfc_reward_balance = rfo_reward_balance rfo, rfc_steem_awarded = 0\<rparr>], d))))"

text \<open>The comments in the order of the index \<open>by_cashout_time\<close>.\<close>

definition by_cashout_time :: "database \<Rightarrow> (int \<times> comment_object) list" where
  "by_cashout_time d = tbl_sorted (\<lambda>p. com_cashout_time (snd p)) (comments d)"

definition update_fund :: "int \<Rightarrow> (reward_fund_context \<Rightarrow> reward_fund_context result) \<Rightarrow> reward_fund_context list \<Rightarrow> reward_fund_context list result" where
  "update_fund i f funds = (if 0 \<le> i \<and> nat i < length funds
     then ebind (f (funds ! nat i)) (\<lambda>x. Inr (funds[nat i := x])) else Inl out_of_range)"

definition add_claims :: "fc_lib \<Rightarrow> database \<Rightarrow> int \<times> comment_object \<Rightarrow> reward_fund_context list \<Rightarrow> reward_fund_context list result" where
  "add_claims F d p funds =
     (if com_net_rshares (snd p) > 0 then
        ebind (get_reward_fund d) (\<lambda>(i, rf).
        ebind (evaluate_reward_curve F (to_u128 (com_net_rshares (snd p))) (rfo_author_reward_curve rf) (rfo_content_constant rf)) (\<lambda>x.
        update_fund i (\<lambda>c. Inr (c\<lparr>rfc_recent_claims := rfc_recent_claims c + x\<rparr>)) funds))
      else Inr funds)"

definition cashout_step :: "fc_lib \<Rightarrow> int \<Rightarrow> reward_fund_context list \<Rightarrow> database \<Rightarrow> (reward_fund_context list \<times> database) result" where
  "cashout_step F i funds d = ebind (get_reward_fund d) (\<lambda>(k, _).
     if \<not> (0 \<le> k \<and> nat k < length funds) then Inl out_of_range
     else
       let ctx = \<lparr>ctx_rshares = 0, ctx_reward_weight = 0, ctx_max_payout = default_asset,
             ctx_total_reward_shares2 = rfc_recent_claims (funds ! nat k),
             ctx_total_reward_fund_steem = rfc_reward_balance (funds ! nat k),
             ctx_reward_curve = quadratic, ctx_content_constant = WLS_CONTENT_CONSTANT\<rparr> in
       ebind (cashout_comment_helper F ctx i d) (\<lambda>(claimed, d).
       ebind (update_fund k (\<lambda>c. ebind (fc_add F (rfc_steem_awarded c) claimed) (\<lambda>x.
          Inr (c\<lparr>rfc_steem_awarded := x\<rparr>))) funds) (\<lambda>funds.
       Inr (funds, d))))"

primrec cashout_loop :: "fc_lib \<Rightarrow> nat \<Rightarrow> reward_fund_context list \<Rightarrow> database \<Rightarrow> (reward_fund_context list \<times> database) result option" where
  "cashout_loop F 0 funds d = None"
| "cashout_loop F (Suc n) funds d =
     (case by_cashout_time d of
        [] \<Rightarrow> Some (Inr (funds, d))
      | (i, comment) # _ \<Rightarrow>
          if com_cashout_time comment \<le> head_block_time d then
            (case cashout_step F i funds d of
               Inl e \<Rightarrow> Some (Inl e)
             | Inr (funds, d) \<Rightarrow> cashout_loop F n funds d)
          else Some (Inr (funds, d)))"

definition store_fund :: "fc_lib \<Rightarrow> nat \<times> reward_fund_context \<Rightarrow> database \<Rightarrow> database result" where
  "store_fund F p d =
     ebind (tbl_get (int (fst p)) (reward_funds d)) (\<lambda>_.
     modify_reward_fund (int (fst p)) (\<lambda>rfo.
       ebind (asset_sub F (rfo_reward_balance rfo) (WLS (rfc_steem_awarded (snd p)))) (\<lambda>b.
       Inr (rfo\<lparr>rfo_recent_claims := rfc_recent_claims (snd p), rfo_reward_balance := b\<rparr>))) d)"

definition due_comments :: "database \<Rightarrow> nat" where
  "due_comments d = length (filter (\<lambda>p. com_cashout_time (snd p) \<le> head_block_time d) (rows (comments d)))"

definition process_comment_cashout :: "fc_lib \<Rightarrow> database \<Rightarrow> database result" where
  "process_comment_cashout F d =
     ebind (efold load_fund (rows (reward_funds d)) ([], d)) (\<lambda>(funds, d).
     ebind (efold (add_claims F d)
        (takeWhile (\<lambda>p. com_cashout_time (snd p) \<le> head_block_time d) (by_cashout_time d)) funds) (\<lambda>funds.
     case cashout_loop F (Suc (due_comments d)) funds d of
       None \<Rightarrow> Inl nontermination
     | Some r \<Rightarrow> ebind r (\<lambda>(funds, d). efold (store_fund F) (enumerate 0 funds) d)))"

section \<open>What a payout leaves alone\<close>

text \<open>
  \<open>steady d e\<close>: the step changed no proxy, no reward fund, no time and no cashout time of a comment.
\<close>

definition same_cashout :: "comment_object \<Rightarrow> comment_object \<Rightarrow> bool" where
  "same_cashout c c' \<longleftrightarrow> com_cashout_time c' = com_cashout_time c"

definition steady :: "database \<Rightarrow> database \<Rightarrow> bool" where
  "steady d e \<longleftrightarrow> same_proxies d e \<and> reward_funds e = reward_funds d \<and> head_block_time e = head_block_time d
     \<and> (table_ok (comments d) \<longrightarrow> table_ok (comments e) \<and> rows_rel same_cashout (comments d) (comments e))"

lemma steady_refl [simp]: "steady d d"
  by (simp add: steady_def rows_rel_refl same_cashout_def)

lemma steady_trans: "steady d e \<Longrightarrow> steady e f \<Longrightarrow> steady d f"
proof -
  assume a: "steady d e" "steady e f"
  have "rows_rel same_cashout t u \<Longrightarrow> rows_rel same_cashout u v \<Longrightarrow> rows_rel same_cashout t v" for t u v
    by (erule rows_rel_trans) (auto simp: same_cashout_def)
  then show ?thesis using a same_proxies_trans unfolding steady_def by metis
qed

lemma steady_push [simp]: "steady d (push_virtual_operation v e) = steady d e"
  by (simp add: steady_def push_virtual_operation_def same_proxies_def head_block_time_def)

lemma rewards_push [simp]: "reward_funds (push_virtual_operation v e) = reward_funds e"
  by (simp add: push_virtual_operation_def)

lemma steady_account:
  assumes "modify_account i f d = Inr e" "\<And>a a'. f a = Inr a' \<Longrightarrow> same_proxy a a'"
  shows "steady d e"
  using modify_account_proxies [OF assms] assms(1)
  by (auto simp: steady_def modify_account_def head_block_time_def rows_rel_refl same_cashout_def)

lemma steady_gpo: "modify_gpo g d = Inr e \<Longrightarrow> (\<And>p p'. g p = Inr p' \<Longrightarrow> gpo_time p' = gpo_time p) \<Longrightarrow> steady d e"
  by (auto simp: steady_def modify_gpo_def head_block_time_def rows_rel_refl same_cashout_def same_proxies_def)

lemma steady_comment:
  assumes "modify_comment i f d = Inr e" "\<And>c c'. f c = Inr c' \<Longrightarrow> same_cashout c c'"
  shows "steady d e"
proof -
  obtain t where t: "tbl_modify key_comment i f (comments d) = Inr t" "e = d\<lparr>comments := t\<rparr>"
    using assms(1) by (auto simp: modify_comment_def)
  show ?thesis using tbl_modify_rel [where R = same_cashout, OF t(1) _ _ assms(2)] tbl_modify_ok [OF t(1)]
    by (auto simp: steady_def t(2) head_block_time_def same_proxies_def rows_rel_refl same_cashout_def)
qed

section \<open>Payouts conserve the rewards\<close>

text \<open>\<open>rewarded x d e\<close>: tokens worth \<open>x\<close> were granted as pending vesting rewards, and nothing else.\<close>

definition rewarded :: "int \<Rightarrow> database \<Rightarrow> database \<Rightarrow> bool" where
  "rewarded x d e \<longleftrightarrow> (wf_db d \<longrightarrow> wf_db e \<and> (\<exists>v. ledger e = (ledger d)\<lparr>
     L_pending_shares := L_pending_shares (ledger d) + v, L_pending_steem := L_pending_steem (ledger d) + x,
     L_vests := L_vests (ledger d) + v, L_vest_steem := L_vest_steem (ledger d) + x\<rparr>)) \<and> steady d e"

lemma rewarded_refl [simp]: "rewarded 0 d d"
  by (auto simp: rewarded_def intro!: exI [of _ 0])

lemma rewarded_trans:
  assumes "rewarded x d e" "rewarded y e f"
  shows "rewarded (x + y) d f"
  unfolding rewarded_def
proof (intro conjI impI)
  show "steady d f" using assms steady_trans by (auto simp: rewarded_def)
  assume "wf_db d"
  then obtain v w where "wf_db f" "ledger e = (ledger d)\<lparr>
     L_pending_shares := L_pending_shares (ledger d) + v, L_pending_steem := L_pending_steem (ledger d) + x,
     L_vests := L_vests (ledger d) + v, L_vest_steem := L_vest_steem (ledger d) + x\<rparr>"
    "ledger f = (ledger e)\<lparr>
     L_pending_shares := L_pending_shares (ledger e) + w, L_pending_steem := L_pending_steem (ledger e) + y,
     L_vests := L_vests (ledger e) + w, L_vest_steem := L_vest_steem (ledger e) + y\<rparr>"
    using assms by (auto simp: rewarded_def)
  then show "wf_db f" "\<exists>v. ledger f = (ledger d)\<lparr>
     L_pending_shares := L_pending_shares (ledger d) + v, L_pending_steem := L_pending_steem (ledger d) + (x + y),
     L_vests := L_vests (ledger d) + v, L_vest_steem := L_vest_steem (ledger d) + (x + y)\<rparr>"
    by (auto intro!: exI [of _ "v + w"])
qed

lemma rewarded_push [simp]: "rewarded x d (push_virtual_operation v e) = rewarded x d e"
  by (simp add: rewarded_def)

lemma same_money_rewarded: "same_money d e \<Longrightarrow> steady d e \<Longrightarrow> rewarded 0 d e"
  by (auto simp: rewarded_def same_money_def intro!: exI [of _ 0])

lemma rewarded_account:
  assumes "modify_account i f d = Inr e" "\<And>a a'. f a = Inr a' \<Longrightarrow> same_funds a a'" "\<And>a a'. f a = Inr a' \<Longrightarrow> same_proxy a a'"
  shows "rewarded 0 d e"
  using same_money_rewarded modify_account_same [OF assms(1,2)] steady_account [OF assms(1,3)] by blast

lemma rewarded_comment:
  assumes "modify_comment i f d = Inr e" "\<And>c c'. f c = Inr c' \<Longrightarrow> same_cashout c c'"
  shows "rewarded 0 d e"
  using same_money_rewarded modify_comment_same [OF assms(1)] steady_comment [OF assms] by blast

context fc_env
begin

lemma create_vesting_rewarded:
  assumes "create_vesting F i (WLS x) True d = Inr (v, e)"
  shows "rewarded x d e"
proof -
  obtain f g d1 where m: "modify_account i f d = Inr d1" "\<forall>a a'. f a = Inr a' \<longrightarrow> same_proxy a a'"
    and g: "modify_gpo g d1 = Inr e" "\<forall>p p'. g p = Inr p' \<longrightarrow> gpo_time p' = gpo_time p"
  proof -
    obtain d1 where
      "modify_account i (\<lambda>to. ebind (asset_add F (acc_reward_vesting_balance to) v) (\<lambda>b.
           ebind (asset_add F (acc_reward_vesting_steem to) (WLS x)) (\<lambda>s.
           Inr (to\<lparr>acc_reward_vesting_balance := b, acc_reward_vesting_steem := s\<rparr>)))) d = Inr d1"
      "modify_gpo (\<lambda>props. ebind (asset_add F (gpo_pending_rewarded_vesting_shares props) v) (\<lambda>b.
           ebind (asset_add F (gpo_pending_rewarded_vesting_steem props) (WLS x)) (\<lambda>s.
           Inr (props\<lparr>gpo_pending_rewarded_vesting_shares := b, gpo_pending_rewarded_vesting_steem := s\<rparr>)))) d1 = Inr e"
      using assms unfolding create_vesting_def by auto
    from that [OF this(1) _ this(2)] show ?thesis by (auto simp: same_proxy_def)
  qed
  have "steady d e" using steady_trans steady_account [OF m(1)] m(2) steady_gpo [OF g(1)] g(2) by blast
  then show ?thesis using create_vesting_result [OF assms] assms by (auto simp: rewarded_def Let_def)
qed

lemma pay_curator_rewarded:
  "yields (pay_curator F c mx v (u, d)) (\<lambda>(u', d'). rewarded (u - u') d d')"
  unfolding pay_curator_def prod.case
proof (intro wp)
  fix claim u1 voter r rw d1 d2
  assume u1: "fc_sub F u (sint claim) = Inr u1"
    and c: "create_vesting F (cvo_voter v) (WLS (sint claim)) True d = Inr r" "r = (rw, d1)"
    and m: "modify_account (cvo_voter v) (\<lambda>a. ebind (fc_add F (acc_curation_rewards a) (sint claim)) (\<lambda>x. Inr (a\<lparr>acc_curation_rewards := x\<rparr>)))
       (push_virtual_operation (curation_reward_operation (acc_name voter) rw (com_author c) (com_permlink c)) d1) = Inr d2"
  let ?d = "push_virtual_operation (curation_reward_operation (acc_name voter) rw (com_author c) (com_permlink c)) d1"
  have "rewarded (sint claim) d ?d" using create_vesting_rewarded c by simp
  moreover have "rewarded 0 ?d d2"
    using m by (rule rewarded_account) (auto simp: same_funds_def same_proxy_def)
  ultimately have "rewarded (sint claim + 0) d d2" by (rule rewarded_trans)
  then show "case (u1, d2) of (u', d') \<Rightarrow> rewarded (u - u') d d'" using u1 by simp
qed simp

lemma pay_curators_rewarded:
  "yields (pay_curators F i c mx d) (\<lambda>(u, mx', d'). rewarded mx' d d' \<and> (com_allow_curation_rewards c \<longrightarrow> u + mx' = mx)
     \<and> (\<not> com_allow_curation_rewards c \<longrightarrow> u = 0 \<and> mx' = 0))"
proof -
  have loop: "yields (efold (pay_curator F c mx) vs (mx, d)) (\<lambda>(u, d'). rewarded (mx - u) d d')" for vs
  proof (rule yields_efold)
    fix v and s :: "int \<times> database"
    obtain u e where s: "s = (u, e)" by (cases s)
    assume I: "case s of (u, d') \<Rightarrow> rewarded (mx - u) d d'"
    show "yields (pay_curator F c mx v s) (\<lambda>(u, d'). rewarded (mx - u) d d')"
      unfolding s
    proof (rule yields_mono [OF pay_curator_rewarded])
      fix x assume "case x of (u', d') \<Rightarrow> rewarded (u - u') e d'"
      then show "case x of (u, d') \<Rightarrow> rewarded (mx - u) d d'"
        using rewarded_trans [of "mx - u" d e "u - fst x" "snd x"] I by (cases x) (simp add: s)
    qed
  qed simp
  show ?thesis
    unfolding pay_curators_def
  proof (intro wp)
    fix r u d1 mx'
    assume "(if com_total_vote_weight c > 0 then efold (pay_curator F c mx) (votes_by_weight i d) (mx, d) else Inr (mx, d)) = Inr r" "r = (u, d1)"
      and mx': "fc_sub F mx u = Inr mx'" and a: "\<not> \<not> com_allow_curation_rewards c"
    then have "rewarded (mx - u) d d1" using yieldsD [OF loop] by (fastforce split: if_splits)
    then show "case (u, mx', d1) of (u, mx', d') \<Rightarrow> rewarded mx' d d' \<and> (com_allow_curation_rewards c \<longrightarrow> u + mx' = mx)
     \<and> (\<not> com_allow_curation_rewards c \<longrightarrow> u = 0 \<and> mx' = 0)" using mx' a by auto
  qed simp
qed

lemma pay_beneficiary_rewarded:
  "yields (pay_beneficiary F c at b (t, d)) (\<lambda>(t', d'). rewarded (t' - t) d d')"
  unfolding pay_beneficiary_def prod.case
  by (intro wp) (auto dest!: create_vesting_rewarded)

lemma pay_beneficiaries_rewarded:
  "yields (efold (pay_beneficiary F c at) bs (0, d)) (\<lambda>(t, d'). rewarded t d d')"
proof (rule yields_efold)
  fix b and s :: "int \<times> database"
  obtain t e where s: "s = (t, e)" by (cases s)
  assume I: "case s of (t, d') \<Rightarrow> rewarded t d d'"
  show "yields (pay_beneficiary F c at b s) (\<lambda>(t, d'). rewarded t d d')"
    unfolding s
  proof (rule yields_mono [OF pay_beneficiary_rewarded])
    fix x assume "case x of (t', d') \<Rightarrow> rewarded (t' - t) e d'"
    then show "case x of (t, d') \<Rightarrow> rewarded t d d'"
      using rewarded_trans [of t d e "fst x - t" "snd x"] I by (cases x) (simp add: s)
  qed
qed simp

lemma pay_comment_rewarded:
  "yields (pay_comment F i comment reward d) (\<lambda>(c, d'). rewarded c d d')"
proof -
  have main: "rewarded claimed d d7"
    if at: "claimed = at + ct" and pc: "pay_curators F i comment mx d = Inr (u, ct, d1)"
      and pb: "efold (pay_beneficiary F comment at) bs (0, d1) = Inr (tb, d2)"
      and cv: "create_vesting F author (WLS (at - tb)) True d2 = Inr (v, d3)"
      and ap: "adjust_total_payout F i x y z d3 = Inr d4"
      and m: "modify_comment i (\<lambda>c. ebind (fc_add F (com_author_rewards c) w) (\<lambda>x. Inr (c\<lparr>com_author_rewards := x\<rparr>)))
          (push_virtual_operation o2 (push_virtual_operation o1 d4)) = Inr d5"
      and a: "modify_account author2 (\<lambda>a. ebind (fc_add F (acc_posting_rewards a) w) (\<lambda>x. Inr (a\<lparr>acc_posting_rewards := x\<rparr>))) d5 = Inr d7"
    for claimed at ct mx u d1 tb d2 author v d3 x y z d4 w o1 o2 d5 author2 d7 bs
  proof -
    let ?d4 = "push_virtual_operation o2 (push_virtual_operation o1 d4)"
    have 1: "rewarded ct d d1" using yieldsD [OF pay_curators_rewarded pc] by simp
    have 2: "rewarded tb d1 d2" using yieldsD [OF pay_beneficiaries_rewarded pb] by simp
    have 3: "rewarded (at - tb) d2 d3" by (rule create_vesting_rewarded [OF cv])
    have "rewarded 0 d3 d4"
      using ap unfolding adjust_total_payout_def by (rule rewarded_comment) (auto simp: same_cashout_def)
    then have 4: "rewarded 0 d3 ?d4" by simp
    have 5: "rewarded 0 ?d4 d5" using m by (rule rewarded_comment) (auto simp: same_cashout_def)
    have 6: "rewarded 0 d5 d7" using a by (rule rewarded_account) (auto simp: same_funds_def same_proxy_def)
    from rewarded_trans [OF 1 rewarded_trans [OF 2 rewarded_trans [OF 3 rewarded_trans [OF 4 rewarded_trans [OF 5 6]]]]]
    show ?thesis using at by (simp add: add.commute)
  qed
  show ?thesis
    unfolding pay_comment_def by (intro wp; clarsimp; rule main [OF refl]; assumption)
qed

end

text \<open>The comment that was paid out leaves the set of due comments.\<close>

definition granted :: "int \<Rightarrow> database \<Rightarrow> database \<Rightarrow> bool" where
  "granted x d e \<longleftrightarrow> (wf_db d \<longrightarrow> wf_db e \<and> (\<exists>v. ledger e = (ledger d)\<lparr>
     L_pending_shares := L_pending_shares (ledger d) + v, L_pending_steem := L_pending_steem (ledger d) + x,
     L_vests := L_vests (ledger d) + v, L_vest_steem := L_vest_steem (ledger d) + x\<rparr>))
   \<and> same_proxies d e \<and> reward_funds e = reward_funds d \<and> head_block_time e = head_block_time d"

lemma rewarded_granted: "rewarded x d e \<longleftrightarrow> granted x d e \<and> (table_ok (comments d) \<longrightarrow> table_ok (comments e) \<and> rows_rel same_cashout (comments d) (comments e))"
  by (auto simp: rewarded_def granted_def steady_def)

lemma granted_close:
  assumes "granted x d e" "same_money e f" "same_proxies e f" "reward_funds f = reward_funds e" "head_block_time f = head_block_time e"
  shows "granted x d f"
  using assms same_proxies_trans by (auto simp: granted_def same_money_def)

lemma due_comments_sum: "int (due_comments d) = tbl_sum (\<lambda>c. if com_cashout_time c \<le> head_block_time d then 1 else 0) (comments d)"
proof -
  have "int (length (filter (\<lambda>p. com_cashout_time (snd p) \<le> head_block_time d) rs)) =
      (\<Sum>p\<leftarrow>rs. if com_cashout_time (snd p) \<le> head_block_time d then 1 else 0)" for rs :: "(int \<times> comment_object) list"
    by (induction rs) auto
  then show ?thesis by (simp add: due_comments_def tbl_sum_def)
qed

lemma due_comments_rel:
  assumes "rows_rel same_cashout (comments d) (comments e)" "head_block_time e = head_block_time d"
  shows "due_comments e = due_comments d"
proof -
  have "map (\<lambda>p. (fst p, com_cashout_time (snd p))) (rows (comments e)) = map (\<lambda>p. (fst p, com_cashout_time (snd p))) (rows (comments d))"
    by (rule rows_rel_map [OF assms(1)]) (simp add: same_cashout_def)
  then have "map (\<lambda>p. com_cashout_time (snd p)) (rows (comments e)) = map (\<lambda>p. com_cashout_time (snd p)) (rows (comments d))"
    by (rule map_snd_eq)
  then have "filter (\<lambda>t. t \<le> head_block_time d) (map (\<lambda>p. com_cashout_time (snd p)) (rows (comments e)))
      = filter (\<lambda>t. t \<le> head_block_time d) (map (\<lambda>p. com_cashout_time (snd p)) (rows (comments d)))" by (simp only:)
  then show ?thesis using assms(2) unfolding due_comments_def filter_map comp_def by (metis length_map)
qed

lemma mark_votes_frame: "yields (mark_votes i d) (\<lambda>e. \<exists>t. e = d\<lparr>comment_votes := t\<rparr>)"
  unfolding mark_votes_def
proof (rule yields_efold)
  show "\<exists>t. d = d\<lparr>comment_votes := t\<rparr>" by (rule exI [of _ "comment_votes d"]) simp
next
  fix p s assume "\<exists>t. s = d\<lparr>comment_votes := t\<rparr>"
  then show "yields (ebind (tbl_get i (comments s)) (\<lambda>comment.
       if calculate_discussion_payout_time comment \<noteq> time_maximum
       then modify_comment_vote (fst p) (\<lambda>v. Inr (v\<lparr>cvo_num_changes := - 1\<rparr>)) s
       else Inr s)) (\<lambda>e. \<exists>t. e = d\<lparr>comment_votes := t\<rparr>)"
    by (intro wp) (auto simp: yields_def modify_comment_vote_def)
qed

context fc_env
begin

lemma cashout_comment_helper_result:
  "yields (cashout_comment_helper F ctx i d) (\<lambda>(c, d'). granted c d d'
     \<and> (table_ok (comments d) \<longrightarrow> table_ok (comments d') \<and> (\<forall>cm. map_of (rows (comments d)) i = Some cm
        \<longrightarrow> com_cashout_time cm \<le> head_block_time d \<longrightarrow> head_block_time d < time_maximum \<longrightarrow> Suc (due_comments d') = due_comments d)))"
proof -
  have main: "granted c d d' \<and> (table_ok (comments d) \<longrightarrow> table_ok (comments d') \<and> (\<forall>cm. map_of (rows (comments d)) i = Some cm
        \<longrightarrow> com_cashout_time cm \<le> head_block_time d \<longrightarrow> head_block_time d < time_maximum \<longrightarrow> Suc (due_comments d') = due_comments d))"
    if r: "rewarded c d e" and m: "modify_comment i g e = Inr e2" and g: "\<forall>x y. g x = Inr y \<longrightarrow> com_cashout_time y = time_maximum"
      and k: "mark_votes i (push_virtual_operation op e2) = Inr d'" for c e g e2 op d'
  proof -
    obtain u where K: "d' = (push_virtual_operation op e2)\<lparr>comment_votes := u\<rparr>" using yieldsD [OF mark_votes_frame k] by blast
    obtain t where t: "tbl_modify key_comment i g (comments e) = Inr t" "e2 = e\<lparr>comments := t\<rparr>"
      using m by (auto simp: modify_comment_def)
    have f: "accounts d' = accounts e" "reward_funds d' = reward_funds e" "gpo d' = gpo e" "comments d' = t"
      by (simp_all add: K push_virtual_operation_def t(2))
    have sm: "same_money e d'" using f by (intro same_money_fields)
    moreover have sp: "same_proxies e d'" using f same_proxies_fields [of d' e e] by simp
    ultimately have G: "granted c d d'"
      using r f by (intro granted_close [of c d e d']) (simp_all add: rewarded_granted head_block_time_def)
    have "table_ok t \<and> Suc (due_comments d') = due_comments d"
      if "table_ok (comments d)" "map_of (rows (comments d)) i = Some cm" "com_cashout_time cm \<le> head_block_time d" "head_block_time d < time_maximum" for cm
    proof -
      have R: "table_ok (comments e)" "rows_rel same_cashout (comments d) (comments e)" "head_block_time e = head_block_time d"
        using r that(1) by (simp_all add: rewarded_granted granted_def)
      obtain ce ce' where ce: "map_of (rows (comments e)) i = Some ce" "g ce = Inr ce'" "\<forall>h. tbl_sum h t = tbl_sum h (comments e) - h ce + h ce'"
        using tbl_modify_sum [OF t(1) R(1)] by blast
      have "com_cashout_time ce = com_cashout_time cm"
        using rows_rel_lookup [OF R(2) that(2)] ce(1) by (auto simp: same_cashout_def)
      moreover have "com_cashout_time ce' = time_maximum" using g ce(2) by blast
      moreover have "head_block_time d' = head_block_time d" using f(3) R(3) by (simp add: head_block_time_def)
      ultimately have "int (due_comments d') = int (due_comments e) - 1"
        unfolding due_comments_sum f(4) using ce(3) that(3,4) R(3) by simp
      then show ?thesis using due_comments_rel [OF R(2,3)] tbl_modify_ok [OF t(1) R(1)] by simp
    qed
    then show ?thesis using G f(4) r tbl_modify_ok [OF t(1)] by (auto simp: rewarded_granted)
  qed
  have pay: "yields (if com_net_rshares comment > 0 then
              let ctx = fill_comment_reward_context_local_state comment ctx in
              ebind (get_reward_fund d) (\<lambda>(_, rf).
              let ctx = ctx\<lparr>ctx_reward_curve := rfo_author_reward_curve rf, ctx_content_constant := rfo_content_constant rf\<rparr> in
              ebind (get_rshare_reward F ctx) (\<lambda>r.
              pay_comment F i comment (sint r) d))
            else Inr (0, d)) (\<lambda>(c, e). rewarded c d e)" for comment
    by (intro wp pay_comment_rewarded) simp
  show ?thesis
    unfolding cashout_comment_helper_def
  proof (rule yields_ebind, rule yields_seq [OF pay], intro wp)
    fix comment x c e e2 d'
    assume r: "case x of (c, e) \<Rightarrow> rewarded c d e" "x = (c, e)"
      and m: "modify_comment i (\<lambda>c. Inr (c\<lparr>
         com_net_rshares := (if com_net_rshares c > 0 then 0 else com_net_rshares c), com_children_abs_rshares := 0,
         com_abs_rshares := 0, com_vote_rshares := 0, com_total_vote_weight := 0, com_max_cashout_time := time_maximum,
         com_cashout_time := time_maximum, com_last_payout := head_block_time e\<rparr>)) e = Inr e2"
      and k: "mark_votes i (push_virtual_operation (comment_payout_update_operation (com_author comment) (com_permlink comment)) e2) = Inr d'"
    have "rewarded c d e" using r by simp
    from main [OF this m _ k] show "case (c, d') of (c, d') \<Rightarrow> granted c d d'
     \<and> (table_ok (comments d) \<longrightarrow> table_ok (comments d') \<and> (\<forall>cm. map_of (rows (comments d)) i = Some cm
        \<longrightarrow> com_cashout_time cm \<le> head_block_time d \<longrightarrow> head_block_time d < time_maximum \<longrightarrow> Suc (due_comments d') = due_comments d))"
      by simp
  qed
qed

end

section \<open>The loop over the due comments\<close>

definition awarded :: "reward_fund_context list \<Rightarrow> int" where
  "awarded funds = sum_list (map rfc_steem_awarded funds)"

lemma granted_refl [simp]: "granted 0 d d"
  by (auto simp: granted_def intro!: exI [of _ 0])

lemma granted_trans:
  assumes "granted x d e" "granted y e f"
  shows "granted (x + y) d f"
  unfolding granted_def
proof (intro conjI impI)
  show "same_proxies d f" "reward_funds f = reward_funds d" "head_block_time f = head_block_time d"
    using assms same_proxies_trans by (auto simp: granted_def)
  assume "wf_db d"
  then obtain v w where "wf_db f" "ledger e = (ledger d)\<lparr>
     L_pending_shares := L_pending_shares (ledger d) + v, L_pending_steem := L_pending_steem (ledger d) + x,
     L_vests := L_vests (ledger d) + v, L_vest_steem := L_vest_steem (ledger d) + x\<rparr>"
    "ledger f = (ledger e)\<lparr>
     L_pending_shares := L_pending_shares (ledger e) + w, L_pending_steem := L_pending_steem (ledger e) + y,
     L_vests := L_vests (ledger e) + w, L_vest_steem := L_vest_steem (ledger e) + y\<rparr>"
    using assms by (auto simp: granted_def)
  then show "wf_db f" "\<exists>v. ledger f = (ledger d)\<lparr>
     L_pending_shares := L_pending_shares (ledger d) + v, L_pending_steem := L_pending_steem (ledger d) + (x + y),
     L_vests := L_vests (ledger d) + v, L_vest_steem := L_vest_steem (ledger d) + (x + y)\<rparr>"
    by (auto intro!: exI [of _ "v + w"])
qed

lemma first_due:
  assumes "by_cashout_time d = (i, c) # rest" "table_ok (comments d)"
  shows "map_of (rows (comments d)) i = Some c"
proof -
  have "(i, c) \<in> set (by_cashout_time d)" using assms(1) by simp
  then have "(i, c) \<in> set (rows (comments d))" by (simp add: by_cashout_time_def tbl_sorted_def)
  then show ?thesis using assms(2) by (auto simp: table_ok_def)
qed

declare cashout_loop.simps(2) [simp del]

context fc_env
begin

lemma update_fund_awarded:
  assumes "update_fund k (\<lambda>c. ebind (fc_add F (rfc_steem_awarded c) x) (\<lambda>y. Inr (c\<lparr>rfc_steem_awarded := y\<rparr>))) funds = Inr funds'"
  shows "awarded funds' = awarded funds + x"
  using assms sum_list_map_update [of "nat k" funds rfc_steem_awarded]
  by (auto simp: update_fund_def awarded_def split: if_splits)

lemma cashout_step_result:
  "yields (cashout_step F i funds d) (\<lambda>(funds', d'). granted (awarded funds' - awarded funds) d d'
     \<and> (table_ok (comments d) \<longrightarrow> table_ok (comments d') \<and> (\<forall>cm. map_of (rows (comments d)) i = Some cm
        \<longrightarrow> com_cashout_time cm \<le> head_block_time d \<longrightarrow> head_block_time d < time_maximum \<longrightarrow> Suc (due_comments d') = due_comments d)))"
  unfolding cashout_step_def Let_def
proof (intro wp)
  fix k r p claimed d' funds' ctx
  assume h: "cashout_comment_helper F ctx i d = Inr p" "p = (claimed, d')"
    and u: "update_fund k (\<lambda>c. ebind (fc_add F (rfc_steem_awarded c) claimed) (\<lambda>x. Inr (c\<lparr>rfc_steem_awarded := x\<rparr>))) funds = Inr funds'"
  have "awarded funds' - awarded funds = claimed" using update_fund_awarded [OF u] by simp
  then show "case (funds', d') of (funds', d') \<Rightarrow> granted (awarded funds' - awarded funds) d d'
     \<and> (table_ok (comments d) \<longrightarrow> table_ok (comments d') \<and> (\<forall>cm. map_of (rows (comments d)) i = Some cm
        \<longrightarrow> com_cashout_time cm \<le> head_block_time d \<longrightarrow> head_block_time d < time_maximum \<longrightarrow> Suc (due_comments d') = due_comments d))"
    using yieldsD [OF cashout_comment_helper_result h(1)] h(2) by simp
qed

lemma cashout_loop_granted:
  "cashout_loop F n funds d = Some (Inr (funds', d')) \<Longrightarrow> granted (awarded funds' - awarded funds) d d'"
proof (induction n arbitrary: funds d)
  case (Suc n)
  show ?case
  proof (cases "\<exists>i f e. cashout_step F i funds d = Inr (f, e) \<and> cashout_loop F n f e = Some (Inr (funds', d'))")
    case True
    then obtain i f e where s: "cashout_step F i funds d = Inr (f, e)" and r: "cashout_loop F n f e = Some (Inr (funds', d'))" by blast
    from granted_trans [OF _ Suc.IH [OF r]] yieldsD [OF cashout_step_result s]
    show ?thesis by fastforce
  next
    case False
    then have "funds' = funds \<and> d' = d"
      using Suc.prems unfolding cashout_loop.simps by (auto split: list.splits if_splits sum.splits prod.splits)
    then show ?thesis by simp
  qed
qed simp

lemma cashout_loop_terminates:
  assumes "due_comments d < n" "table_ok (comments d)" "head_block_time d < time_maximum"
  shows "cashout_loop F n funds d \<noteq> None"
  using assms
proof (induction n arbitrary: funds d)
  case (Suc n)
  have "cashout_loop F n f e \<noteq> None"
    if "by_cashout_time d = (i, c) # rest" "com_cashout_time c \<le> head_block_time d" and s: "cashout_step F i funds d = Inr (f, e)" for i c rest f e
  proof -
    note R = yieldsD [OF cashout_step_result s, unfolded prod.case]
    have "Suc (due_comments e) = due_comments d" "table_ok (comments e)" "head_block_time e = head_block_time d"
      using R first_due [OF that(1) Suc.prems(2)] that(2) Suc.prems(2,3) by (auto simp: granted_def)
    then show ?thesis using Suc.IH [of e f] Suc.prems by simp
  qed
  then show ?case unfolding cashout_loop.simps by (auto split: list.split sum.split)
qed simp

end

section \<open>Loading and storing the funds\<close>

lemma modify_reward_fund_proxies: "modify_reward_fund i f d = Inr e \<Longrightarrow> same_proxies d e \<and> comments e = comments d \<and> head_block_time e = head_block_time d"
  by (auto simp: modify_reward_fund_def same_proxies_def head_block_time_def rows_rel_refl)

lemma load_funds_result:
  assumes "efold load_fund ps ([], d) = Inr (funds, e)"
  shows "awarded funds = 0 \<and> same_money d e \<and> same_proxies d e \<and> comments e = comments d \<and> head_block_time e = head_block_time d"
proof -
  define I where "I = (\<lambda>(funds, e). awarded funds = 0 \<and> same_money d e \<and> same_proxies d e \<and> comments e = comments d \<and> head_block_time e = head_block_time d)"
  have "I (funds, e)"
    using assms
  proof (rule efold_invariant)
    show "I ([], d)" by (simp add: I_def awarded_def)
  next
    fix p and s s' :: "reward_fund_context list \<times> database"
    assume I: "I s" and st: "load_fund p s = Inr s'"
    obtain f e where s: "s = (f, e)" by (cases s)
    obtain e' c where m: "modify_reward_fund (fst p) (\<lambda>rfo. Inr (decay_claims (head_block_time e) rfo)) e = Inr e'"
      and s': "s' = (f @ [c], e')" "rfc_steem_awarded c = 0"
      using st by (fastforce simp: s load_fund_def)
    have "same_money e e'"
      unfolding same_money_def
    proof (intro impI)
      assume "wf_db e"
      then have "wf_db e' \<and> ledger e' = (ledger e)\<lparr>L_rewards := L_rewards (ledger e) + 0\<rparr> \<and> e' = e\<lparr>reward_funds := reward_funds e'\<rparr>"
        by (rule modify_reward_fund_ledger [OF m]) (auto simp: decay_claims_def Let_def)
      then show "wf_db e' \<and> ledger e' = ledger e" by simp
    qed
    then show "I s'" using I modify_reward_fund_proxies [OF m] same_money_trans same_proxies_trans
      by (auto simp: I_def s s' awarded_def)
  qed
  then show ?thesis by (simp add: I_def)
qed

context fc_env
begin

lemma store_funds_result:
  assumes "efold (store_fund F) ps d = Inr e" "wf_db d"
  shows "wf_db e \<and> same_proxies d e \<and> ledger e = (ledger d)\<lparr>L_rewards := L_rewards (ledger d) - awarded (map snd ps)\<rparr>"
  using assms
proof (induction ps arbitrary: d)
  case Nil
  then show ?case by (simp add: awarded_def)
next
  case (Cons p ps)
  then obtain d1 where st: "store_fund F p d = Inr d1" and r: "efold (store_fund F) ps d1 = Inr e" by auto
  have m: "modify_reward_fund (int (fst p)) (\<lambda>rfo.
       ebind (asset_sub F (rfo_reward_balance rfo) (WLS (rfc_steem_awarded (snd p)))) (\<lambda>b.
       Inr (rfo\<lparr>rfo_recent_claims := rfc_recent_claims (snd p), rfo_reward_balance := b\<rparr>))) d = Inr d1"
    using st by (auto simp: store_fund_def)
  have M: "wf_db d1 \<and> ledger d1 = (ledger d)\<lparr>L_rewards := L_rewards (ledger d) + - rfc_steem_awarded (snd p)\<rparr> \<and> d1 = d\<lparr>reward_funds := reward_funds d1\<rparr>"
    using m Cons.prems(2) by (rule modify_reward_fund_ledger) auto
  show ?case
    using Cons.IH [OF r] M modify_reward_fund_proxies [OF m] same_proxies_trans by (auto simp: awarded_def)
qed

lemma process_comment_cashout_result:
  assumes "process_comment_cashout F d = Inr d'" "wf_db d"
  shows "wf_db d' \<and> same_proxies d d' \<and> (balanced (ledger d) \<longrightarrow> balanced (ledger d'))"
proof -
  obtain f1 d1 f2 f3 d3 where l: "efold load_fund (rows (reward_funds d)) ([], d) = Inr (f1, d1)"
    and c: "efold (add_claims F d1) (takeWhile (\<lambda>p. com_cashout_time (snd p) \<le> head_block_time d1) (by_cashout_time d1)) f1 = Inr f2"
    and k: "cashout_loop F (Suc (due_comments d1)) f2 d1 = Some (Inr (f3, d3))"
    and s: "efold (store_fund F) (enumerate 0 f3) d3 = Inr d'"
    using assms(1) unfolding process_comment_cashout_def by (auto split: option.splits)
  note L = load_funds_result [OF l]
  have "awarded f2 = awarded f1"
    using c
  proof (rule efold_invariant [where P = "\<lambda>f. awarded f = awarded f1"])
    fix p f f' assume "awarded f = awarded f1" "add_claims F d1 p f = Inr f'"
    then show "awarded f' = awarded f1"
      using sum_list_map_update [of _ f rfc_steem_awarded]
      by (fastforce simp: add_claims_def update_fund_def awarded_def split: if_splits)
  qed simp
  then have G: "granted (awarded f3) d1 d3" using cashout_loop_granted [OF k] L by simp
  have "wf_db d1" using L assms(2) by (simp add: same_money_def)
  then have "wf_db d3" using G by (simp add: granted_def)
  from store_funds_result [OF s this] show ?thesis
    using L G assms(2) same_proxies_trans by (auto simp: same_money_def granted_def balanced_def)
qed

end

section \<open>Properties\<close>

text \<open>
  (C15) Paying out comments conserves value: if the payouts of a block succeed on a well-formed
  database, the supply invariants hold afterwards.  Every token granted to curators, beneficiaries
  and authors as pending vesting leaves a reward fund, however the shares round.
\<close>

theorem cashout_conserves_value:
  assumes "fc_ok F" "wf_db d" "balanced (ledger d)" "process_comment_cashout F d = Inr d'"
  shows "wf_db d' \<and> balanced (ledger d')"
  using fc_env.process_comment_cashout_result [OF fc_env.intro [OF assms(1)] assms(4,2)] assms(3) by blast

lemma sample_posts_balanced: "balanced (ledger sample_posts)"
  using sample_balanced by (simp add: sample_posts_def ledger_def)

text \<open>The same discussion when the post of bob is due and has received votes.\<close>

definition sample_due :: database where
  "sample_due = sample_posts\<lparr>
     comments := (comments sample_posts)\<lparr>rows := map (\<lambda>p. (fst p, if fst p = 0
        then (snd p)\<lparr>com_net_rshares := 900, com_abs_rshares := 900, com_vote_rshares := 900, com_total_vote_weight := 30\<rparr>
        else snd p)) (rows (comments sample_posts))\<rparr>,
     comment_votes := \<lparr>rows = [(0, \<lparr>cvo_voter = 1, cvo_comment = 0, cvo_weight = 20, cvo_rshares = 900, cvo_vote_percent = 10000,
       cvo_last_update = 96, cvo_num_changes = 0\<rparr>)], next_row_id = 1\<rparr>,
     gpo := (gpo sample_posts)\<lparr>gpo_time := 604892\<rparr>\<rparr>"

lemma sample_due_wf: "wf_db sample_due"
  using sample_posts_wf by (simp add: sample_due_def wf_db_def gpo_ok_def)

lemma sample_due_balanced: "balanced (ledger sample_due)"
  using sample_posts_balanced by (simp add: sample_due_def ledger_def)

theorem cashout_conserves_value_witness:
  "\<exists>d'. process_comment_cashout fc_int64 sample_due = Inr d' \<and> balanced (ledger d')"
proof -
  have "\<not> isl (process_comment_cashout fc_int64 sample_due)" by code_simp
  then obtain d' where "process_comment_cashout fc_int64 sample_due = Inr d'"
    by (cases "process_comment_cashout fc_int64 sample_due") auto
  with cashout_conserves_value [OF fc_ok_int64 sample_due_wf sample_due_balanced] show ?thesis by blast
qed

text \<open>
  The loop that pays out comments ends: it restarts at the comment with the earliest cashout
  time after every payout, and one iteration more than the number of due comments is enough, for
  every time before the last one a 32-bit time can represent.
\<close>

theorem cashout_terminates:
  assumes "fc_ok F" "table_ok (comments d)" "head_block_time d < time_maximum"
  shows "\<exists>r. cashout_loop F (Suc (due_comments d)) funds d = Some r"
  using fc_env.cashout_loop_terminates [OF fc_env.intro [OF assms(1)] _ assms(2,3), of "Suc (due_comments d)"] by auto

theorem cashout_terminates_witness: "\<exists>r. cashout_loop fc_int64 (Suc (due_comments sample_due)) [] sample_due = Some r"
  by (rule cashout_terminates [OF fc_ok_int64])
     (simp_all add: sample_due_def sample_posts_def table_ok_def head_block_time_def)

end
