(* ===== verification/Witness_Schedule.thy ===== *)
theory Witness_Schedule
  imports Payout "HOL-Library.Multiset"
begin

text \<open>
  The schedule of block producers: \<open>libraries/chain/witness_schedule.cpp\<close> and the slot arithmetic of
  \<open>database.cpp\<close>.  Every round the most voted witnesses and the runners in the lead of virtual time
  are selected and shuffled; the medians of their settings become those of the chain, and a version
  or a hardfork that enough of them vote for becomes the majority's.

  The lemmas show that a round schedules distinct witnesses that can sign, every one once, that each
  of them gets exactly one slot in any round of consecutive slots, that slots and times correspond,
  and that the medians and majorities are what their names say.
\<close>

unbundle bit_operations_syntax

section \<open>Slots\<close>

definition get_scheduled_witness :: "u32 \<Rightarrow> database \<Rightarrow> account_name_type result" where
  "get_scheduled_witness slot_num d =
     (let current_aslot = gpo_current_aslot (gpo d) + ucast slot_num;
          n = ucast (wso_num_scheduled_witnesses (wso d)) :: u64;
          i = unat (current_aslot mod n)
      in if n = 0 then Inl divide_by_zero_exception
         else if i < length (wso_current_shuffled_witnesses (wso d)) then Inr (wso_current_shuffled_witnesses (wso d) ! i)
         else Inl out_of_range)"

definition get_slot_time :: "u32 \<Rightarrow> database \<Rightarrow> time_point_sec" where
  "get_slot_time slot_num d =
     (if slot_num = 0 then 0
      else if head_block_num d = 0 then gpo_time (gpo d) + slot_num * WLS_BLOCK_INTERVAL
      else
        let head_block_abs_slot = head_block_time d div WLS_BLOCK_INTERVAL;
            head_slot_time = head_block_abs_slot * WLS_BLOCK_INTERVAL
        in head_slot_time + slot_num * WLS_BLOCK_INTERVAL)"

definition get_slot_at_time :: "time_point_sec \<Rightarrow> database \<Rightarrow> u32" where
  "get_slot_at_time when d =
     (let first_slot_time = get_slot_time 1 d in
      if when < first_slot_time then 0
      else word_of_int (tdiv (time_diff when first_slot_time) WLS_BLOCK_INTERVAL + 1))"

section \<open>Selection\<close>

definition VIRTUAL_SCHEDULE_LAP_LENGTH :: u128 where
  "VIRTUAL_SCHEDULE_LAP_LENGTH = 0xFFFFFFFFFFFFFFFF"

text \<open>\<open>lap / (votes + 1)\<close> in 128 bits.\<close>

definition lap_time :: "u128 \<Rightarrow> witness_object \<Rightarrow> u128 result" where
  "lap_time lap w = (if to_u128 (wit_votes w + 1) = 0 then Inl divide_by_zero_exception
     else Inr (lap div to_u128 (wit_votes w + 1)))"

definition reset_virtual_schedule_time :: "database \<Rightarrow> database result" where
  "reset_virtual_schedule_time d =
     (let d = d\<lparr>wso := (wso d)\<lparr>wso_current_virtual_time := 0\<rparr>\<rparr> in
      efold (\<lambda>p d. modify_witness (fst p) (\<lambda>wobj.
          ebind (lap_time VIRTUAL_SCHEDULE_LAP_LENGTH2 wobj) (\<lambda>t.
          Inr (wobj\<lparr>wit_virtual_position := 0, wit_virtual_last_update := wso_current_virtual_time (wso d),
            wit_virtual_scheduled_time := t\<rparr>))) d) (rows (witnesses d)) d)"

text \<open>The witnesses in the order of the indices \<open>by_vote_name\<close> and \<open>by_schedule_time\<close>.\<close>

definition by_vote_name :: "database \<Rightarrow> (int \<times> witness_object) list" where
  "by_vote_name d = sort_key (\<lambda>p. - wit_votes (snd p)) (sort_key (\<lambda>p. wit_owner (snd p)) (rows (witnesses d)))"

definition by_schedule_time :: "database \<Rightarrow> (int \<times> witness_object) list" where
  "by_schedule_time d = sort_key (\<lambda>p. wit_virtual_scheduled_time (snd p)) (sort_key fst (rows (witnesses d)))"

definition set_schedule :: "witness_schedule_type \<Rightarrow> int \<Rightarrow> database \<Rightarrow> database result" where
  "set_schedule s i d = modify_witness i (\<lambda>wo. Inr (wo\<lparr>wit_schedule := s\<rparr>)) d"

fun select_voted :: "nat \<Rightarrow> (int \<times> witness_object) list \<Rightarrow> int list \<times> account_name_type list \<times> database
    \<Rightarrow> (int list \<times> account_name_type list \<times> database) result" where
  "select_voted max_voted [] s = Inr s"
| "select_voted max_voted ((i, w) # ws) (selected_voted, active, d) =
     (if length selected_voted < max_voted then
        if wit_signing_key w = 0 then select_voted max_voted ws (selected_voted, active, d)
        else ebind (set_schedule top19 i d) (\<lambda>d.
             select_voted max_voted ws (selected_voted @ [i], active @ [wit_owner w], d))
      else Inr (selected_voted, active, d))"

record runner_state =
  rs_count :: nat
  rs_virtual_time :: u128
  rs_processed :: "(int \<times> witness_object) list"
  rs_active :: "account_name_type list"
  rs_db :: database

fun select_runners :: "int list \<Rightarrow> (int \<times> witness_object) list \<Rightarrow> runner_state \<Rightarrow> runner_state result" where
  "select_runners selected_voted [] s = Inr s"
| "select_runners selected_voted ((i, w) # ws) s =
     (if rs_count s < WLS_MAX_WITNESSES then
        let s = s\<lparr>rs_virtual_time := wit_virtual_scheduled_time w, rs_processed := rs_processed s @ [(i, w)]\<rparr> in
        if wit_signing_key w = 0 then select_runners selected_voted ws s
        else if i \<notin> set selected_voted then
          ebind (set_schedule timeshare i (rs_db s)) (\<lambda>d.
          select_runners selected_voted ws (s\<lparr>rs_active := rs_active s @ [wit_owner w], rs_count := rs_count s + 1, rs_db := d\<rparr>))
        else select_runners selected_voted ws s
      else Inr s)"

text \<open>\<open>True\<close> when the virtual time overflowed and the loop stopped.\<close>

fun advance_processed :: "u128 \<Rightarrow> (int \<times> witness_object) list \<Rightarrow> database \<Rightarrow> (bool \<times> database) result" where
  "advance_processed new_virtual_time [] d = Inr (False, d)"
| "advance_processed new_virtual_time ((i, w) # ws) d =
     ebind (lap_time VIRTUAL_SCHEDULE_LAP_LENGTH w) (\<lambda>lap.
     let new_virtual_scheduled_time = new_virtual_time + lap in
     if new_virtual_scheduled_time < new_virtual_time then Inr (True, d)
     else ebind (modify_witness i (\<lambda>wo. Inr (wo\<lparr>wit_virtual_position := 0, wit_virtual_last_update := new_virtual_time,
              wit_virtual_scheduled_time := new_virtual_scheduled_time\<rparr>)) d) (\<lambda>d.
          advance_processed new_virtual_time ws d))"

section \<open>Majorities\<close>

text \<open>
  Counting in a \<open>flat_map\<close>: the keys are kept in the order \<open>before\<close>.
\<close>

fun bump :: "('k \<Rightarrow> 'k \<Rightarrow> bool) \<Rightarrow> 'k \<Rightarrow> ('k \<times> nat) list \<Rightarrow> ('k \<times> nat) list" where
  "bump before k [] = [(k, 1)]"
| "bump before k ((k', n) # m) =
     (if k = k' then (k', n + 1) # m
      else if before k k' then (k, 1) # (k', n) # m
      else (k', n) # bump before k m)"

definition vote_before :: "hardfork_version \<times> time_point_sec \<Rightarrow> hardfork_version \<times> time_point_sec \<Rightarrow> bool" where
  "vote_before a b \<longleftrightarrow> fst a < fst b \<or> fst a = fst b \<and> snd a < snd b"

definition scheduled_witnesses :: "database \<Rightarrow> witness_object list result" where
  "scheduled_witnesses d =
     efold (\<lambda>i ws. if i < length (wso_current_shuffled_witnesses (wso d)) then
         ebind (get_witness (wso_current_shuffled_witnesses (wso d) ! i) d) (\<lambda>p. Inr (ws @ [snd p]))
       else Inl out_of_range) [0..<unat (wso_num_scheduled_witnesses (wso d))] []"

definition witness_versions :: "witness_object list \<Rightarrow> (version \<times> nat) list" where
  "witness_versions ws = fold (\<lambda>w. bump (\<lambda>a b. b < a) (wit_running_version w)) ws []"

definition hardfork_version_votes :: "witness_object list \<Rightarrow> ((hardfork_version \<times> time_point_sec) \<times> nat) list" where
  "hardfork_version_votes ws =
     fold (\<lambda>w. bump vote_before (wit_hardfork_version_vote w, wit_hardfork_time_vote w)) ws []"

fun find_majority :: "nat \<Rightarrow> nat \<Rightarrow> (version \<times> nat) list \<Rightarrow> version \<Rightarrow> version" where
  "find_majority required on_version [] majority = majority"
| "find_majority required on_version ((v, n) # m) majority =
     (if on_version + n \<ge> required then v else find_majority required (on_version + n) m majority)"

definition choose_hardfork :: "nat \<Rightarrow> ((hardfork_version \<times> time_point_sec) \<times> nat) list \<Rightarrow> hardfork_property_object \<Rightarrow> hardfork_property_object" where
  "choose_hardfork required m h = (case find (\<lambda>(v, n). n \<ge> required) m of
       Some ((hf, t), _) \<Rightarrow> if hpo_next_hardfork h \<noteq> hf \<or> hpo_next_hardfork_time h \<noteq> t
         then h\<lparr>hpo_next_hardfork := to_hardfork_version hf, hpo_next_hardfork_time := t\<rparr> else h
     | None \<Rightarrow> h\<lparr>hpo_next_hardfork := to_hardfork_version (hpo_current_hardfork_version h)\<rparr>)"

section \<open>Shuffling\<close>

definition shuffle_random :: "u64 \<Rightarrow> u64 \<Rightarrow> u64" where
  "shuffle_random now_hi i =
     (let k = now_hi + i * 2685821657736338717;
          k = k XOR drop_bit 12 k;
          k = k XOR push_bit 25 k;
          k = k XOR drop_bit 27 k
      in k * 2685821657736338717)"

definition swap :: "nat \<Rightarrow> nat \<Rightarrow> 'a list \<Rightarrow> 'a list" where
  "swap i j xs = xs[i := xs ! j, j := xs ! i]"

definition shuffle_step :: "u64 \<Rightarrow> nat \<Rightarrow> nat \<Rightarrow> account_name_type list \<Rightarrow> account_name_type list" where
  "shuffle_step now_hi n i ws =
     (let k = shuffle_random now_hi (of_nat i);
          jmax = of_nat (n - i) :: u64;
          j = ucast (of_nat i + k mod jmax) :: u32
      in swap i (unat j) ws)"

definition shuffle :: "time_point_sec \<Rightarrow> nat \<Rightarrow> account_name_type list \<Rightarrow> account_name_type list" where
  "shuffle now n ws = fold (shuffle_step (push_bit 32 (ucast now)) n) [0..<n] ws"

section \<open>A round\<close>

definition median_by :: "(witness_object \<Rightarrow> 'k::linorder) \<Rightarrow> witness_object list \<Rightarrow> witness_object" where
  "median_by f ws = sort_key f ws ! (length ws div 2)"

definition update_median_witness_props :: "database \<Rightarrow> database result" where
  "update_median_witness_props d =
     ebind (scheduled_witnesses d) (\<lambda>active.
     if active = [] then Inl out_of_range
     else
       let fee = cp_account_creation_fee (wit_props (median_by (\<lambda>w. amount (cp_account_creation_fee (wit_props w))) active));
           size = cp_maximum_block_size (wit_props (median_by (\<lambda>w. cp_maximum_block_size (wit_props w)) active));
           d = d\<lparr>wso := (wso d)\<lparr>wso_median_props := (wso_median_props (wso d))\<lparr>cp_account_creation_fee := fee, cp_maximum_block_size := size\<rparr>\<rparr>\<rparr>
       in Inr (d\<lparr>gpo := (gpo d)\<lparr>gpo_maximum_block_size := size\<rparr>\<rparr>))"

definition install_schedule :: "account_name_type list \<Rightarrow> nat \<Rightarrow> u128 \<Rightarrow> version \<Rightarrow> database \<Rightarrow> witness_schedule_object \<Rightarrow> witness_schedule_object" where
  "install_schedule active num_elected new_virtual_time majority d s =
     (let names = active @ replicate (WLS_MAX_WITNESSES - length active) [];
          n = max (of_nat (length active)) 1 :: u8;
          num_timeshare = length active - num_elected;
          factor = ucast (ucast (wso_top19_weight s) * of_nat num_elected + ucast (wso_timeshare_weight s) * of_nat num_timeshare :: u64)
      in s\<lparr>wso_num_scheduled_witnesses := n, wso_witness_pay_normalization_factor := factor,
           wso_current_shuffled_witnesses := shuffle (head_block_time d) (unat n) names,
           wso_current_virtual_time := new_virtual_time,
           wso_next_shuffle_block_num := head_block_num d + ucast n,
           wso_majority_version := majority\<rparr>)"

definition update_witness_schedule4 :: "database \<Rightarrow> database result" where
  "update_witness_schedule4 d =
     ebind (select_voted (unat (wso_max_voted_witnesses (wso d))) (by_vote_name d) ([], [], d)) (\<lambda>(selected_voted, active, d).
     let num_elected = length active in
     ebind (select_runners selected_voted (by_schedule_time d)
        \<lparr>rs_count = length selected_voted, rs_virtual_time = wso_current_virtual_time (wso d), rs_processed = [], rs_active = active, rs_db = d\<rparr>) (\<lambda>s.
     let active = rs_active s in
     ebind (advance_processed (rs_virtual_time s) (rs_processed s) (rs_db s)) (\<lambda>(reset_virtual_time, d).
     ebind (if reset_virtual_time then reset_virtual_schedule_time d else Inr d) (\<lambda>d.
     let new_virtual_time = (if reset_virtual_time then 0 else rs_virtual_time s) in
     require (length active = min WLS_MAX_WITNESSES (length (rows (witnesses d))))
     (ebind (scheduled_witnesses d) (\<lambda>ws.
     let required = unat (wso_hardfork_required_witnesses (wso d));
         majority = find_majority required 0 (witness_versions ws) (wso_majority_version (wso d));
         d = d\<lparr>hpo := choose_hardfork required (hardfork_version_votes ws) (hpo d)\<rparr>;
         d = d\<lparr>wso := install_schedule active num_elected new_virtual_time majority d (wso d)\<rparr>
     in update_median_witness_props d))))))"

definition update_witness_schedule :: "database \<Rightarrow> database result" where
  "update_witness_schedule d = (if head_block_num d mod WLS_MAX_WITNESSES = 0 then update_witness_schedule4 d else Inr d)"

section \<open>Shuffling permutes\<close>

lemma mset_rotate: "mset (rotate n xs) = mset xs"
  by (simp add: rotate_drop_take flip: mset_append) (metis append_take_drop_id mset_append union_commute)

lemma unat_less: "unat (w :: 'a::len word) < 2 ^ LENGTH('a)"
  by (rule unsigned_less)

lemma unat_of_nat_small: "m < 2 ^ LENGTH('a) \<Longrightarrow> unat (of_nat m :: 'a::len word) = m"
  by (simp add: unat_of_nat take_bit_nat_eq_self)

lemma shuffle_index_bound:
  assumes "i < n" "n < 2 ^ 32"
  shows "unat (ucast (of_nat i + k mod (of_nat (n - i)) :: u64) :: u32) < n"
proof -
  have small: "unat (of_nat m :: u64) = m" if "m < 2 ^ 32" for m using that by (intro unat_of_nat_small) simp
  have "unat (k mod (of_nat (n - i)) :: u64) = unat k mod (n - i)"
    using assms(2) small [of "n - i"] by (simp only: unat_mod)
  then have "unat (k mod (of_nat (n - i)) :: u64) < n - i" using assms(1) by simp
  moreover have "unat (of_nat i :: u64) = i" using assms by (intro small) simp
  ultimately have "unat (of_nat i + k mod (of_nat (n - i)) :: u64) < n"
    using assms unat_word_ariths(1) [of "of_nat i :: u64" "k mod (of_nat (n - i))"] by simp
  then show ?thesis using assms(2) by (simp add: unsigned_ucast_eq take_bit_nat_def)
qed

lemma shuffle_step_perm:
  assumes "i < n" "n \<le> length ws" "n < 2 ^ 32"
  shows "length (shuffle_step h n i ws) = length ws" "mset (take n (shuffle_step h n i ws)) = mset (take n ws)"
proof -
  show "length (shuffle_step h n i ws) = length ws" by (simp add: shuffle_step_def swap_def Let_def)
  obtain j where j: "shuffle_step h n i ws = swap i j ws" "j < n"
    using shuffle_index_bound [OF assms(1,3)] by (auto simp: shuffle_step_def Let_def)
  have "take n (swap i j ws) = (take n ws)[i := take n ws ! j, j := take n ws ! i]"
    using assms(1) j(2) by (simp add: swap_def take_update_swap)
  then show "mset (take n (shuffle_step h n i ws)) = mset (take n ws)"
    using assms j mset_swap [of j "take n ws" i] by simp
qed

lemma shuffle_permutes:
  assumes "n \<le> length ws" "n < 2 ^ 32"
  shows "length (shuffle now n ws) = length ws" "mset (take n (shuffle now n ws)) = mset (take n ws)"
proof -
  define h where "h = (push_bit 32 (ucast now) :: u64)"
  have "length (fold (shuffle_step h n) is ws) = length ws \<and> mset (take n (fold (shuffle_step h n) is ws)) = mset (take n ws)"
    if "\<forall>i\<in>set is. i < n" for "is" using that assms
  proof (induction "is" arbitrary: ws)
    case (Cons i "is")
    then show ?case using shuffle_step_perm [of i n ws h] by simp
  qed simp
  from this [of "[0..<n]"] show "length (shuffle now n ws) = length ws" "mset (take n (shuffle now n ws)) = mset (take n ws)"
    by (simp_all add: shuffle_def h_def)
qed

section \<open>Who is selected\<close>

abbreviation can_sign :: "int \<times> witness_object \<Rightarrow> bool" where
  "can_sign p \<equiv> wit_signing_key (snd p) \<noteq> 0"

abbreviation owner_of :: "int \<times> witness_object \<Rightarrow> account_name_type" where
  "owner_of p \<equiv> wit_owner (snd p)"

lemma select_voted_result:
  assumes "select_voted m ws (sel, act, d) = Inr (sel', act', d')" "length sel \<le> m"
  shows "sel' = sel @ map fst (take (m - length sel) (filter can_sign ws))
    \<and> act' = act @ map owner_of (take (m - length sel) (filter can_sign ws))"
  using assms
proof (induction ws arbitrary: sel act d)
  case (Cons p ws)
  obtain i w where p: "p = (i, w)" by fastforce
  show ?case
  proof (cases "length sel < m \<and> wit_signing_key w \<noteq> 0")
    case True
    then obtain e where "select_voted m ws (sel @ [i], act @ [wit_owner w], e) = Inr (sel', act', d')"
      using Cons.prems(1) by (auto simp: p)
    from Cons.IH [OF this] True show ?thesis by (simp add: p take_Cons' Suc_diff_Suc)
  next
    case False
    then show ?thesis using Cons by (auto simp: p split: if_splits)
  qed
qed simp

lemma select_runners_result:
  assumes "select_runners sel ws s = Inr s'"
  shows "rs_active s' = rs_active s @ map owner_of (take (WLS_MAX_WITNESSES - rs_count s) (filter (\<lambda>p. can_sign p \<and> fst p \<notin> set sel) ws))"
  using assms
proof (induction ws arbitrary: s)
  case (Cons p ws)
  obtain i w where p: "p = (i, w)" by fastforce
  show ?case
  proof (cases "rs_count s < WLS_MAX_WITNESSES")
    case True
    show ?thesis
    proof (cases "wit_signing_key w \<noteq> 0 \<and> i \<notin> set sel")
      case sel: True
      from Cons.prems True sel obtain t where t: "select_runners sel ws t = Inr s'"
        "rs_active t = rs_active s @ [wit_owner w]" "rs_count t = rs_count s + 1"
        by (auto simp: p Let_def)
      from Cons.IH [OF t(1)] t(2,3) True sel show ?thesis by (simp add: p take_Cons')
    next
      case False
      from Cons.prems True False obtain t where t: "select_runners sel ws t = Inr s'"
        "rs_active t = rs_active s" "rs_count t = rs_count s"
        by (auto simp: p Let_def split: if_splits)
      from Cons.IH [OF t(1)] t(2,3) False show ?thesis by (auto simp: p)
    qed
  next
    case False
    then show ?thesis using Cons.prems by (simp add: p)
  qed
qed simp

text \<open>\<open>rescheduling d e\<close>: only the virtual schedule of the witnesses changed.\<close>

definition unscheduled :: "witness_object \<Rightarrow> witness_object" where
  "unscheduled w = w\<lparr>wit_schedule := none, wit_virtual_last_update := 0, wit_virtual_position := 0, wit_virtual_scheduled_time := 0\<rparr>"

definition rescheduled :: "witness_object \<Rightarrow> witness_object \<Rightarrow> bool" where
  "rescheduled w w' \<longleftrightarrow> unscheduled w' = unscheduled w"

definition rescheduling :: "database \<Rightarrow> database \<Rightarrow> bool" where
  "rescheduling d e \<longleftrightarrow> (\<exists>t v. e = d\<lparr>witnesses := t, wso := (wso d)\<lparr>wso_current_virtual_time := v\<rparr>\<rparr>
     \<and> table_ok t \<and> rows_rel rescheduled (witnesses d) t)"

lemma rescheduled_refl: "rescheduled w w"
  by (simp add: rescheduled_def)

lemma rescheduled_trans: "rescheduled a b \<Longrightarrow> rescheduled b c \<Longrightarrow> rescheduled a c"
  by (simp add: rescheduled_def)

lemma rescheduled_updates [simp]:
  "rescheduled w (w\<lparr>wit_schedule := s\<rparr>)"
  "rescheduled w (w\<lparr>wit_virtual_position := p, wit_virtual_last_update := u, wit_virtual_scheduled_time := t\<rparr>)"
  by (simp_all add: rescheduled_def unscheduled_def)

lemma rescheduled_fields:
  "rescheduled w w' \<Longrightarrow> wit_owner w' = wit_owner w \<and> wit_signing_key w' = wit_signing_key w \<and> wit_votes w' = wit_votes w
     \<and> wit_props w' = wit_props w \<and> wit_running_version w' = wit_running_version w
     \<and> wit_hardfork_version_vote w' = wit_hardfork_version_vote w \<and> wit_hardfork_time_vote w' = wit_hardfork_time_vote w"
  unfolding rescheduled_def unscheduled_def by (cases w; cases w') simp

lemma rescheduling_refl: "table_ok (witnesses d) \<Longrightarrow> rescheduling d d"
  unfolding rescheduling_def
  by (rule exI [of _ "witnesses d"], rule exI [of _ "wso_current_virtual_time (wso d)"])
     (simp add: rows_rel_refl rescheduled_refl)

lemma modify_witness_rescheduling:
  assumes "rescheduling d e" "\<And>a. yields (f a) (rescheduled a)"
  shows "yields (modify_witness i f e) (rescheduling d)"
proof (rule yieldsI)
  fix e' assume "modify_witness i f e = Inr e'"
  then obtain t' where t': "tbl_modify key_witness i f (witnesses e) = Inr t'" "e' = e\<lparr>witnesses := t'\<rparr>"
    by (auto simp: modify_witness_def)
  obtain t v where e: "e = d\<lparr>witnesses := t, wso := (wso d)\<lparr>wso_current_virtual_time := v\<rparr>\<rparr>" "table_ok t"
    "rows_rel rescheduled (witnesses d) t" using assms(1) by (auto simp: rescheduling_def)
  have m: "tbl_modify key_witness i f t = Inr t'" using t'(1) e(1) by simp
  have "rows_rel rescheduled t t'"
    by (rule tbl_modify_rel [OF m e(2) rescheduled_refl]) (use assms(2) in \<open>auto simp: yields_def\<close>)
  then have "rows_rel rescheduled (witnesses d) t'" using rows_rel_trans [OF e(3)] rescheduled_trans by blast
  moreover have "table_ok t'" using tbl_modify_ok [OF m e(2)] .
  moreover have "e' = d\<lparr>witnesses := t', wso := (wso d)\<lparr>wso_current_virtual_time := v\<rparr>\<rparr>" using t'(2) e(1) by simp
  ultimately show "rescheduling d e'" unfolding rescheduling_def by blast
qed

lemma select_voted_rescheduling:
  assumes "rescheduling d (snd (snd s))"
  shows "yields (select_voted m ws s) (\<lambda>(sel, act, e). rescheduling d e)"
  using assms
proof (induction m ws s rule: select_voted.induct)
  case (1 m s)
  then show ?case by (cases s) (simp add: yields_def)
next
  case (2 m i w ws sel act e)
  have step: "yields (set_schedule top19 i e) (rescheduling d)" unfolding set_schedule_def
    by (rule modify_witness_rescheduling [OF 2(3) [simplified]]) (simp add: yields_def)
  show ?case using 2 step by (auto intro!: wp yields_seq [OF step])
qed

lemma select_runners_rescheduling:
  assumes "rescheduling d (rs_db s)"
  shows "yields (select_runners sel ws s) (\<lambda>s'. rescheduling d (rs_db s'))"
  using assms
proof (induction sel ws s rule: select_runners.induct)
  case (2 sel i w ws s)
  have step: "yields (set_schedule timeshare i (rs_db s)) (rescheduling d)" unfolding set_schedule_def
    by (rule modify_witness_rescheduling [OF 2(4)]) (simp add: yields_def)
  show ?case using 2 step by (auto simp: Let_def intro!: wp yields_seq [OF step])
qed (simp add: yields_def)

lemma advance_rescheduling:
  assumes "rescheduling d e"
  shows "yields (advance_processed v ws e) (\<lambda>(b, e'). rescheduling d e')"
  using assms
proof (induction v ws e rule: advance_processed.induct)
  case (2 v i w ws e)
  have step: "yields (modify_witness i (\<lambda>wo. Inr (wo\<lparr>wit_virtual_position := 0, wit_virtual_last_update := v,
      wit_virtual_scheduled_time := x\<rparr>)) e) (rescheduling d)" for x
    by (rule modify_witness_rescheduling [OF 2(2)]) (simp add: yields_def)
  show ?case using 2 step by (auto simp: Let_def intro!: wp yields_seq [OF step])
qed (simp add: yields_def)

lemma reset_rescheduling:
  assumes "rescheduling d e"
  shows "yields (reset_virtual_schedule_time e) (rescheduling d)"
proof -
  have 0: "rescheduling d (e\<lparr>wso := (wso e)\<lparr>wso_current_virtual_time := 0\<rparr>\<rparr>)"
    using assms by (fastforce simp: rescheduling_def)
  show ?thesis unfolding reset_virtual_schedule_time_def Let_def
    by (intro yields_efold modify_witness_rescheduling 0 wp) auto
qed

section \<open>What a round installs\<close>

text \<open>The most voted witnesses that can sign, who are scheduled in every round.\<close>

definition elected :: "database \<Rightarrow> (int \<times> witness_object) list" where
  "elected d = take (unat (wso_max_voted_witnesses (wso d))) (filter can_sign (by_vote_name d))"

definition unique_owners :: "database \<Rightarrow> bool" where
  "unique_owners d \<longleftrightarrow> distinct (map owner_of (rows (witnesses d)))"

lemma distinct_map_sort: "distinct (map f (sort_key k xs)) = distinct (map f xs)"
  using mset_eq_imp_distinct_iff [of "map f (sort_key k xs)" "map f xs"] by simp

lemma distinct_map_take_filter: "distinct (map f xs) \<Longrightarrow> distinct (map f (take n (filter P xs)))"
  by (simp add: distinct_map_filter distinct_take flip: take_map)

lemma update_median_result:
  "update_median_witness_props d = Inr d' \<Longrightarrow> \<exists>ws size fee. scheduled_witnesses d = Inr ws \<and> ws \<noteq> []
     \<and> size = cp_maximum_block_size (wit_props (median_by (\<lambda>w. cp_maximum_block_size (wit_props w)) ws))
     \<and> fee = cp_account_creation_fee (wit_props (median_by (\<lambda>w. amount (cp_account_creation_fee (wit_props w))) ws))
     \<and> d' = d\<lparr>wso := (wso d)\<lparr>wso_median_props := (wso_median_props (wso d))\<lparr>cp_account_creation_fee := fee, cp_maximum_block_size := size\<rparr>\<rparr>,
           gpo := (gpo d)\<lparr>gpo_maximum_block_size := size\<rparr>\<rparr>"
  by (auto simp: update_median_witness_props_def Let_def split: if_splits)

lemma update_witness_schedule4_elim:
  assumes "update_witness_schedule4 d = Inr d'" "table_ok (witnesses d)"
  obtains d1 runners e v ws where
    "rescheduling d d1" "rescheduling d e" "scheduled_witnesses e = Inr ws"
    "runners = take (WLS_MAX_WITNESSES - length (elected d))
       (filter (\<lambda>p. can_sign p \<and> fst p \<notin> fst ` set (elected d)) (by_schedule_time d1))"
    "length (elected d) + length runners = min WLS_MAX_WITNESSES (length (rows (witnesses e)))"
    "update_median_witness_props (e\<lparr>hpo := choose_hardfork (unat (wso_hardfork_required_witnesses (wso d))) (hardfork_version_votes ws) (hpo d),
       wso := install_schedule (map owner_of (elected d) @ map owner_of runners) (length (elected d)) v
         (find_majority (unat (wso_hardfork_required_witnesses (wso d))) 0 (witness_versions ws) (wso_majority_version (wso d))) e (wso e)\<rparr>) = Inr d'"
proof -
  from assms(1) obtain sel act d1 s b d2 e ws where
    A: "select_voted (unat (wso_max_voted_witnesses (wso d))) (by_vote_name d) ([], [], d) = Inr (sel, act, d1)"
      "select_runners sel (by_schedule_time d1)
        \<lparr>rs_count = length sel, rs_virtual_time = wso_current_virtual_time (wso d1), rs_processed = [], rs_active = act, rs_db = d1\<rparr> = Inr s"
      "advance_processed (rs_virtual_time s) (rs_processed s) (rs_db s) = Inr (b, d2)"
      "(if b then reset_virtual_schedule_time d2 else Inr d2) = Inr e"
      "length (rs_active s) = min WLS_MAX_WITNESSES (length (rows (witnesses e)))"
      "scheduled_witnesses e = Inr ws"
    and U: "update_median_witness_props (e\<lparr>hpo := choose_hardfork (unat (wso_hardfork_required_witnesses (wso e))) (hardfork_version_votes ws) (hpo e),
       wso := install_schedule (rs_active s) (length act) (if b then 0 else rs_virtual_time s)
         (find_majority (unat (wso_hardfork_required_witnesses (wso e))) 0 (witness_versions ws) (wso_majority_version (wso e))) e (wso e)\<rparr>) = Inr d'"
    by (auto simp: update_witness_schedule4_def Let_def install_schedule_def head_block_time_def head_block_num_def)
  have R: "rescheduling d d1"
    using yieldsD [OF select_voted_rescheduling [of d "([], [], d)"] A(1)] rescheduling_refl [OF assms(2)] by simp
  have "rescheduling d (rs_db s)" using yieldsD [OF select_runners_rescheduling A(2)] R by simp
  then have "rescheduling d d2" using yieldsD [OF advance_rescheduling A(3)] by simp
  then have E: "rescheduling d e" using A(4) yieldsD [OF reset_rescheduling] by (auto split: if_splits)
  have sel: "sel = map fst (elected d)" "act = map owner_of (elected d)"
    using select_voted_result [OF A(1)] by (simp_all add: elected_def)
  have wso: "wso_hardfork_required_witnesses (wso e) = wso_hardfork_required_witnesses (wso d)"
    "wso_majority_version (wso e) = wso_majority_version (wso d)" "hpo e = hpo d"
    using E by (auto simp: rescheduling_def)
  define runners where "runners = take (WLS_MAX_WITNESSES - length (elected d))
    (filter (\<lambda>p. can_sign p \<and> fst p \<notin> fst ` set (elected d)) (by_schedule_time d1))"
  have act: "rs_active s = map owner_of (elected d) @ map owner_of runners"
    using select_runners_result [OF A(2)] by (simp add: sel runners_def)
  show thesis
    by (rule that [OF R E A(6) runners_def])
       (use A(5) U act sel wso in simp_all)
qed

lemma scheduled_witnesses_result:
  assumes "scheduled_witnesses d = Inr ws"
  shows "length ws = unat (wso_num_scheduled_witnesses (wso d))"
    and "i < length ws \<Longrightarrow> i < length (wso_current_shuffled_witnesses (wso d))
      \<and> (\<exists>k. get_witness (wso_current_shuffled_witnesses (wso d) ! i) d = Inr (k, ws ! i))"
proof -
  let ?f = "\<lambda>i ws. if i < length (wso_current_shuffled_witnesses (wso d)) then
         ebind (get_witness (wso_current_shuffled_witnesses (wso d) ! i) d) (\<lambda>p. Inr (ws @ [snd p])) else Inl out_of_range"
  have "length ws = n \<and> (\<forall>i<n. i < length (wso_current_shuffled_witnesses (wso d))
      \<and> (\<exists>k. get_witness (wso_current_shuffled_witnesses (wso d) ! i) d = Inr (k, ws ! i)))"
    if "efold ?f [0..<n] [] = Inr ws" for n ws using that
  proof (induction n arbitrary: ws)
    case (Suc n)
    then obtain vs k w where "efold ?f [0..<n] [] = Inr vs" "n < length (wso_current_shuffled_witnesses (wso d))"
      "get_witness (wso_current_shuffled_witnesses (wso d) ! n) d = Inr (k, w)" "ws = vs @ [w]"
      by (auto simp: efold_append split: if_splits)
    then show ?case using Suc.IH [of vs] by (auto simp: less_Suc_eq nth_append)
  qed simp
  then show "length ws = unat (wso_num_scheduled_witnesses (wso d))"
    "i < length ws \<Longrightarrow> i < length (wso_current_shuffled_witnesses (wso d))
      \<and> (\<exists>k. get_witness (wso_current_shuffled_witnesses (wso d) ! i) d = Inr (k, ws ! i))"
    using assms by (auto simp: scheduled_witnesses_def)
qed

lemma rescheduling_owners:
  assumes "rescheduling d e"
  shows "map (\<lambda>p. (fst p, owner_of p, wit_signing_key (snd p))) (rows (witnesses e))
    = map (\<lambda>p. (fst p, owner_of p, wit_signing_key (snd p))) (rows (witnesses d))"
proof -
  have "rows_rel rescheduled (witnesses d) (witnesses e)" using assms by (auto simp: rescheduling_def)
  from rows_rel_map [OF this, of "\<lambda>w. (wit_owner w, wit_signing_key w)"] show ?thesis
    by (auto dest: rescheduled_fields)
qed

lemma rescheduling_row:
  assumes "rescheduling d e" "q \<in> set (rows (witnesses e))"
  shows "\<exists>p\<in>set (rows (witnesses d)). fst p = fst q \<and> owner_of p = owner_of q \<and> wit_signing_key (snd p) = wit_signing_key (snd q)"
proof -
  have "(fst q, owner_of q, wit_signing_key (snd q)) \<in> set (map (\<lambda>p. (fst p, owner_of p, wit_signing_key (snd p))) (rows (witnesses e)))"
    using assms(2) by force
  then show ?thesis unfolding rescheduling_owners [OF assms(1)] set_map image_iff prod.inject by metis
qed

lemma rescheduling_distinct:
  assumes "rescheduling d e" "unique_owners d"
  shows "distinct (map owner_of (rows (witnesses e)))"
proof -
  have "map owner_of (rows (witnesses e)) = map owner_of (rows (witnesses d))"
    using arg_cong [OF rescheduling_owners [OF assms(1)], of "map (\<lambda>(i, n, k). n)"] by (simp add: comp_def)
  then show ?thesis using assms(2) by (simp add: unique_owners_def)
qed

lemma active_distinct:
  assumes "rescheduling d d1" "unique_owners d"
    and "runners = take m (filter (\<lambda>p. can_sign p \<and> fst p \<notin> fst ` set (elected d)) (by_schedule_time d1))"
  shows "distinct (map owner_of (elected d) @ map owner_of runners)"
    and "q \<in> set (elected d @ runners) \<Longrightarrow> \<exists>p\<in>set (rows (witnesses d)). fst p = fst q \<and> owner_of p = owner_of q \<and> can_sign p"
proof -
  have el: "q \<in> set (rows (witnesses d)) \<and> can_sign q" if "q \<in> set (elected d)" for q
  proof -
    have "q \<in> set (filter can_sign (by_vote_name d))" using that unfolding elected_def by (rule in_set_takeD)
    then show ?thesis by (simp add: by_vote_name_def)
  qed
  have ru: "\<exists>p\<in>set (rows (witnesses d)). fst p = fst q \<and> owner_of p = owner_of q \<and> can_sign p"
    "fst q \<notin> fst ` set (elected d)" if "q \<in> set runners" for q
  proof -
    have "q \<in> set (filter (\<lambda>p. can_sign p \<and> fst p \<notin> fst ` set (elected d)) (by_schedule_time d1))"
      using that unfolding assms(3) by (rule in_set_takeD)
    then show "\<exists>p\<in>set (rows (witnesses d)). fst p = fst q \<and> owner_of p = owner_of q \<and> can_sign p"
      "fst q \<notin> fst ` set (elected d)" using rescheduling_row [OF assms(1), of q] by (simp_all add: by_schedule_time_def) metis
  qed
  show "q \<in> set (elected d @ runners) \<Longrightarrow> \<exists>p\<in>set (rows (witnesses d)). fst p = fst q \<and> owner_of p = owner_of q \<and> can_sign p"
    using el ru(1) unfolding set_append by blast
  have "owner_of p \<noteq> owner_of q" if p: "p \<in> set (elected d)" and q: "q \<in> set runners" for p q
  proof
    assume "owner_of p = owner_of q"
    moreover obtain r where "r \<in> set (rows (witnesses d))" "fst r = fst q" "owner_of r = owner_of q" using ru(1) [OF q] by blast
    ultimately have "p = r" using el [OF p] assms(2) unfolding unique_owners_def distinct_map inj_on_def by metis
    then show False using ru(2) [OF q] p \<open>fst r = fst q\<close> by (metis imageI)
  qed
  moreover have "distinct (map owner_of (elected d))" using assms(2)
    by (simp add: elected_def by_vote_name_def unique_owners_def distinct_map_take_filter distinct_map_sort)
  moreover have "distinct (map owner_of runners)" using rescheduling_distinct [OF assms(1,2)]
    by (simp add: assms(3) by_schedule_time_def distinct_map_take_filter distinct_map_sort)
  ultimately show "distinct (map owner_of (elected d) @ map owner_of runners)" unfolding distinct_append set_map by blast
qed

text \<open>
  (C27) A round schedules as many witnesses as there are, up to 21: all of them different, all of
  them able to sign, the elected ones among them, in an order that the shuffle only permutes.
\<close>

theorem round_schedules_witnesses:
  assumes "update_witness_schedule4 d = Inr d'" "table_ok (witnesses d)" "unique_owners d"
  defines "n \<equiv> unat (wso_num_scheduled_witnesses (wso d'))"
  defines "names \<equiv> take n (wso_current_shuffled_witnesses (wso d'))"
  shows "n = min WLS_MAX_WITNESSES (length (rows (witnesses d))) \<and> 0 < n \<and> length names = n \<and> distinct names
    \<and> (\<forall>name\<in>set names. \<exists>p\<in>set (rows (witnesses d)). owner_of p = name \<and> can_sign p)
    \<and> owner_of ` set (elected d) \<subseteq> set names"
proof -
  obtain d1 runners e v ws where
    R: "rescheduling d d1" "rescheduling d e" "scheduled_witnesses e = Inr ws"
      "runners = take (WLS_MAX_WITNESSES - length (elected d))
       (filter (\<lambda>p. can_sign p \<and> fst p \<notin> fst ` set (elected d)) (by_schedule_time d1))"
    and len: "length (elected d) + length runners = min WLS_MAX_WITNESSES (length (rows (witnesses e)))"
    and U: "update_median_witness_props (e\<lparr>hpo := choose_hardfork (unat (wso_hardfork_required_witnesses (wso d))) (hardfork_version_votes ws) (hpo d),
       wso := install_schedule (map owner_of (elected d) @ map owner_of runners) (length (elected d)) v
         (find_majority (unat (wso_hardfork_required_witnesses (wso d))) 0 (witness_versions ws) (wso_majority_version (wso d))) e (wso e)\<rparr>) = Inr d'"
      (is "update_median_witness_props ?e = _")
    by (rule update_witness_schedule4_elim [OF assms(1,2)])
  define active where "active = map owner_of (elected d) @ map owner_of runners"
  have same_len: "length (rows (witnesses e)) = length (rows (witnesses d))"
    using arg_cong [OF rescheduling_owners [OF R(2)], of length] by simp
  have la: "length active = min WLS_MAX_WITNESSES (length (rows (witnesses d)))" using len same_len by (simp add: active_def)
  obtain us where us: "scheduled_witnesses ?e = Inr us" "us \<noteq> []" and
    d': "wso_num_scheduled_witnesses (wso d') = max (of_nat (length active)) 1"
      "wso_current_shuffled_witnesses (wso d') = shuffle (head_block_time e) (unat (max (of_nat (length active)) 1 :: u8))
         (active @ replicate (WLS_MAX_WITNESSES - length active) [])"
    using update_median_result [OF U] by (auto simp: install_schedule_def active_def Let_def)
  have "rows (witnesses e) \<noteq> []"
    using scheduled_witnesses_result(2) [OF us(1), of 0] us(2) by (auto simp: get_witness_def tbl_get_by_def tbl_find_by_def)
  then have pos: "0 < length active" using la same_len by (cases "rows (witnesses d)") simp_all
  have "unat (of_nat (length active) :: u8) = length active" using la by (simp add: unat_of_nat)
  moreover have "max (of_nat (length active)) 1 = (of_nat (length active) :: u8)"
    using pos calculation by (auto simp: max_def word_le_nat_alt le_Suc_eq)
  ultimately have n: "n = length active" using d'(1) by (simp add: n_def)
  have sh: "wso_current_shuffled_witnesses (wso d') = shuffle (head_block_time e) n (active @ replicate (WLS_MAX_WITNESSES - length active) [])"
    using d' n by (simp add: n_def)
  have small: "n \<le> length (active @ replicate (WLS_MAX_WITNESSES - length active) ([] :: account_name_type))" "n < 2 ^ 32"
    using la n by simp_all
  have perm: "mset names = mset active" using shuffle_permutes(2) [OF small] n by (simp add: names_def sh)
  show ?thesis
  proof (intro conjI)
    show "n = min WLS_MAX_WITNESSES (length (rows (witnesses d)))" "0 < n" using la n pos by simp_all
    show "length names = n" using mset_eq_length [OF perm] n by simp
    show "distinct names" using mset_eq_imp_distinct_iff [OF perm] active_distinct(1) [OF R(1) assms(3) R(4)] by (simp add: active_def)
    have set: "set names = set active" using mset_eq_setD [OF perm] .
    show "owner_of ` set (elected d) \<subseteq> set names" by (simp add: set active_def)
    show "\<forall>name\<in>set names. \<exists>p\<in>set (rows (witnesses d)). owner_of p = name \<and> can_sign p"
    proof
      fix name assume "name \<in> set names"
      then have "name \<in> owner_of ` set (elected d @ runners)" by (simp add: set active_def image_Un)
      then obtain q where "q \<in> set (elected d @ runners)" "name = owner_of q" by (rule imageE)
      then show "\<exists>p\<in>set (rows (witnesses d)). owner_of p = name \<and> can_sign p"
        using active_distinct(2) [OF R(1) assms(3) R(4)] by metis
    qed
  qed
qed

text \<open>
  (C28) Fairness of a round: in any \<open>n\<close> consecutive slots, where \<open>n\<close> witnesses are scheduled, every
  one of them is scheduled for exactly one slot.
\<close>

theorem each_witness_once_per_round:
  assumes "n = unat (wso_num_scheduled_witnesses (wso d))" "0 < n" "n \<le> length (wso_current_shuffled_witnesses (wso d))"
    and "unat (gpo_current_aslot (gpo d)) + slot + n \<le> 2 ^ 64" "slot + n \<le> 2 ^ 32"
  shows "mset (map (\<lambda>k. get_scheduled_witness (of_nat (slot + k)) d) [0..<n])
    = mset (map Inr (take n (wso_current_shuffled_witnesses (wso d))))"
proof -
  let ?ws = "take n (wso_current_shuffled_witnesses (wso d))" and ?a = "unat (gpo_current_aslot (gpo d)) + slot"
  have num: "unat (ucast (wso_num_scheduled_witnesses (wso d)) :: u64) = n"
    using assms(1) unat_less [of "wso_num_scheduled_witnesses (wso d)"] by (simp add: unsigned_ucast_eq take_bit_nat_def)
  have "get_scheduled_witness (of_nat (slot + k)) d = Inr (rotate ?a ?ws ! k)" if "k < n" for k
  proof -
    have "unat (of_nat (slot + k) :: u32) = slot + k" using assms(5) that by (intro unat_of_nat_small) simp
    then have "unat (ucast (of_nat (slot + k) :: u32) :: u64) = slot + k"
      using unat_less [of "of_nat (slot + k) :: u32"] by (simp add: unsigned_ucast_eq take_bit_nat_def)
    then have sum: "unat (gpo_current_aslot (gpo d) + ucast (of_nat (slot + k) :: u32)) = ?a + k"
      using assms(4) that unat_word_ariths(1) [of "gpo_current_aslot (gpo d)" "ucast (of_nat (slot + k) :: u32)"] by simp
    have "rotate ?a ?ws ! k = wso_current_shuffled_witnesses (wso d) ! ((?a + k) mod n)"
      using that assms(2,3) by (simp add: nth_rotate)
    moreover have "(?a + k) mod n < length (wso_current_shuffled_witnesses (wso d))"
      using assms(2,3) by (meson less_le_trans mod_less_divisor)
    moreover have "ucast (wso_num_scheduled_witnesses (wso d)) \<noteq> (0 :: u64)" using num assms(2) by (metis less_numeral_extra(3) unat_0)
    ultimately show ?thesis unfolding get_scheduled_witness_def Let_def unat_mod num sum by simp
  qed
  then have "map (\<lambda>k. get_scheduled_witness (of_nat (slot + k)) d) [0..<n] = map Inr (rotate ?a ?ws)"
    using assms(3) by (intro nth_equalityI) simp_all
  then show ?thesis by (simp add: mset_rotate)
qed

section \<open>Slots and times\<close>

lemma slot_times:
  fixes t :: time_point_sec
  assumes "uint (head_block_time d) + 3 * uint s < 2 ^ 32" "0 < s"
  defines "b \<equiv> (if head_block_num d = 0 then uint (head_block_time d) else 3 * (uint (head_block_time d) div 3))"
  shows "uint (get_slot_time s d) = b + 3 * uint s"
proof -
  let ?b = "if head_block_num d = 0 then head_block_time d else head_block_time d div 3 * 3"
  have div: "uint (head_block_time d div 3 * 3) = 3 * (uint (head_block_time d) div 3)"
  proof -
    have "uint (head_block_time d) div 3 * 3 < 2 ^ 32" using uint_lt2p [of "head_block_time d"] by simp
    moreover have "0 \<le> uint (head_block_time d) div 3 * 3" by (simp add: pos_imp_zdiv_nonneg_iff)
    ultimately show ?thesis by (simp add: uint_word_ariths uint_div mod_pos_pos_trivial)
  qed
  have b: "uint ?b = b" using div by (simp add: b_def)
  have "b \<le> uint (head_block_time d)" using mult_div_mod_eq [of 3 "uint (head_block_time d)"] by (simp add: b_def) presburger
  then have "b + 3 * uint s < 2 ^ 32" using assms(1) by simp
  moreover have "0 \<le> b" by (simp add: b_def pos_imp_zdiv_nonneg_iff)
  ultimately have "uint (?b + s * 3) = b + 3 * uint s"
    using b by (simp add: uint_word_ariths mult.commute mod_add_right_eq mod_pos_pos_trivial)
  moreover have "s \<noteq> 0" using assms(2) by auto
  ultimately show ?thesis by (simp add: get_slot_time_def head_block_time_def Let_def split: if_splits)
qed

text \<open>
  Slots and times correspond: a time belongs to slot \<open>s\<close> exactly when it lies between the times
  of slot \<open>s\<close> and slot \<open>s + 1\<close>; in particular the time of slot \<open>s\<close> is mapped back to \<open>s\<close>.
\<close>

theorem slot_of_time:
  assumes "uint (head_block_time d) + 3 * (uint s + 1) < 2 ^ 32" "0 < s"
  shows "(get_slot_at_time t d = s \<longleftrightarrow> get_slot_time s d \<le> t \<and> t < get_slot_time (s + 1) d)
    \<and> get_slot_at_time (get_slot_time s d) d = s"
proof -
  define b where "b = (if head_block_num d = 0 then uint (head_block_time d) else 3 * (uint (head_block_time d) div 3))"
  have s: "1 \<le> uint s" using assms(2) by (simp add: word_less_def)
  have "uint (head_block_time d) + 3 * (uint s + 1) < 4294967296" using assms(1) by simp
  then have "uint s + 1 < 4294967296" using uint_ge_0 [of "head_block_time d"] s by presburger
  then have s1: "uint (s + 1) = uint s + 1" by (simp add: uint_word_ariths mod_pos_pos_trivial)
  have "0 < s + 1" using s1 s by (simp add: word_less_def)
  then have T: "uint (get_slot_time 1 d) = b + 3" "uint (get_slot_time s d) = b + 3 * uint s"
    "uint (get_slot_time (s + 1) d) = b + 3 * (uint s + 1)"
    using slot_times [of d 1] slot_times [of d s] slot_times [of d "s + 1"] assms s s1 by (simp_all add: b_def)
  have slot: "get_slot_at_time u d = s \<longleftrightarrow> b + 3 * uint s \<le> uint u \<and> uint u < b + 3 * (uint s + 1)" for u
  proof (cases "uint u < b + 3")
    case True
    then have "get_slot_at_time u d = 0" using T(1) by (simp add: get_slot_at_time_def Let_def word_less_def)
    then show ?thesis using assms(2) True s by auto
  next
    case False
    let ?k = "(uint u - (b + 3)) div 3 + 1"
    have at: "get_slot_at_time u d = word_of_int ?k"
      using T(1) False by (simp add: get_slot_at_time_def Let_def word_less_def time_diff_def)
    have "0 \<le> b" by (simp add: b_def pos_imp_zdiv_nonneg_iff)
    moreover have "uint u < 4294967296" using uint_lt2p [of u] by simp
    ultimately have "0 \<le> ?k" "?k < 4294967296" using False by presburger+
    then have "?k mod 2 ^ 32 = ?k" by (intro mod_pos_pos_trivial) simp_all
    then have "uint (word_of_int ?k :: u32) = ?k" by (simp only: uint_word_of_int len_of_numeral_defs) simp
    then have "word_of_int ?k = s \<longleftrightarrow> ?k = uint s" by (metis word_uint_eqI)
    moreover have "?k = uint s \<longleftrightarrow> b + 3 * uint s \<le> uint u \<and> uint u < b + 3 * (uint s + 1)" by presburger
    ultimately show ?thesis using at by simp
  qed
  show ?thesis using slot [of t] slot [of "get_slot_time s d"] T by (simp add: word_less_def word_le_def)
qed

section \<open>Medians\<close>

definition is_median :: "('w \<Rightarrow> 'k::linorder) \<Rightarrow> 'k \<Rightarrow> 'w list \<Rightarrow> bool" where
  "is_median f m ws \<longleftrightarrow> m \<in> f ` set ws \<and> length ws < 2 * length (filter (\<lambda>w. f w \<le> m) ws)
     \<and> length ws \<le> 2 * length (filter (\<lambda>w. m \<le> f w) ws)"

lemma median_by_is_median:
  assumes "ws \<noteq> []"
  shows "is_median f (f (median_by f ws)) ws"
proof -
  define xs where "xs = sort_key f ws"
  define k where "k = length ws div 2"
  have xs: "length xs = length ws" "set xs = set ws" "sorted (map f xs)" by (simp_all add: xs_def)
  have k: "k < length xs" using assms xs(1) by (simp add: k_def) 
  have cnt: "length (filter P ws) = length (filter P xs)" for P
    unfolding xs_def by (metis mset_filter mset_sort size_mset)
  have le: "f (xs ! i) \<le> f (xs ! j)" if "i \<le> j" "j < length xs" for i j
    using sorted_nth_mono [OF xs(3) that(1)] that by simp
  have "Suc k \<le> length (filter (\<lambda>w. f w \<le> f (xs ! k)) xs)"
  proof -
    have "filter (\<lambda>w. f w \<le> f (xs ! k)) (take (Suc k) xs) = take (Suc k) xs"
      by (rule filter_True) (use le k in \<open>auto simp: in_set_conv_nth\<close>)
    then have "length (filter (\<lambda>w. f w \<le> f (xs ! k)) (take (Suc k) xs @ drop (Suc k) xs)) \<ge> Suc k"
      unfolding filter_append using k by simp
    then show ?thesis by simp
  qed
  moreover have "length xs - k \<le> length (filter (\<lambda>w. f (xs ! k) \<le> f w) xs)"
  proof -
    have "filter (\<lambda>w. f (xs ! k) \<le> f w) (drop k xs) = drop k xs"
      by (rule filter_True) (use le k in \<open>auto simp: in_set_conv_nth\<close>)
    then have "length (filter (\<lambda>w. f (xs ! k) \<le> f w) (take k xs @ drop k xs)) \<ge> length xs - k"
      unfolding filter_append by simp
    then show ?thesis by simp
  qed
  moreover have "f (xs ! k) \<in> f ` set ws" using k xs(2) by (metis imageI nth_mem)
  ultimately show ?thesis unfolding is_median_def cnt
    using xs(1) by (simp add: median_by_def flip: xs_def k_def) (simp add: k_def, linarith)
qed

text \<open>
  The chain parameters are medians: at least half of the scheduled witnesses ask for no more and
  at least half for no less than the account creation fee and the block size that the chain adopts.
\<close>

theorem median_props_are_medians:
  assumes "update_median_witness_props d = Inr d'"
  shows "\<exists>ws. scheduled_witnesses d = Inr ws
    \<and> is_median (\<lambda>w. amount (cp_account_creation_fee (wit_props w))) (amount (cp_account_creation_fee (wso_median_props (wso d')))) ws
    \<and> is_median (\<lambda>w. cp_maximum_block_size (wit_props w)) (gpo_maximum_block_size (gpo d')) ws"
  using update_median_result [OF assms] by (auto intro: median_by_is_median)

section \<open>Majorities\<close>

lemma bump_total:
  "sum_list (map snd (filter (\<lambda>p. P (fst p)) (bump before k m))) = sum_list (map snd (filter (\<lambda>p. P (fst p)) m)) + (if P k then 1 else 0)"
  by (induction before k m rule: bump.induct) auto

lemma fold_bump_total:
  "sum_list (map snd (filter (\<lambda>p. P (fst p)) (fold (\<lambda>w. bump before (f w)) ws m)))
    = sum_list (map snd (filter (\<lambda>p. P (fst p)) m)) + length (filter (\<lambda>w. P (f w)) ws)"
  by (induction ws arbitrary: m) (simp_all add: bump_total)

lemma bump_keys: "fst ` set (bump before k m) = insert k (fst ` set m)"
  by (induction before k m rule: bump.induct) auto

lemma bump_sorted:
  fixes m :: "('k::linorder \<times> nat) list"
  assumes "sorted_wrt (\<lambda>a b. b < a) (map fst m)"
  shows "sorted_wrt (\<lambda>a b. b < a) (map fst (bump (\<lambda>a b. b < a) k m))"
  using assms
proof (induction m)
  case (Cons p m)
  obtain k' n where p: "p = (k', n)" by fastforce
  have keys: "set (map fst (bump (\<lambda>a b. b < a) k m)) = insert k (set (map fst m))" using bump_keys [of _ k m] by simp
  show ?case using Cons keys by (auto simp: p)
qed simp

lemma witness_versions_sorted: "sorted_wrt (\<lambda>a b. b < a) (map fst (witness_versions ws))"
proof -
  have "sorted_wrt (\<lambda>a b. b < a) (map fst (fold (\<lambda>w. bump (\<lambda>a b. b < a) (wit_running_version w)) ws m))"
    if "sorted_wrt (\<lambda>a b. b < a) (map fst m)" for m using that by (induction ws arbitrary: m) (simp_all add: bump_sorted)
  then show ?thesis by (simp add: witness_versions_def)
qed

lemma find_majority_result:
  "find_majority required on m majority = v \<Longrightarrow> v = majority
     \<or> (\<exists>pre n post. m = pre @ (v, n) # post \<and> required \<le> on + sum_list (map snd pre) + n)"
proof (induction required on m majority rule: find_majority.induct)
  case (2 required on v' n m majority)
  show ?case
  proof (cases "required \<le> on + n")
    case True
    then have "v = v'" using 2(2) by simp
    then show ?thesis using True by (intro disjI2 exI [of _ "[]"]) simp
  next
    case False
    then consider "v = majority" | pre k post where "m = pre @ (v, k) # post" "required \<le> on + n + sum_list (map snd pre) + k"
      using 2 by auto
    then show ?thesis
    proof cases
      case 2
      then show ?thesis by (intro disjI2 exI [of _ "(v', n) # pre"]) simp
    qed simp
  qed
qed simp

lemma majority_count:
  assumes "find_majority required 0 (witness_versions ws) majority = v" "v \<noteq> majority"
  shows "required \<le> length (filter (\<lambda>w. v \<le> wit_running_version w) ws)"
proof -
  obtain pre n post where m: "witness_versions ws = pre @ (v, n) # post" "required \<le> sum_list (map snd pre) + n"
    using find_majority_result [OF assms(1)] assms(2) by auto
  have "\<forall>p\<in>set pre. v < fst p" using witness_versions_sorted [of ws] by (auto simp: m(1) sorted_wrt_append)
  then have "filter (\<lambda>p. v \<le> fst p) pre = pre" by (intro filter_True) auto
  then have "sum_list (map snd pre) + n \<le> sum_list (map snd (filter (\<lambda>p. v \<le> fst p) (witness_versions ws)))" by (simp add: m(1))
  then show ?thesis using m(2) fold_bump_total [of "\<lambda>k. v \<le> k" "\<lambda>a b. b < a" wit_running_version ws "[]"]
    by (simp add: witness_versions_def)
qed

lemma hardfork_count:
  assumes "find (\<lambda>(v, n). n \<ge> required) (hardfork_version_votes ws) = Some (k, n)"
  shows "required \<le> length (filter (\<lambda>w. (wit_hardfork_version_vote w, wit_hardfork_time_vote w) = k) ws)"
proof -
  have "(k, n) \<in> set (hardfork_version_votes ws)" "required \<le> n" using assms by (auto simp: find_Some_iff in_set_conv_nth)
  then have "n \<in> set (map snd (filter (\<lambda>p. fst p = k) (hardfork_version_votes ws)))" by force
  then have "n \<le> sum_list (map snd (filter (\<lambda>p. fst p = k) (hardfork_version_votes ws)))" by (rule member_le_sum_list) simp
  then show ?thesis using \<open>required \<le> n\<close>
    fold_bump_total [of "\<lambda>x. x = k" vote_before "\<lambda>w. (wit_hardfork_version_vote w, wit_hardfork_time_vote w)" ws "[]"]
    by (simp add: hardfork_version_votes_def)
qed

lemma scheduled_rescheduling:
  assumes "rescheduling d e" "scheduled_witnesses e = Inr ws"
  shows "\<exists>us. scheduled_witnesses d = Inr us \<and> list_all2 rescheduled us ws"
proof -
  have R: "rows_rel rescheduled (witnesses d) (witnesses e)" and
    S: "wso_current_shuffled_witnesses (wso e) = wso_current_shuffled_witnesses (wso d)"
      "wso_num_scheduled_witnesses (wso e) = wso_num_scheduled_witnesses (wso d)"
    using assms(1) by (auto simp: rescheduling_def)
  have find: "\<exists>u. get_witness name d = Inr (k, u) \<and> rescheduled u w" if "get_witness name e = Inr (k, w)" for name k w
  proof -
    have "\<exists>u. find (\<lambda>p. owner_of p = name) xs = Some (k, u) \<and> rescheduled u w"
      if "list_all2 (\<lambda>p q. fst p = fst q \<and> rescheduled (snd p) (snd q)) xs ys" "find (\<lambda>p. owner_of p = name) ys = Some (k, w)" for xs ys
      using that by (induction rule: list_all2_induct) (force dest: rescheduled_fields split: if_splits)+
    then show ?thesis using R that by (simp add: get_witness_def tbl_get_by_Inr tbl_find_by_def rows_rel_def)
  qed
  have "\<exists>us. efold (\<lambda>i ws. if i < length (wso_current_shuffled_witnesses (wso d)) then
         ebind (get_witness (wso_current_shuffled_witnesses (wso d) ! i) d) (\<lambda>p. Inr (ws @ [snd p])) else Inl out_of_range) is us0 = Inr us
      \<and> list_all2 rescheduled us ws"
    if "efold (\<lambda>i ws. if i < length (wso_current_shuffled_witnesses (wso d)) then
         ebind (get_witness (wso_current_shuffled_witnesses (wso d) ! i) e) (\<lambda>p. Inr (ws @ [snd p])) else Inl out_of_range) is ws0 = Inr ws"
      "list_all2 rescheduled us0 ws0" for "is" us0 ws0 using that
  proof (induction "is" arbitrary: us0 ws0)
    case (Cons i "is")
    obtain k w where w: "i < length (wso_current_shuffled_witnesses (wso d))" "get_witness (wso_current_shuffled_witnesses (wso d) ! i) e = Inr (k, w)"
      using Cons.prems(1) by (auto split: if_splits)
    from find [OF w(2)] obtain u where u: "get_witness (wso_current_shuffled_witnesses (wso d) ! i) d = Inr (k, u)" "rescheduled u w" by auto
    then have "list_all2 rescheduled (us0 @ [u]) (ws0 @ [w])" using Cons.prems(2) by (auto intro: list_all2_appendI)
    from Cons.IH [OF _ this] show ?case using Cons.prems(1) w u by simp
  qed simp
  from this [of _ "[]" "[]"] show ?thesis using assms(2) unfolding scheduled_witnesses_def S by blast
qed

lemma rescheduled_filter:
  assumes "list_all2 rescheduled us ws" "\<And>u w. rescheduled u w \<Longrightarrow> P w = P u"
  shows "length (filter P ws) = length (filter P us)"
  using assms(1) by (induction rule: list_all2_induct) (simp_all add: assms(2))


section \<open>Scheduling moves no money\<close>

lemma quiet_schedule_updates [simp]:
  "quiet d (e\<lparr>wso := w\<rparr>) = quiet d e"
  "quiet d (e\<lparr>hpo := h\<rparr>) = quiet d e"
  "quiet d (e\<lparr>gpo := (gpo e)\<lparr>gpo_maximum_block_size := n\<rparr>\<rparr>) = quiet d e"
  by (simp_all add: quiet_def same_proxies_def same_money_def ledger_def gpo_ok_def wf_db_def)

lemma update_witness_schedule_quiet:
  assumes "table_ok (witnesses d)"
  shows "yields (update_witness_schedule d) (quiet d)"
proof -
  have "quiet d d'" if u: "update_witness_schedule4 d = Inr d'" for d'
  proof -
    obtain d1 runners e v ws where
      R: "rescheduling d d1" "rescheduling d e" "scheduled_witnesses e = Inr ws"
        "runners = take (WLS_MAX_WITNESSES - length (elected d))
         (filter (\<lambda>p. can_sign p \<and> fst p \<notin> fst ` set (elected d)) (by_schedule_time d1))"
      and len: "length (elected d) + length runners = min WLS_MAX_WITNESSES (length (rows (witnesses e)))"
      and U: "update_median_witness_props (e\<lparr>hpo := choose_hardfork (unat (wso_hardfork_required_witnesses (wso d))) (hardfork_version_votes ws) (hpo d),
         wso := install_schedule (map owner_of (elected d) @ map owner_of runners) (length (elected d)) v
           (find_majority (unat (wso_hardfork_required_witnesses (wso d))) 0 (witness_versions ws) (wso_majority_version (wso d))) e (wso e)\<rparr>) = Inr d'"
        (is "update_median_witness_props ?e = _")
      by (rule update_witness_schedule4_elim [OF u assms])
    have "quiet d e" using R(2) by (auto simp: rescheduling_def)
    then have e: "quiet d ?e" by simp
    obtain w size where d': "d' = ?e\<lparr>wso := w, gpo := (gpo ?e)\<lparr>gpo_maximum_block_size := size\<rparr>\<rparr>"
      using update_median_result [OF U] by blast
    have "quiet d (?e\<lparr>wso := w\<rparr>)" using e by simp
    then show ?thesis unfolding d' using quiet_schedule_updates(3) [where e = "?e\<lparr>wso := w\<rparr>" and n = size] by simp
  qed
  then show ?thesis by (auto simp: update_witness_schedule_def yields_def)
qed

section \<open>A concrete round\<close>

definition sample_round :: database where
  "sample_round = sample_db\<lparr>
     witnesses := \<lparr>rows = [
       (0, default_witness\<lparr>wit_owner := ''wls'', wit_signing_key := 1, wit_votes := 7, wit_virtual_scheduled_time := 5,
           wit_props := \<lparr>cp_account_creation_fee = WLS 30, cp_maximum_block_size = 70000\<rparr>\<rparr>),
       (1, default_witness\<lparr>wit_owner := ''alice'', wit_signing_key := 2, wit_votes := 9, wit_virtual_scheduled_time := 8\<rparr>),
       (2, default_witness\<lparr>wit_owner := ''bob'', wit_signing_key := 3, wit_votes := 2, wit_virtual_scheduled_time := 3\<rparr>)], next_row_id = 3\<rparr>,
     wso := default_witness_schedule\<lparr>wso_current_shuffled_witnesses := ''wls'' # replicate 20 [], wso_max_voted_witnesses := 2\<rparr>\<rparr>"

lemma sample_round_ok: "table_ok (witnesses sample_round)" "unique_owners sample_round"
  by (simp_all add: sample_round_def table_ok_def unique_owners_def)

lemma sample_round_runs: "\<exists>d'. update_witness_schedule4 sample_round = Inr d'"
proof -
  have "\<not> isl (update_witness_schedule4 sample_round)" by code_simp
  then show ?thesis by (cases "update_witness_schedule4 sample_round") auto
qed

theorem round_schedules_witnesses_witness:
  "\<exists>d'. update_witness_schedule4 sample_round = Inr d'
    \<and> distinct (take (unat (wso_num_scheduled_witnesses (wso d'))) (wso_current_shuffled_witnesses (wso d')))"
  using sample_round_runs round_schedules_witnesses [OF _ sample_round_ok] by blast

theorem each_witness_once_per_round_witness:
  "mset (map (\<lambda>k. get_scheduled_witness (of_nat (1 + k)) sample_round) [0..<1]) = mset (map Inr (take 1 (wso_current_shuffled_witnesses (wso sample_round))))"
  by (rule each_witness_once_per_round) (simp_all add: sample_round_def default_witness_schedule_def default_gpo_def sample_db_def)

theorem slot_of_time_witness: "get_slot_at_time (get_slot_time 5 sample_db) sample_db = 5"
  using slot_of_time [of sample_db 5] by (simp add: sample_db_def head_block_time_def)

theorem median_props_are_medians_witness:
  "\<exists>d' ws. update_median_witness_props sample_round = Inr d' \<and> scheduled_witnesses sample_round = Inr ws
    \<and> is_median (\<lambda>w. cp_maximum_block_size (wit_props w)) (gpo_maximum_block_size (gpo d')) ws"
proof -
  have "\<not> isl (update_median_witness_props sample_round)" by code_simp
  then obtain d' where "update_median_witness_props sample_round = Inr d'"
    by (cases "update_median_witness_props sample_round") auto
  with median_props_are_medians show ?thesis by blast
qed


end
