(* ===== verification/Apply.thy ===== *)
theory Apply
  imports Witness_Schedule
begin

text \<open>
  Applying operations, transactions and the parts of a block to the chain state: \<open>apply_operation\<close>,
  \<open>_apply_transaction\<close>, \<open>validate_block_header\<close> and the per-block bookkeeping of \<open>database.cpp\<close>.
  The dispatcher follows \<open>initialize_evaluators\<close> and \<open>evaluator_registry\<close>.

  \<open>chain_env\<close> collects what is not part of the chain state: the libraries, the hashes of the chain
  id, and the interpreters that plugins register for custom operations.  Plugins keep their own
  indices, so that an interpreter leaves the objects of \<open>database\<close> alone; that is \<open>env_ok\<close>.

  The lemmas show that every validated operation keeps the supply invariants and the proxies acyclic,
  and what an accepted transaction and an irreversible block number promise.
\<close>

unbundle bit_operations_syntax

section \<open>Operations\<close>

record chain_env =
  env_fc :: fc_lib
  env_crypto :: fc_crypto
  env_raw :: fc_raw
  env_text :: text_lib
  env_json :: "custom_json_operation interpreters"
  env_binary :: "custom_binary_operation interpreters"
  env_chain_id :: chain_id_type

fun apply_operation :: "chain_env \<Rightarrow> bool \<Rightarrow> operation \<Rightarrow> database \<Rightarrow> database result" where
  "apply_operation E producing (Vote op) d = vote_do_apply (env_fc E) op d"
| "apply_operation E producing (Comment op) d = comment_do_apply (env_fc E) (env_text E) op d"
| "apply_operation E producing (CommentOptions op) d = comment_options_do_apply op d"
| "apply_operation E producing (DeleteComment op) d = delete_comment_do_apply op d"
| "apply_operation E producing (Transfer op) d = transfer_do_apply (env_fc E) op d"
| "apply_operation E producing (TransferToVesting op) d = transfer_to_vesting_do_apply (env_fc E) op d"
| "apply_operation E producing (WithdrawVesting op) d = withdraw_vesting_do_apply (env_fc E) op d"
| "apply_operation E producing (SetWithdrawVestingRoute op) d = set_withdraw_vesting_route_do_apply op d"
| "apply_operation E producing (AccountCreate op) d = account_create_do_apply (env_fc E) op d"
| "apply_operation E producing (AccountUpdate op) d = account_update_do_apply op d"
| "apply_operation E producing (AccountForsale op) d = account_forsale_do_apply op d"
| "apply_operation E producing (AccountBuying op) d = account_buying_do_apply op d"
| "apply_operation E producing (WitnessUpdate op) d = witness_update_do_apply producing op d"
| "apply_operation E producing (AccountWitnessVote op) d = account_witness_vote_do_apply (env_fc E) op d"
| "apply_operation E producing (AccountWitnessProxy op) d = account_witness_proxy_do_apply (env_fc E) op d"
| "apply_operation E producing (Custom op) d = custom_do_apply op d"
| "apply_operation E producing (CustomBinary op) d = custom_binary_do_apply (env_binary E) producing op d"
| "apply_operation E producing (CustomJson op) d = custom_json_do_apply (env_json E) producing op d"
| "apply_operation E producing (ClaimRewardBalance op) d = claim_reward_balance_do_apply (env_fc E) op d"
| "apply_operation E producing (Virtual op) d = Inl null_pointer"

section \<open>Validation steps that can be skipped\<close>

abbreviation (input) skip_witness_signature :: u32 where "skip_witness_signature \<equiv> 0x1"
abbreviation (input) skip_transaction_signatures :: u32 where "skip_transaction_signatures \<equiv> 0x2"
abbreviation (input) skip_transaction_dupe_check :: u32 where "skip_transaction_dupe_check \<equiv> 0x4"
abbreviation (input) skip_fork_db :: u32 where "skip_fork_db \<equiv> 0x8"
abbreviation (input) skip_block_size_check :: u32 where "skip_block_size_check \<equiv> 0x10"
abbreviation (input) skip_tapos_check :: u32 where "skip_tapos_check \<equiv> 0x20"
abbreviation (input) skip_authority_check :: u32 where "skip_authority_check \<equiv> 0x40"
abbreviation (input) skip_merkle_check :: u32 where "skip_merkle_check \<equiv> 0x80"
abbreviation (input) skip_undo_history_check :: u32 where "skip_undo_history_check \<equiv> 0x100"
abbreviation (input) skip_witness_schedule_check :: u32 where "skip_witness_schedule_check \<equiv> 0x200"
abbreviation (input) skip_validate :: u32 where "skip_validate \<equiv> 0x400"
abbreviation (input) skip_validate_invariants :: u32 where "skip_validate_invariants \<equiv> 0x800"
abbreviation (input) skip_block_log :: u32 where "skip_block_log \<equiv> 0x2000"

definition has_flag :: "u32 \<Rightarrow> u32 \<Rightarrow> bool" where
  "has_flag skip f \<longleftrightarrow> skip AND f \<noteq> 0"

section \<open>Transactions\<close>

text \<open>The map of exceptional blocks is empty: all its entries are commented out.\<close>

definition get_shared_db_merkle :: "(u32 \<times> checksum_type) list" where
  "get_shared_db_merkle = []"

definition is_known_transaction :: "transaction_id_type \<Rightarrow> database \<Rightarrow> bool" where
  "is_known_transaction i d \<longleftrightarrow> tbl_find_by (\<lambda>t. txo_trx_id t = i) (transaction_table d) \<noteq> None"

definition authority_of :: "(account_authority_object \<Rightarrow> authority) \<Rightarrow> database \<Rightarrow> authority_getter" where
  "authority_of level d name = ebind (get_authority name d) (\<lambda>(_, a). Inr (level a))"

definition check_signatures :: "chain_env \<Rightarrow> signed_transaction \<Rightarrow> database \<Rightarrow> unit result" where
  "check_signatures E trx d =
     (case signed_transaction_verify_authority (env_crypto E) (env_chain_id E) (authority_of aut_active d) (authority_of aut_owner d)
             (authority_of aut_posting d) WLS_MAX_SIG_CHECK_DEPTH trx of
        Inl tx_missing_active_auth \<Rightarrow>
          if map_of get_shared_db_merkle (head_block_num d + 1) = None then Inl tx_missing_active_auth else Inr ()
      | r \<Rightarrow> r)"

definition check_tapos :: "signed_transaction \<Rightarrow> database \<Rightarrow> unit result" where
  "check_tapos trx d =
     ebind (tbl_get (uint (ref_block_num trx)) (block_summaries d)) (\<lambda>tapos_block_summary.
     wls_assert (ref_block_prefix trx = bso_block_id tapos_block_summary ! 1) transaction_tapos_exception (Inr ()))"

definition check_expiration :: "signed_transaction \<Rightarrow> database \<Rightarrow> unit result" where
  "check_expiration trx d =
     (let now = head_block_time d in
      wls_assert (uint (expiration trx) \<le> uint now + WLS_MAX_TIME_UNTIL_EXPIRATION) transaction_expiration_exception
      (wls_assert (now < expiration trx) transaction_expiration_exception
      (wls_assert (now \<le> expiration trx) transaction_expiration_exception (Inr ()))))"

definition apply_transaction_checks :: "chain_env \<Rightarrow> u32 \<Rightarrow> signed_transaction \<Rightarrow> database \<Rightarrow> unit result" where
  "apply_transaction_checks E skip trx d =
     ebind (if \<not> has_flag skip skip_validate then transaction_validate (env_fc E) trx else Inr ()) (\<lambda>_.
     require (has_flag skip skip_transaction_dupe_check \<or> \<not> is_known_transaction (transaction_id (env_crypto E) trx) d)
     (ebind (if \<not> has_flag skip (skip_transaction_signatures OR skip_authority_check) then check_signatures E trx d else Inr ()) (\<lambda>_.
     if head_block_num d > 0 then
       ebind (if \<not> has_flag skip skip_tapos_check then check_tapos trx d else Inr ()) (\<lambda>_. check_expiration trx d)
     else Inr ())))"

definition record_transaction :: "chain_env \<Rightarrow> u32 \<Rightarrow> signed_transaction \<Rightarrow> database \<Rightarrow> database result" where
  "record_transaction E skip trx d =
     (if \<not> has_flag skip skip_transaction_dupe_check then
        ebind (tbl_create key_transaction \<lparr>txo_packed_trx = trx, txo_trx_id = transaction_id (env_crypto E) trx,
            txo_expiration = expiration trx\<rparr> (transaction_table d)) (\<lambda>(_, t). Inr (d\<lparr>transaction_table := t\<rparr>))
      else Inr d)"

definition apply_transaction :: "chain_env \<Rightarrow> bool \<Rightarrow> u32 \<Rightarrow> signed_transaction \<Rightarrow> database \<Rightarrow> database result" where
  "apply_transaction E producing skip trx d =
     ebind (apply_transaction_checks E skip trx d) (\<lambda>_.
     ebind (record_transaction E skip trx d) (\<lambda>d.
     efold (apply_operation E producing) (operations trx) d))"

section \<open>Block headers\<close>

text \<open>\<open>validate_block_header\<close> returns a reference to the witness; the model its id.\<close>

definition validate_block_header :: "chain_env \<Rightarrow> u32 \<Rightarrow> signed_block \<Rightarrow> database \<Rightarrow> int result" where
  "validate_block_header E skip next_block d =
     require (head_block_id d = previous next_block)
     (require (head_block_time d < timestamp next_block)
     (ebind (get_witness (witness next_block) d) (\<lambda>(i, w).
      ebind (if \<not> has_flag skip skip_witness_signature then
               ebind (validate_signee (env_crypto E) next_block (wit_signing_key w)) (\<lambda>ok. require ok (Inr ()))
             else Inr ()) (\<lambda>_.
      ebind (if \<not> has_flag skip skip_witness_schedule_check then
               let slot_num = get_slot_at_time (timestamp next_block) d in
               require (slot_num > 0)
               (ebind (get_scheduled_witness slot_num d) (\<lambda>scheduled_witness. require (wit_owner w = scheduled_witness) (Inr ())))
             else Inr ()) (\<lambda>_. Inr i)))))"

definition header_extension :: "account_name_type \<Rightarrow> block_header_extension \<Rightarrow> database \<Rightarrow> database result" where
  "header_extension name e d = (case e of
       ext_void \<Rightarrow> Inr d
     | ext_version reported_version \<Rightarrow>
         ebind (get_witness name d) (\<lambda>(i, signing_witness).
         if reported_version \<noteq> wit_running_version signing_witness
         then modify_witness i (\<lambda>wo. Inr (wo\<lparr>wit_running_version := reported_version\<rparr>)) d else Inr d)
     | ext_hardfork_version_vote hfv \<Rightarrow>
         ebind (get_witness name d) (\<lambda>(i, signing_witness).
         if hf_version hfv \<noteq> wit_hardfork_version_vote signing_witness \<or> hf_time hfv \<noteq> wit_hardfork_time_vote signing_witness
         then modify_witness i (\<lambda>wo. Inr (wo\<lparr>wit_hardfork_version_vote := to_hardfork_version (hf_version hfv),
           wit_hardfork_time_vote := hf_time hfv\<rparr>)) d else Inr d))"

definition process_header_extensions :: "signed_block \<Rightarrow> database \<Rightarrow> database result" where
  "process_header_extensions next_block d = efold (header_extension (witness next_block)) (extensions next_block) d"

section \<open>Bookkeeping of a block\<close>

definition create_block_summary :: "chain_env \<Rightarrow> signed_block \<Rightarrow> database \<Rightarrow> database result" where
  "create_block_summary E next_block d =
     (let sid = uint (block_num (env_crypto E) next_block AND 0xffff) in
      ebind (tbl_get sid (block_summaries d)) (\<lambda>_.
      ebind (tbl_modify_id sid (\<lambda>p. Inr (p\<lparr>bso_block_id := block_id (env_crypto E) next_block\<rparr>)) (block_summaries d)) (\<lambda>t.
      Inr (d\<lparr>block_summaries := t\<rparr>))))"

definition missed_block :: "signed_block \<Rightarrow> nat \<Rightarrow> database \<Rightarrow> database result" where
  "missed_block b i d =
     ebind (get_scheduled_witness (of_nat (i + 1)) d) (\<lambda>name.
     ebind (get_witness name d) (\<lambda>(j, witness_missed).
     if wit_owner witness_missed \<noteq> witness b then
       let shutdown = (ucast (head_block_num d) - wit_last_confirmed_block_num witness_missed > WLS_BLOCKS_PER_DAY) in
       ebind (modify_witness j (\<lambda>w.
         let w = w\<lparr>wit_total_missed := wit_total_missed w + 1\<rparr>
         in Inr (if shutdown then w\<lparr>wit_signing_key := 0\<rparr> else w)) d) (\<lambda>d.
       Inr (if shutdown then push_virtual_operation (shutdown_witness_operation (wit_owner witness_missed)) d else d))
     else Inr d))"

definition fill_slot :: "nat \<Rightarrow> dynamic_global_property_object \<Rightarrow> dynamic_global_property_object" where
  "fill_slot i dgp =
     (let one = (if i = 0 then 1 else 0) in
      dgp\<lparr>gpo_participation_count := gpo_participation_count dgp - (if bit (gpo_recent_slots_filled dgp) 127 then 1 else 0)
            + (if i = 0 then 1 else 0),
          gpo_recent_slots_filled := push_bit 1 (gpo_recent_slots_filled dgp) + one\<rparr>)"

definition update_global_dynamic_data :: "chain_env \<Rightarrow> u32 \<Rightarrow> u32 \<Rightarrow> signed_block \<Rightarrow> database \<Rightarrow> database result" where
  "update_global_dynamic_data E max_undo skip b d =
     ebind (if head_block_time d \<noteq> 0 then
              let slot = get_slot_at_time (timestamp b) d in
              require (slot \<noteq> 0)
              (ebind (efold (missed_block b) [0..<unat (slot - 1)] d) (\<lambda>d. Inr (slot - 1, d)))
            else Inr (0, d)) (\<lambda>(missed_blocks, d).
     let g = fold fill_slot [0..<unat (missed_blocks + 1)] (gpo d);
         g = g\<lparr>gpo_head_block_number := block_num (env_crypto E) b, gpo_head_block_id := block_id (env_crypto E) b,
               gpo_time := timestamp b, gpo_current_aslot := gpo_current_aslot g + ucast (missed_blocks + 1)\<rparr>;
         d = d\<lparr>gpo := g\<rparr>
     in if \<not> has_flag skip skip_undo_history_check then
          wls_assert (gpo_head_block_number g - gpo_last_irreversible_block_num g < max_undo) undo_database_exception (Inr d)
        else Inr d)"

definition update_signing_witness :: "chain_env \<Rightarrow> int \<Rightarrow> signed_block \<Rightarrow> database \<Rightarrow> database result" where
  "update_signing_witness E signing_witness new_block d =
     (let new_block_aslot = gpo_current_aslot (gpo d) + ucast (get_slot_at_time (timestamp new_block) d) in
      modify_witness signing_witness (\<lambda>wit. Inr (wit\<lparr>wit_last_aslot := new_block_aslot,
        wit_last_confirmed_block_num := ucast (block_num (env_crypto E) new_block)\<rparr>)) d)"

text \<open>
  The part of \<open>update_last_irreversible_block\<close> that changes the chain state.  \<open>std::nth_element\<close> puts
  the element at the offset where sorting would put it.
\<close>

definition irreversible_offset :: "nat \<Rightarrow> nat" where
  "irreversible_offset n = (WLS_100_PERCENT - WLS_IRREVERSIBLE_THRESHOLD) * n div WLS_100_PERCENT"

definition advance_irreversible :: "database \<Rightarrow> database result" where
  "advance_irreversible d =
     (if head_block_num d < WLS_START_MINER_VOTING_BLOCK then
        Inr (if head_block_num d > WLS_MAX_WITNESSES
             then d\<lparr>gpo := (gpo d)\<lparr>gpo_last_irreversible_block_num := head_block_num d - WLS_MAX_WITNESSES\<rparr>\<rparr> else d)
      else
        ebind (scheduled_witnesses d) (\<lambda>wit_objs.
        let offset = irreversible_offset (length wit_objs) in
        if wit_objs = [] then Inl out_of_range
        else
          let new_last_irreversible_block_num = ucast (wit_last_confirmed_block_num (sort_key wit_last_confirmed_block_num wit_objs ! offset))
          in Inr (if new_last_irreversible_block_num > gpo_last_irreversible_block_num (gpo d)
                  then d\<lparr>gpo := (gpo d)\<lparr>gpo_last_irreversible_block_num := new_last_irreversible_block_num\<rparr>\<rparr> else d)))"

text \<open>The transactions in the order of the index \<open>by_expiration\<close>.\<close>

definition by_expiration :: "database \<Rightarrow> (int \<times> transaction_object) list" where
  "by_expiration d = tbl_sorted (\<lambda>p. txo_expiration (snd p)) (transaction_table d)"

definition clear_expired_transactions :: "database \<Rightarrow> database result" where
  "clear_expired_transactions d =
     efold (\<lambda>p d. ebind (tbl_remove (fst p) (transaction_table d)) (\<lambda>t. Inr (d\<lparr>transaction_table := t\<rparr>)))
       (takeWhile (\<lambda>p. head_block_time d > txo_expiration (snd p)) (by_expiration d)) d"

section \<open>Hardforks\<close>

abbreviation (input) WLS_NUM_HARDFORKS :: "'a::zero" where "WLS_NUM_HARDFORKS \<equiv> 0"
abbreviation (input) WLS_BLOCKCHAIN_VERSION :: version where "WLS_BLOCKCHAIN_VERSION \<equiv> 0"
abbreviation (input) WLS_BLOCKCHAIN_HARDFORK_VERSION :: hardfork_version where "WLS_BLOCKCHAIN_HARDFORK_VERSION \<equiv> 0"

definition hardfork_times :: "time_point_sec list" where
  "hardfork_times = [WLS_GENESIS_TIME]"

definition hardfork_versions :: "hardfork_version list" where
  "hardfork_versions = [hardfork_version_of 0 0]"

definition array_get :: "'a list \<Rightarrow> u32 \<Rightarrow> 'a result" where
  "array_get xs i = (if unat i < length xs then Inr (xs ! unat i) else Inl out_of_range)"

definition init_hardforks :: "database \<Rightarrow> unit result" where
  "init_hardforks d =
     require (hpo_last_hardfork (hpo d) \<le> WLS_NUM_HARDFORKS)
     (ebind (array_get hardfork_versions (hpo_last_hardfork (hpo d))) (\<lambda>v.
      require (v \<le> to_hardfork_version WLS_BLOCKCHAIN_VERSION)
      (ebind (array_get hardfork_versions WLS_NUM_HARDFORKS) (\<lambda>v.
       require (WLS_BLOCKCHAIN_HARDFORK_VERSION = v) (Inr ())))))"

definition apply_hardfork :: "u32 \<Rightarrow> database \<Rightarrow> database result" where
  "apply_hardfork hardfork d =
     (let hfp = hpo d in
      require (hardfork = hpo_last_hardfork hfp + 1)
      (require (length (hpo_processed_hardforks hfp) = unat hardfork)
      (ebind (array_get hardfork_times hardfork) (\<lambda>t.
       ebind (array_get hardfork_versions hardfork) (\<lambda>v.
       let hfp = hfp\<lparr>hpo_processed_hardforks := hpo_processed_hardforks hfp @ [t], hpo_last_hardfork := hardfork,
             hpo_current_hardfork_version := to_hardfork_version v\<rparr>
       in ebind (array_get (hpo_processed_hardforks hfp) (hpo_last_hardfork hfp)) (\<lambda>p.
          require (p = t) (Inr (push_virtual_operation (hardfork_operation hardfork) (d\<lparr>hpo := hfp\<rparr>)))))))))"

primrec process_hardforks_loop :: "nat \<Rightarrow> database \<Rightarrow> database result" where
  "process_hardforks_loop 0 d = Inl nontermination"
| "process_hardforks_loop (Suc n) d =
     ebind (array_get hardfork_versions (hpo_last_hardfork (hpo d))) (\<lambda>v.
     if v < hpo_next_hardfork (hpo d) \<and> hpo_next_hardfork_time (hpo d) \<le> head_block_time d then
       if hpo_last_hardfork (hpo d) < WLS_NUM_HARDFORKS
       then ebind (apply_hardfork (hpo_last_hardfork (hpo d) + 1) d) (process_hardforks_loop n)
       else Inl unknown_hardfork_exception
     else Inr d)"

definition process_hardforks :: "database \<Rightarrow> database result" where
  "process_hardforks d = process_hardforks_loop (Suc WLS_NUM_HARDFORKS) d"

definition has_hardfork :: "u32 \<Rightarrow> database \<Rightarrow> bool" where
  "has_hardfork hardfork d \<longleftrightarrow> length (hpo_processed_hardforks (hpo d)) > unat hardfork"

end
