(* ===== verification/Chain_Invariants.thy ===== *)
theory Chain_Invariants
  imports Apply
begin

text \<open>
  The invariants of the chain state: \<open>chain_ok\<close> (well-formed tables, unique account names, no cycle
  of proxies) and \<open>balanced\<close>, the supply equations that \<open>validate_invariants\<close> tests.  Every
  operation that passes validation, every transaction and every step of the processing of a block
  keeps them.
\<close>

definition chain_ok :: "database \<Rightarrow> bool" where
  "chain_ok d \<longleftrightarrow> wf_db d \<and> proxy_ok d"

definition keeps :: "database \<Rightarrow> database \<Rightarrow> bool" where
  "keeps d d' \<longleftrightarrow> (chain_ok d \<longrightarrow> chain_ok d' \<and> (balanced (ledger d) \<longrightarrow> balanced (ledger d')))"

lemma keeps_refl [simp]: "keeps d d"
  by (simp add: keeps_def)

lemma keeps_trans: "keeps d e \<Longrightarrow> keeps e f \<Longrightarrow> keeps d f"
  by (auto simp: keeps_def)

lemma keepsI:
  assumes "\<And>d'. m = Inr d' \<Longrightarrow> wf_db d \<Longrightarrow> wf_db d' \<and> (balanced (ledger d) \<longrightarrow> balanced (ledger d'))"
    and "yields m (same_proxies d)"
  shows "yields m (keeps d)"
  using assms same_proxies_ok wf_dbD(1) by (fastforce simp: yields_def keeps_def chain_ok_def)

lemma quiet_keeps: "quiet d e \<Longrightarrow> keeps d e"
  using same_proxies_ok wf_dbD(1) by (auto simp: quiet_def same_money_def keeps_def chain_ok_def)

lemma quiet_yields_keeps: "yields m (quiet d) \<Longrightarrow> yields m (keeps d)"
  using quiet_keeps by (auto simp: yields_def)

section \<open>Proxies of the operations that move money\<close>

lemma adjust_balance_proxies [proxy_wp]:
  "same_proxies d e \<Longrightarrow> yields (adjust_balance F i x e) (same_proxies d)"
  "same_proxies d e \<Longrightarrow> yields (adjust_reward_balance F i x e) (same_proxies d)"
  unfolding adjust_balance_def adjust_reward_balance_def
  by (intro proxy_wp wp; auto simp: same_proxy_def)+

lemma withdraw_vesting_proxies: "yields (withdraw_vesting_do_apply F op d) (same_proxies d)"
  unfolding withdraw_vesting_do_apply_def by (intro proxy_wp wp) (auto simp: same_proxy_def)

lemma transfer_proxies: "yields (transfer_do_apply F op d) (same_proxies d)"
  unfolding transfer_do_apply_def by (intro proxy_wp wp) simp_all

lemma account_update_proxies: "yields (account_update_do_apply op d) (same_proxies d)"
  unfolding account_update_do_apply_def by (intro proxy_wp wp) (auto simp: same_proxy_def same_proxies_def)

lemma set_withdraw_vesting_route_proxies: "yields (set_withdraw_vesting_route_do_apply op d) (same_proxies d)"
  unfolding set_withdraw_vesting_route_do_apply_def by (intro proxy_wp wp) (auto simp: same_proxy_def same_proxies_def rows_rel_refl)

lemma account_witness_vote_proxies: "yields (account_witness_vote_do_apply F op d) (same_proxies d)"
  unfolding account_witness_vote_do_apply_def by (intro proxy_wp wp) (auto simp: same_proxy_def same_proxies_def rows_rel_refl)

lemma witness_update_proxies: "yields (witness_update_do_apply p op d) (same_proxies d)"
  unfolding witness_update_do_apply_def by (intro proxy_wp wp) (auto simp: same_proxies_def rows_rel_refl)

context fc_env
begin

lemma adjust_proxied_proxies [proxy_wp]:
  "same_proxies d e \<Longrightarrow> yields (adjust_proxied_witness_votes F i x e) (same_proxies d)"
  unfolding adjust_proxied_witness_votes_def by (rule vote_proxies)

lemma create_vesting_proxies:
  assumes "same_proxies d e"
  shows "yields (create_vesting F i x b e) (\<lambda>(v, e'). same_proxies d e')"
  unfolding create_vesting_def
proof (rule yields_ebind, rule yields_ebind)
  fix p v assume "asset_mult_price F x p = Inr v"
  show "yields (ebind (modify_account i (\<lambda>to.
         if b then
           ebind (asset_add F (acc_reward_vesting_balance to) v) (\<lambda>b.
           ebind (asset_add F (acc_reward_vesting_steem to) x) (\<lambda>s.
           Inr (to\<lparr>acc_reward_vesting_balance := b, acc_reward_vesting_steem := s\<rparr>)))
         else
           ebind (asset_add F (acc_vesting_shares to) v) (\<lambda>v.
           Inr (to\<lparr>acc_vesting_shares := v\<rparr>))) e) (\<lambda>d.
     ebind (modify_gpo (\<lambda>props.
         if b then
           ebind (asset_add F (gpo_pending_rewarded_vesting_shares props) v) (\<lambda>b.
           ebind (asset_add F (gpo_pending_rewarded_vesting_steem props) x) (\<lambda>s.
           Inr (props\<lparr>gpo_pending_rewarded_vesting_shares := b, gpo_pending_rewarded_vesting_steem := s\<rparr>)))
         else
           ebind (asset_add F (gpo_total_vesting_fund_steem props) x) (\<lambda>f.
           ebind (asset_add F (gpo_total_vesting_shares props) v) (\<lambda>v.
           Inr (props\<lparr>gpo_total_vesting_fund_steem := f, gpo_total_vesting_shares := v\<rparr>)))) d) (\<lambda>d.
     ebind (if \<not> b then adjust_proxied_witness_votes F i (amount v) d else Inr d) (\<lambda>d. Inr (v, d)))))
     (\<lambda>(v, e'). same_proxies d e')"
  proof (rule yields_seq)
    show "yields (modify_account i (\<lambda>to.
         if b then
           ebind (asset_add F (acc_reward_vesting_balance to) v) (\<lambda>b.
           ebind (asset_add F (acc_reward_vesting_steem to) x) (\<lambda>s.
           Inr (to\<lparr>acc_reward_vesting_balance := b, acc_reward_vesting_steem := s\<rparr>)))
         else
           ebind (asset_add F (acc_vesting_shares to) v) (\<lambda>v.
           Inr (to\<lparr>acc_vesting_shares := v\<rparr>))) e) (same_proxies d)"
      using assms by (intro proxy_wp wp) (auto simp: same_proxy_def)
  next
    fix e1 assume "same_proxies d e1"
    then show "yields (ebind (modify_gpo g e1) (\<lambda>d.
        ebind (if \<not> b then adjust_proxied_witness_votes F i (amount v) d else Inr d) (\<lambda>d. Inr (v, d)))) (\<lambda>(v, e'). same_proxies d e')" for g
      by (intro yields_seq [OF proxies_operations(6)] yields_seq [where P = "same_proxies d"] proxy_wp wp) simp_all
  qed
qed

lemma transfer_to_vesting_proxies: "yields (transfer_to_vesting_do_apply F op d) (same_proxies d)"
  unfolding transfer_to_vesting_do_apply_def
proof (intro wp)
  fix neg d1 v d2 i j and r :: "asset \<times> database"
  assume a: "adjust_balance F i neg d = Inr d1" and c: "create_vesting F j (tvo_amount op) False d1 = Inr r" "r = (v, d2)"
  have "same_proxies d d1" using yieldsD [OF adjust_balance_proxies(1) [OF same_proxies_refl] a] .
  from yieldsD [OF create_vesting_proxies [OF this] c(1)] show "same_proxies d d2" by (simp add: c(2))
qed

lemma claim_reward_balance_proxies: "yields (claim_reward_balance_do_apply F op d) (same_proxies d)"
  unfolding claim_reward_balance_do_apply_def by (intro proxy_wp wp) (auto simp: same_proxy_def)

lemma new_account_proxy_ok:
  assumes "tbl_create key_account v (accounts d) = Inr (i, t)" "acc_proxy v = []" "proxy_ok d"
  shows "proxy_ok (d\<lparr>accounts := t, authorities := au\<rparr>)"
proof -
  have t: "rows t = insort_key fst (next_row_id (accounts d), v) (rows (accounts d))"
    and u: "\<forall>p\<in>set (rows (accounts d)). acc_name (snd p) \<noteq> acc_name v"
    using assms(1) by (auto simp: tbl_create_def key_account_def split: if_splits)
  have "proxies (d\<lparr>accounts := t, authorities := au\<rparr>) = proxies d"
    using assms(2) by (auto simp: proxies_def t set_insort_key image_iff)
  moreover have "mset (map (\<lambda>p. acc_name (snd p)) (rows t)) = add_mset (acc_name v) (mset (map (\<lambda>p. acc_name (snd p)) (rows (accounts d))))"
    by (simp add: t)
  then have "distinct (map (\<lambda>p. acc_name (snd p)) (rows t)) = distinct (acc_name v # map (\<lambda>p. acc_name (snd p)) (rows (accounts d)))"
    by (intro mset_eq_imp_distinct_iff) simp
  ultimately show ?thesis using assms(3) u by (auto simp: proxy_ok_def unique_names_def)
qed

lemma account_create_proxy_ok:
  assumes "wf_db d" "proxy_ok d"
  shows "yields (account_create_do_apply F op d) proxy_ok"
proof -
  have main: "proxy_ok e"
    if m: "modify_account creator (\<lambda>c. ebind (asset_sub F (acc_balance c) (acr_fee op)) (\<lambda>b. Inr (c\<lparr>acc_balance := b\<rparr>))) d = Inr d1"
      and t: "tbl_create key_account (default_account\<lparr>acc_name := acr_new_account_name op,
         acc_memo_key := acr_memo_key op, acc_created := gpo_time (gpo d1), acc_last_vote_time := gpo_time (gpo d1),
         acc_recovery_account := acr_creator op, acc_json_metadata := acr_json_metadata op\<rparr>) (accounts d1) = Inr (i, t)"
      and e: "amount (acr_fee op) > 0 \<and> create_vesting F i (acr_fee op) False (d1\<lparr>accounts := t, authorities := au\<rparr>) = Inr (v, e)
        \<or> \<not> amount (acr_fee op) > 0 \<and> e = d1\<lparr>accounts := t, authorities := au\<rparr>"
    for creator d1 i t au e v
  proof -
    have s: "same_proxies d d1" using m by (rule modify_account_proxies) (auto simp: same_proxy_def)
    then have t1: "table_ok (accounts d1)" using wf_dbD(1) [OF assms(1)] by (simp add: same_proxies_def)
    have "proxy_ok d1" using same_proxies_ok [OF s wf_dbD(1) [OF assms(1)] assms(2)] .
    then have ok: "proxy_ok (d1\<lparr>accounts := t, authorities := au\<rparr>)" by (intro new_account_proxy_ok [OF t]) (simp_all add: default_account_def)
    have t2: "table_ok (accounts (d1\<lparr>accounts := t, authorities := au\<rparr>))" using tbl_create_ok [OF t t1] by simp
    from e show ?thesis
    proof
      assume "amount (acr_fee op) > 0 \<and> create_vesting F i (acr_fee op) False (d1\<lparr>accounts := t, authorities := au\<rparr>) = Inr (v, e)"
      then have "create_vesting F i (acr_fee op) False (d1\<lparr>accounts := t, authorities := au\<rparr>) = Inr (v, e)" by simp
      from yieldsD [OF create_vesting_proxies [OF same_proxies_refl] this] show ?thesis using same_proxies_ok t2 ok by blast
    qed (use ok in simp)
  qed
  show ?thesis
    unfolding account_create_do_apply_def by (intro wp; rule main; (assumption | simp add: tbl_create_id_def))
qed

end


section \<open>Operations\<close>

definition env_ok :: "chain_env \<Rightarrow> bool" where
  "env_ok E \<longleftrightarrow> fc_ok (env_fc E)
     \<and> (\<forall>i f op d. env_json E i = Some f \<longrightarrow> yields (f op d) (\<lambda>e. \<exists>v. e = d\<lparr>db_vops := v\<rparr>))
     \<and> (\<forall>i f op d. env_binary E i = Some f \<longrightarrow> yields (f op d) (\<lambda>e. \<exists>v. e = d\<lparr>db_vops := v\<rparr>))"

lemma run_interpreter_yields:
  assumes "\<And>f. eval = Some f \<Longrightarrow> yields (f op d) (\<lambda>e. \<exists>v. e = d\<lparr>db_vops := v\<rparr>)"
    and "\<And>v. P (d\<lparr>db_vops := v\<rparr>)" "P d"
  shows "yields (run_interpreter producing eval op d) P"
  using assms by (fastforce simp: run_interpreter_def yields_def split: option.splits sum.splits if_splits)

lemma quiet_vops: "quiet d (d\<lparr>db_vops := v\<rparr>)"
  by (simp add: quiet_def same_money_def same_proxies_def rows_rel_refl wf_db_def ledger_def)

lemma custom_yields:
  assumes "env_ok E" "\<And>v. P (d\<lparr>db_vops := v\<rparr>)" "P d"
  shows "yields (custom_json_do_apply (env_json E) producing op d) P"
    and "yields (custom_binary_do_apply (env_binary E) producing op' d) P"
  using assms unfolding custom_json_do_apply_def custom_binary_do_apply_def env_ok_def
  by (blast intro: run_interpreter_yields)+

lemma account_create_fee: "operation_validate F (AccountCreate op) = Inr () \<Longrightarrow> 0 \<le> amount (acr_fee op)"
  by (auto simp: account_create_validate_def validate_account_name_def check_json_metadata_def asset_ge_Inr split: if_splits)

lemma witness_proxy_other: "operation_validate F (AccountWitnessProxy op) = Inr () \<Longrightarrow> awp_proxy op \<noteq> awp_account op"
  by (auto simp: account_witness_proxy_validate_def validate_account_name_def Let_def split: if_splits)

lemma keeps_money:
  assumes "wf_db d \<Longrightarrow> yields m (\<lambda>d'. wf_db d' \<and> (balanced (ledger d) \<longrightarrow> balanced (ledger d')))" "yields m (same_proxies d)"
  shows "yields m (keeps d)"
  by (rule keepsI [OF _ assms(2)]) (use assms(1) in \<open>auto simp: yields_def\<close>)

lemma keeps_same: "yields m (same_money d) \<Longrightarrow> yields m (same_proxies d) \<Longrightarrow> yields m (keeps d)"
  by (intro quiet_yields_keeps quietI)

context fc_env
begin

lemma account_create_keeps:
  assumes "0 \<le> amount (acr_fee op)"
  shows "yields (account_create_do_apply F op d) (keeps d)"
proof (rule yieldsI)
  fix d' assume c: "account_create_do_apply F op d = Inr d'"
  show "keeps d d'" using yieldsD [OF account_create_ledger [OF _ assms] c] yieldsD [OF account_create_proxy_ok c]
    by (simp add: keeps_def chain_ok_def)
qed

lemma account_witness_proxy_keeps:
  assumes "awp_proxy op \<noteq> awp_account op"
  shows "yields (account_witness_proxy_do_apply F op d) (keeps d)"
proof (rule yieldsI)
  fix d' assume c: "account_witness_proxy_do_apply F op d = Inr d'"
  show "keeps d d'" using yieldsD [OF account_witness_proxy_result [OF _ _ assms] c] by (simp add: keeps_def chain_ok_def)
qed

lemma transfer_keeps: "yields (transfer_do_apply F op d) (keeps d)"
  by (rule keeps_money [OF yields_mono [OF transfer_ledger] transfer_proxies]) auto

lemmas operation_keeps =
  transfer_keeps account_create_keeps account_witness_proxy_keeps
  keeps_money [OF transfer_to_vesting_ledger transfer_to_vesting_proxies]
  keeps_money [OF claim_reward_balance_ledger claim_reward_balance_proxies]
  keeps_same [OF withdraw_vesting_same withdraw_vesting_proxies]
  keeps_same [OF set_withdraw_vesting_route_same set_withdraw_vesting_route_proxies]
  keeps_same [OF account_update_same account_update_proxies]
  keeps_same [OF witness_update_same witness_update_proxies]
  keeps_same [OF account_witness_vote_same account_witness_vote_proxies]
  quiet_yields_keeps [OF vote_quiet] quiet_yields_keeps [OF comment_quiet]
  quiet_yields_keeps [OF comment_options_quiet] quiet_yields_keeps [OF delete_comment_quiet]

lemma apply_operation_keeps:
  assumes "env_fc E = F" "env_ok E" "operation_validate F op = Inr ()"
  shows "yields (apply_operation E producing op d) (keeps d)"
proof (cases op)
  case (AccountCreate x)
  then show ?thesis using operation_keeps(2) [OF account_create_fee] assms by simp
next
  case (AccountWitnessProxy x)
  then show ?thesis using operation_keeps(3) [OF witness_proxy_other] assms by simp
next
  case (CustomJson x)
  then show ?thesis by (auto intro!: quiet_yields_keeps custom_yields assms(2) quiet_vops)
next
  case (CustomBinary x)
  then show ?thesis by (auto intro!: quiet_yields_keeps custom_yields assms(2) quiet_vops)
qed (simp_all add: operation_keeps assms(1) account_forsale_do_apply_def account_buying_do_apply_def custom_do_apply_def yields_rules)

end

end
