(* ===== verification/Genesis.thy ===== *)
theory Genesis
  imports Chain_Invariants
begin

text \<open>
  The first state of a chain, \<open>database::init_genesis\<close>, and the functions that recompute redundant
  data from scratch: the votes of the witnesses, the number of votes of an account and the number
  of replies to a comment.  The genesis state exists and satisfies the invariants of the chain, and
  the recomputed votes are the sums that they stand for.
\<close>

section \<open>Recomputing redundant data\<close>

definition clear_witness_vote :: "witness_object \<Rightarrow> witness_object" where
  "clear_witness_vote w = w\<lparr>wit_votes := 0, wit_virtual_position := 0\<rparr>"

definition apply_account_votes :: "fc_lib \<Rightarrow> int \<times> account_object \<Rightarrow> database \<Rightarrow> database result" where
  "apply_account_votes F itr d =
     (if acc_proxy (snd itr) \<noteq> WLS_PROXY_TO_SELF_ACCOUNT then Inr d
      else efold (\<lambda>p d.
          ebind (tbl_get (wvo_witness (snd p)) (witnesses d)) (\<lambda>_.
          ebind (witness_vote_weight F (snd itr)) (\<lambda>w.
          adjust_witness_vote F (wvo_witness (snd p)) w d))) (votes_of_account (fst itr) d) d)"

definition retally_witness_votes :: "fc_lib \<Rightarrow> database \<Rightarrow> database result" where
  "retally_witness_votes F d =
     ebind (efold (\<lambda>p. modify_witness (fst p) (\<lambda>w. Inr (clear_witness_vote w))) (rows (witnesses d)) d) (\<lambda>d.
     efold (apply_account_votes F) (rows (accounts d)) d)"

definition count_account_votes :: "bool \<Rightarrow> int \<times> account_object \<Rightarrow> database \<Rightarrow> database result" where
  "count_account_votes force itr d =
     (let witnesses_voted_for = (if force \<or> acc_proxy (snd itr) \<noteq> WLS_PROXY_TO_SELF_ACCOUNT
                                 then of_nat (length (votes_of_account (fst itr) d)) else 0)
      in if acc_witnesses_voted_for (snd itr) \<noteq> witnesses_voted_for
         then modify_account (fst itr) (\<lambda>a. Inr (a\<lparr>acc_witnesses_voted_for := witnesses_voted_for\<rparr>)) d
         else Inr d)"

definition retally_witness_vote_counts :: "bool \<Rightarrow> database \<Rightarrow> database result" where
  "retally_witness_vote_counts force d = efold (count_account_votes force) (rows (accounts d)) d"

text \<open>
  The children of a comment that is not a root post are counted at all its ancestors, by the loop
  that the comment evaluator uses too; an ancestor has a smaller depth, which bounds the loop.
\<close>

definition count_child :: "int \<times> comment_object \<Rightarrow> database \<Rightarrow> database result" where
  "count_child itr d =
     (if com_parent_author (snd itr) \<noteq> WLS_ROOT_POST_PARENT then
        ebind (get_comment (com_parent_author (snd itr)) (com_parent_permlink (snd itr)) d) (\<lambda>(i, parent).
        touch_parents (Suc (unat (com_depth parent))) (\<lambda>c. c\<lparr>com_children := com_children c + 1\<rparr>) i d)
      else Inr d)"

definition retally_comment_children :: "database \<Rightarrow> database result" where
  "retally_comment_children d =
     ebind (efold (\<lambda>p. modify_comment (fst p) (\<lambda>c. Inr (c\<lparr>com_children := 0\<rparr>))) (rows (comments d)) d) (\<lambda>d.
     efold count_child (rows (comments d)) d)"

section \<open>The genesis state\<close>

definition create_account :: "account_object \<Rightarrow> database \<Rightarrow> database result" where
  "create_account a d = ebind (tbl_create key_account a (accounts d)) (\<lambda>(_, t). Inr (d\<lparr>accounts := t\<rparr>))"

definition create_authority :: "account_authority_object \<Rightarrow> database \<Rightarrow> database" where
  "create_authority a d = d\<lparr>authorities := snd (tbl_create_id a (authorities d))\<rparr>"

definition create_witness :: "witness_object \<Rightarrow> database \<Rightarrow> database result" where
  "create_witness w d = ebind (tbl_create key_witness w (witnesses d)) (\<lambda>(_, t). Inr (d\<lparr>witnesses := t\<rparr>))"

definition keyless_authority :: "account_name_type \<Rightarrow> u32 \<Rightarrow> account_authority_object" where
  "keyless_authority name threshold = \<lparr>aut_account = name, aut_owner = default_authority\<lparr>weight_threshold := threshold\<rparr>,
     aut_active = default_authority\<lparr>weight_threshold := threshold\<rparr>, aut_posting = default_authority\<lparr>weight_threshold := 1\<rparr>,
     aut_last_owner_update = 0\<rparr>"

definition init_authority :: "account_name_type \<Rightarrow> public_key_type \<Rightarrow> account_authority_object" where
  "init_authority name init_public_key =
     (let owner = (add_authority_key init_public_key 1 default_authority)\<lparr>weight_threshold := 1\<rparr>
      in \<lparr>aut_account = name, aut_owner = owner, aut_active = owner, aut_posting = owner, aut_last_owner_update = 0\<rparr>)"

definition init_miner_name :: "nat \<Rightarrow> account_name_type" where
  "init_miner_name i = WLS_INIT_MINER_NAME @ (if i \<noteq> 0 then dec i else [])"

definition create_init_miner :: "public_key_type \<Rightarrow> nat \<Rightarrow> database \<Rightarrow> database result" where
  "create_init_miner init_public_key i d =
     ebind (create_account (default_account\<lparr>acc_name := init_miner_name i, acc_memo_key := init_public_key,
         acc_balance := WLS (if i \<noteq> 0 then 0 else 1000)\<rparr>) d) (\<lambda>d.
     let d = create_authority (init_authority (init_miner_name i) init_public_key) d
     in create_witness (default_witness\<lparr>wit_owner := init_miner_name i, wit_signing_key := init_public_key, wit_schedule := miner\<rparr>) d)"

text \<open>\<open>asset\<close> takes the unsigned supply as a signed 64-bit amount.\<close>

definition create_system_accounts :: "public_key_type \<Rightarrow> u64 \<Rightarrow> database \<Rightarrow> database result" where
  "create_system_accounts init_public_key init_supply d =
     ebind (create_account (default_account\<lparr>acc_name := WLS_MINER_ACCOUNT\<rparr>) d) (\<lambda>d.
     let d = create_authority (keyless_authority WLS_MINER_ACCOUNT 1) d in
     ebind (create_account (default_account\<lparr>acc_name := WLS_NULL_ACCOUNT\<rparr>) d) (\<lambda>d.
     let d = create_authority (keyless_authority WLS_NULL_ACCOUNT 1) d in
     ebind (create_account (default_account\<lparr>acc_name := WLS_TEMP_ACCOUNT\<rparr>) d) (\<lambda>d.
     let d = create_authority (keyless_authority WLS_TEMP_ACCOUNT 0) d in
     ebind (create_account (default_account\<lparr>acc_name := WLS_WHALESHARE_ACC_NAME, acc_memo_key := init_public_key,
         acc_balance := WLS (sint (init_supply - 1000))\<rparr>) d) (\<lambda>d.
     let d = create_authority (init_authority WLS_WHALESHARE_ACC_NAME init_public_key) d in
     ebind (create_account (default_account\<lparr>acc_name := WLS_DEV_FUND_ACC_NAME, acc_memo_key := init_public_key,
         acc_balance := WLS 0\<rparr>) d) (\<lambda>d.
     Inr (create_authority (init_authority WLS_DEV_FUND_ACC_NAME init_public_key) d))))))"

definition genesis_properties :: "u64 \<Rightarrow> database \<Rightarrow> database" where
  "genesis_properties init_supply d = d\<lparr>gpo := default_gpo\<lparr>gpo_current_witness := WLS_INIT_MINER_NAME, gpo_time := WLS_GENESIS_TIME,
     gpo_recent_slots_filled := - 1, gpo_participation_count := 128, gpo_current_supply := WLS (sint init_supply),
     gpo_maximum_block_size := WLS_MAX_BLOCK_SIZE\<rparr>\<rparr>"

definition create_block_summaries :: "nat \<Rightarrow> database \<Rightarrow> database" where
  "create_block_summaries n d =
     fold (\<lambda>_ d. d\<lparr>block_summaries := snd (tbl_create_id \<lparr>bso_block_id = null_id\<rparr> (block_summaries d))\<rparr>) [0..<n] d"

definition genesis_schedule :: "database \<Rightarrow> database" where
  "genesis_schedule d = d\<lparr>hpo := default_hardfork_property\<lparr>hpo_processed_hardforks := [WLS_GENESIS_TIME]\<rparr>,
     wso := default_witness_schedule\<lparr>
       wso_current_shuffled_witnesses := (wso_current_shuffled_witnesses default_witness_schedule)[0 := WLS_INIT_MINER_NAME],
       wso_max_voted_witnesses := WLS_MAX_VOTED_WITNESSES, wso_max_runner_witnesses := WLS_MAX_RUNNER_WITNESSES\<rparr>\<rparr>"

definition post_fund :: "database \<Rightarrow> reward_fund_object" where
  "post_fund d = \<lparr>rfo_name = ''post'', rfo_reward_balance = WLS 0, rfo_recent_claims = 140797515942543623,
     rfo_last_update = head_block_time d, rfo_content_constant = WLS_CONTENT_CONSTANT,
     rfo_percent_curation_rewards = WLS_CONTENT_CURATE_REWARD_PERCENT, rfo_percent_content_rewards = WLS_100_PERCENT,
     rfo_author_reward_curve = linear, rfo_curation_reward_curve = square_root\<rparr>"

definition create_post_fund :: "database \<Rightarrow> database result" where
  "create_post_fund d =
     ebind (tbl_create key_reward_fund (post_fund d) (reward_funds d)) (\<lambda>(i, t).
     require (i = 0) (Inr (d\<lparr>reward_funds := t\<rparr>)))"

definition init_genesis :: "fc_lib \<Rightarrow> public_key_type \<Rightarrow> u64 \<Rightarrow> database \<Rightarrow> database result" where
  "init_genesis F init_public_key init_supply d =
     ebind (create_system_accounts init_public_key init_supply d) (\<lambda>d.
     ebind (efold (create_init_miner init_public_key) [0..<WLS_MAX_WITNESSES] d) (\<lambda>d.
     let d = genesis_properties init_supply d;
         d = create_block_summaries 0x10000 d;
         d = genesis_schedule d in
     ebind (retally_witness_votes F d) (\<lambda>d.
     ebind (reset_virtual_schedule_time d) (\<lambda>d.
     ebind (retally_witness_vote_counts False d) (\<lambda>d.
     ebind (retally_comment_children d) (\<lambda>d.
     ebind (retally_witness_vote_counts True d) (\<lambda>d.
     create_post_fund d)))))))"

section \<open>Tables that are filled in order\<close>

definition tbl_of :: "'a list \<Rightarrow> 'a table" where
  "tbl_of xs = \<lparr>rows = zip (map int [0..<length xs]) xs, next_row_id = int (length xs)\<rparr>"

lemma tbl_of_Nil: "empty_table = tbl_of []"
  by (simp add: tbl_of_def empty_table_def)

lemma insort_last: "\<forall>x\<in>set xs. f x \<le> f y \<Longrightarrow> \<forall>x\<in>set xs. f x \<noteq> f y \<Longrightarrow> insort_key f y xs = xs @ [y]" for f :: "'a \<Rightarrow> 'k::linorder"
  by (induction xs) auto

lemma zip_ids: "p \<in> set (zip (map int [0..<length xs]) xs) \<Longrightarrow> fst p < int (length xs) \<and> snd p \<in> set xs"
  by (cases p) (auto simp: in_set_zip)

lemma insort_tbl_of: "insort_key fst (int (length xs), v) (rows (tbl_of xs)) = rows (tbl_of (xs @ [v]))"
proof -
  have "insort_key fst (int (length xs), v) (zip (map int [0..<length xs]) xs) = zip (map int [0..<length xs]) xs @ [(int (length xs), v)]"
    by (rule insort_last) (auto dest: zip_ids)
  then show ?thesis by (simp add: tbl_of_def)
qed

lemma tbl_create_of:
  assumes "key v \<notin> key ` set xs"
  shows "tbl_create key v (tbl_of xs) = Inr (int (length xs), tbl_of (xs @ [v]))"
proof -
  have "\<not> (\<exists>p\<in>set (rows (tbl_of xs)). fst p = next_row_id (tbl_of xs) \<or> key (snd p) = key v)"
  proof
    assume "\<exists>p\<in>set (rows (tbl_of xs)). fst p = next_row_id (tbl_of xs) \<or> key (snd p) = key v"
    then obtain p where "p \<in> set (zip (map int [0..<length xs]) xs)" "fst p = int (length xs) \<or> key (snd p) = key v"
      by (auto simp: tbl_of_def)
    then show False using zip_ids [of p xs] assms by (metis imageI less_irrefl)
  qed
  then show ?thesis using insort_tbl_of [of xs v] by (simp add: tbl_create_def) (simp add: tbl_of_def)
qed

lemma tbl_create_id_of: "tbl_create_id v (tbl_of xs) = (int (length xs), tbl_of (xs @ [v]))"
  using insort_tbl_of [of xs v] by (simp add: tbl_create_id_def) (simp add: tbl_of_def)

lemma tbl_of_simps [simp]:
  "map snd (rows (tbl_of xs)) = xs" "tbl_all P (tbl_of xs) \<longleftrightarrow> (\<forall>x\<in>set xs. P x)" "tbl_sum h (tbl_of xs) = sum_list (map h xs)" "table_ok (tbl_of xs)"
proof -
  show m: "map snd (rows (tbl_of xs)) = xs" by (simp add: tbl_of_def)
  have "tbl_all P t \<longleftrightarrow> (\<forall>x\<in>set (map snd (rows t)). P x)" for t :: "'a table" by (simp add: tbl_all_def)
  from this [of "tbl_of xs"] show "tbl_all P (tbl_of xs) \<longleftrightarrow> (\<forall>x\<in>set xs. P x)" unfolding m .
  have "tbl_sum h t = sum_list (map h (map snd (rows t)))" for t :: "'a table" by (simp add: tbl_sum_def comp_def)
  from this [of "tbl_of xs"] show "tbl_sum h (tbl_of xs) = sum_list (map h xs)" unfolding m .
  show "table_ok (tbl_of xs)" using zip_ids [of _ xs] by (auto simp: table_ok_def tbl_of_def distinct_map)
qed

text \<open>A loop that modifies every row.\<close>

lemma efold_modify_rest:
  assumes "rows t = map (\<lambda>p. (fst p, g (snd p))) ys @ zs" "distinct (map fst (ys @ zs))" "distinct (map (\<lambda>p. key (snd p)) (ys @ zs))"
    and "\<forall>p\<in>set (ys @ zs). key (g (snd p)) = key (snd p)" "\<forall>p\<in>set zs. f (snd p) = Inr (g (snd p))"
  shows "efold (\<lambda>p. tbl_modify key (fst p) f) zs t = Inr (t\<lparr>rows := map (\<lambda>p. (fst p, g (snd p))) (ys @ zs)\<rparr>)"
  using assms
proof (induction zs arbitrary: ys t)
  case (Cons z zs)
  obtain i v where z: "z = (i, v)" by (cases z)
  let ?g = "\<lambda>p. (fst p, g (snd p))"
  have i: "i \<notin> fst ` set ys" "i \<notin> fst ` set zs" using Cons.prems(2) by (auto simp: z)
  have "map_of (map ?g ys) i = None" using i(1) by (auto simp: map_of_eq_None_iff image_iff)
  then have "map_of (rows t) i = Some v" by (simp add: Cons.prems(1) z map_add_def)
  moreover have kv: "\<forall>q\<in>set ys. key (snd q) \<noteq> key v" "\<forall>q\<in>set zs. key (snd q) \<noteq> key v"
    using Cons.prems(3) by (simp_all add: z image_iff) metis+
  have kg: "key (g v) = key v" "\<forall>q\<in>set ys. key (g (snd q)) = key (snd q)" using Cons.prems(4) by (auto simp: z)
  have k: "\<not> (\<exists>p\<in>set (rows t). fst p \<noteq> i \<and> key (snd p) = key (g v))"
  proof
    assume "\<exists>p\<in>set (rows t). fst p \<noteq> i \<and> key (snd p) = key (g v)"
    then obtain p where p: "p \<in> set (rows t)" "fst p \<noteq> i" "key (snd p) = key v" by (auto simp: kg(1))
    then consider q where "q \<in> set ys" "p = ?g q" | "p \<in> set zs" by (auto simp: Cons.prems(1) z)
    then show False
    proof cases
      case 1
      then show False using kv(1) kg(2) p(3) by auto
    qed (use kv(2) p(3) in auto)
  qed
  have "map_assign i (g v) (rows t) = map ?g (ys @ [z]) @ zs"
    using i by (auto simp: map_assign_def Cons.prems(1) z image_iff intro!: map_idI)
  then have "set_row key i (g v) (rows t) = Inr (map ?g (ys @ [z]) @ zs)" using k by (auto simp: set_row_def Cons.prems(1) z)
  ultimately have "tbl_modify key i f t = Inr (t\<lparr>rows := map ?g (ys @ [z]) @ zs\<rparr>)"
    using Cons.prems(5) by (simp add: tbl_modify_def z)
  moreover have "efold (\<lambda>p. tbl_modify key (fst p) f) zs (t\<lparr>rows := map ?g (ys @ [z]) @ zs\<rparr>)
      = Inr (t\<lparr>rows := map ?g (ys @ [z]) @ zs, rows := map ?g ((ys @ [z]) @ zs)\<rparr>)"
    by (rule Cons.IH) (use Cons.prems in simp_all)
  ultimately show ?case by (simp add: z)
qed simp

lemma efold_modify_all:
  assumes "distinct (map fst (rows t))" "distinct (map (\<lambda>p. key (snd p)) (rows t))"
    and "\<forall>p\<in>set (rows t). key (g (snd p)) = key (snd p)" "\<forall>p\<in>set (rows t). f (snd p) = Inr (g (snd p))"
  shows "efold (\<lambda>p. tbl_modify key (fst p) f) (rows t) t = Inr (t\<lparr>rows := map (\<lambda>p. (fst p, g (snd p))) (rows t)\<rparr>)"
  using efold_modify_rest [of t g "[]" "rows t" key f] assms by simp

lemma map_tbl_of: "(tbl_of xs)\<lparr>rows := map (\<lambda>p. (fst p, g (snd p))) (rows (tbl_of xs))\<rparr> = tbl_of (map g xs)"
  by (simp add: tbl_of_def zip_map2 split_def)

lemma efold_modify_of:
  assumes "distinct (map key xs)" "\<forall>x\<in>set xs. key (g x) = key x \<and> f x = Inr (g x)"
  shows "efold (\<lambda>p. tbl_modify key (fst p) f) (rows (tbl_of xs)) (tbl_of xs) = Inr (tbl_of (map g xs))"
proof -
  have "distinct (map fst (rows (tbl_of xs)))" "distinct (map (\<lambda>p. key (snd p)) (rows (tbl_of xs)))"
    using assms(1) by (simp_all add: tbl_of_def distinct_map flip: map_map [of key snd, unfolded comp_def])
  moreover have "\<forall>p\<in>set (rows (tbl_of xs)). key (g (snd p)) = key (snd p) \<and> f (snd p) = Inr (g (snd p))"
    using assms(2) zip_ids [of _ xs] by (auto simp: tbl_of_def)
  ultimately show ?thesis using efold_modify_all [of "tbl_of xs" key g f] map_tbl_of [where xs = xs and g = g] by simp
qed

lemma efold_lift:
  assumes "\<And>p t. step p (u t) = ebind (h p t) (\<lambda>t. Inr (u t))"
  shows "efold step ps (u t) = ebind (efold h ps t) (\<lambda>t. Inr (u t))"
proof (induction ps arbitrary: t)
  case (Cons p ps)
  show ?case by (cases "h p t") (simp_all add: assms Cons)
qed simp

section \<open>The genesis state exists and is sound\<close>

lemma dec_inject: "dec m = dec n \<Longrightarrow> m = n"
  using dec_digits by metis

lemma init_miner_name_inject: "init_miner_name i = init_miner_name j \<longleftrightarrow> i = j"
  using dec_digits [of i] dec_digits [of j] dec_inject [of i j] by (auto simp: init_miner_name_def simp del: dec.simps)

lemma create_account_of:
  "accounts d = tbl_of xs \<Longrightarrow> acc_name a \<notin> acc_name ` set xs \<Longrightarrow> create_account a d = Inr (d\<lparr>accounts := tbl_of (xs @ [a])\<rparr>)"
  using tbl_create_of [of key_account a xs] by (simp add: create_account_def key_account_def)

lemma create_witness_of:
  "witnesses d = tbl_of xs \<Longrightarrow> wit_owner w \<notin> wit_owner ` set xs \<Longrightarrow> create_witness w d = Inr (d\<lparr>witnesses := tbl_of (xs @ [w])\<rparr>)"
  using tbl_create_of [of key_witness w xs] by (simp add: create_witness_def key_witness_def)

lemma create_authority_of:
  "authorities d = tbl_of xs \<Longrightarrow> create_authority a d = d\<lparr>authorities := tbl_of (xs @ [a])\<rparr>"
  by (simp add: create_authority_def tbl_create_id_of)

definition system_accounts :: "public_key_type \<Rightarrow> u64 \<Rightarrow> account_object list" where
  "system_accounts key init_supply = [default_account\<lparr>acc_name := WLS_MINER_ACCOUNT\<rparr>, default_account\<lparr>acc_name := WLS_NULL_ACCOUNT\<rparr>,
     default_account\<lparr>acc_name := WLS_TEMP_ACCOUNT\<rparr>,
     default_account\<lparr>acc_name := WLS_WHALESHARE_ACC_NAME, acc_memo_key := key, acc_balance := WLS (sint (init_supply - 1000))\<rparr>,
     default_account\<lparr>acc_name := WLS_DEV_FUND_ACC_NAME, acc_memo_key := key, acc_balance := WLS 0\<rparr>]"

definition miner_account :: "public_key_type \<Rightarrow> nat \<Rightarrow> account_object" where
  "miner_account key i = default_account\<lparr>acc_name := init_miner_name i, acc_memo_key := key, acc_balance := WLS (if i \<noteq> 0 then 0 else 1000)\<rparr>"

definition miner_witness :: "public_key_type \<Rightarrow> nat \<Rightarrow> witness_object" where
  "miner_witness key i = default_witness\<lparr>wit_owner := init_miner_name i, wit_signing_key := key, wit_schedule := miner\<rparr>"

lemma create_system_accounts_of:
  assumes "accounts d = tbl_of []" "authorities d = tbl_of []"
  shows "\<exists>as. create_system_accounts key s d = Inr (d\<lparr>accounts := tbl_of (system_accounts key s), authorities := tbl_of as\<rparr>)"
  using assms by (simp add: create_system_accounts_def create_account_of create_authority_of system_accounts_def Let_def) (rule exI, rule refl)

lemma create_init_miner_of:
  assumes "accounts d = tbl_of xs" "authorities d = tbl_of ys" "witnesses d = tbl_of zs"
    and "init_miner_name i \<notin> acc_name ` set xs" "init_miner_name i \<notin> wit_owner ` set zs"
  shows "create_init_miner key i d = Inr (d\<lparr>accounts := tbl_of (xs @ [miner_account key i]),
    authorities := tbl_of (ys @ [init_authority (init_miner_name i) key]), witnesses := tbl_of (zs @ [miner_witness key i])\<rparr>)"
  using create_account_of [OF assms(1), of "miner_account key i"] assms
  by (simp add: create_init_miner_def miner_account_def miner_witness_def create_authority_of create_witness_of Let_def)

lemma create_init_miners_of:
  assumes "accounts d = tbl_of xs" "authorities d = tbl_of ys" "witnesses d = tbl_of zs"
    and "\<forall>i. init_miner_name i \<notin> acc_name ` set xs \<and> init_miner_name i \<notin> wit_owner ` set zs"
  shows "\<exists>as. efold (create_init_miner key) [0..<n] d = Inr (d\<lparr>accounts := tbl_of (xs @ map (miner_account key) [0..<n]),
    authorities := tbl_of as, witnesses := tbl_of (zs @ map (miner_witness key) [0..<n])\<rparr>)"
proof (induction n)
  case 0
  show ?case using assms(1-3) by (auto intro!: exI [of _ ys] database.equality)
next
  case (Suc n)
  then obtain as where IH: "efold (create_init_miner key) [0..<n] d = Inr (d\<lparr>accounts := tbl_of (xs @ map (miner_account key) [0..<n]),
    authorities := tbl_of as, witnesses := tbl_of (zs @ map (miner_witness key) [0..<n])\<rparr>)" by blast
  have "init_miner_name n \<notin> acc_name ` set (xs @ map (miner_account key) [0..<n])"
    "init_miner_name n \<notin> wit_owner ` set (zs @ map (miner_witness key) [0..<n])"
    using assms(4) by (auto simp: miner_account_def miner_witness_def init_miner_name_inject)
  note names = this
  have "create_init_miner key n (d\<lparr>accounts := tbl_of (xs @ map (miner_account key) [0..<n]),
      authorities := tbl_of as, witnesses := tbl_of (zs @ map (miner_witness key) [0..<n])\<rparr>)
    = Inr (d\<lparr>accounts := tbl_of (xs @ map (miner_account key) [0..<Suc n]),
      authorities := tbl_of (as @ [init_authority (init_miner_name n) key]), witnesses := tbl_of (zs @ map (miner_witness key) [0..<Suc n])\<rparr>)"
    using create_init_miner_of [OF _ _ _ names, of "d\<lparr>accounts := tbl_of (xs @ map (miner_account key) [0..<n]),
      authorities := tbl_of as, witnesses := tbl_of (zs @ map (miner_witness key) [0..<n])\<rparr>" as key] by simp
  then show ?case using IH by (auto simp: efold_append)
qed

lemma create_block_summaries_frame: "\<exists>t. create_block_summaries n d = d\<lparr>block_summaries := t\<rparr>"
proof -
  have "\<exists>t. fold (\<lambda>_ d. d\<lparr>block_summaries := snd (tbl_create_id b (block_summaries d))\<rparr>) ns d = d\<lparr>block_summaries := t\<rparr>" for b and ns :: "nat list" and d :: database
  proof (induction ns arbitrary: d)
    case Nil
    show ?case by (rule exI [of _ "block_summaries d"]) simp
  next
    case (Cons n ns)
    show ?case using Cons.IH [of "d\<lparr>block_summaries := snd (tbl_create_id b (block_summaries d))\<rparr>"] by auto
  qed
  then show ?thesis by (simp add: create_block_summaries_def)
qed

lemma miners_distinct: "distinct (map wit_owner (map (miner_witness key) [0..<n]))"
  by (simp add: distinct_map inj_on_def miner_witness_def init_miner_name_inject)

lemma modify_witnesses_of:
  assumes "witnesses d = tbl_of ws" "distinct (map wit_owner ws)" "\<forall>w\<in>set ws. wit_owner (g w) = wit_owner w \<and> f w = Inr (g w)"
  shows "efold (\<lambda>p. modify_witness (fst p) f) (rows (witnesses d)) d = Inr (d\<lparr>witnesses := tbl_of (map g ws)\<rparr>)"
proof -
  have "efold (\<lambda>p. modify_witness (fst p) f) ps (d\<lparr>witnesses := t\<rparr>)
      = ebind (efold (\<lambda>p. tbl_modify key_witness (fst p) f) ps t) (\<lambda>t. Inr (d\<lparr>witnesses := t\<rparr>))" for ps t
    by (rule efold_lift [where u = "\<lambda>t. d\<lparr>witnesses := t\<rparr>"]) (simp add: modify_witness_def)
  from this [of "rows (tbl_of ws)" "tbl_of ws"] have "efold (\<lambda>p. modify_witness (fst p) f) (rows (tbl_of ws)) (d\<lparr>witnesses := tbl_of ws\<rparr>)
      = Inr (d\<lparr>witnesses := tbl_of (map g ws)\<rparr>)"
    using efold_modify_of [of key_witness ws g f] assms by (simp add: key_witness_def)
  moreover have "d\<lparr>witnesses := tbl_of ws\<rparr> = d" by (rule database.equality) (simp_all add: assms(1))
  ultimately show ?thesis by (simp add: assms(1))
qed

lemma efold_same: "\<forall>x\<in>set xs. f x s = Inr s \<Longrightarrow> efold f xs s = Inr s"
  by (induction xs) simp_all

lemma no_votes: "rows (witness_votes d) = [] \<Longrightarrow> votes_of_account i d = []"
  by (simp add: votes_of_account_def)

definition genesis_witness :: "public_key_type \<Rightarrow> nat \<Rightarrow> witness_object" where
  "genesis_witness key i = (miner_witness key i)\<lparr>wit_virtual_scheduled_time := VIRTUAL_SCHEDULE_LAP_LENGTH2\<rparr>"

lemma reset_virtual_of:
  assumes "witnesses d = tbl_of (map (miner_witness key) [0..<n])"
  shows "reset_virtual_schedule_time d
    = Inr (d\<lparr>wso := (wso d)\<lparr>wso_current_virtual_time := 0\<rparr>, witnesses := tbl_of (map (genesis_witness key) [0..<n])\<rparr>)"
proof -
  let ?d = "d\<lparr>wso := (wso d)\<lparr>wso_current_virtual_time := 0\<rparr>\<rparr>"
  let ?f = "\<lambda>wobj. ebind (lap_time VIRTUAL_SCHEDULE_LAP_LENGTH2 wobj) (\<lambda>t.
      Inr (wobj\<lparr>wit_virtual_position := 0, wit_virtual_last_update := 0, wit_virtual_scheduled_time := t\<rparr>))"
  have step: "efold (\<lambda>p d. modify_witness (fst p) (\<lambda>wobj. ebind (lap_time VIRTUAL_SCHEDULE_LAP_LENGTH2 wobj) (\<lambda>t.
      Inr (wobj\<lparr>wit_virtual_position := 0, wit_virtual_last_update := wso_current_virtual_time (wso d), wit_virtual_scheduled_time := t\<rparr>))) d) ps (?d\<lparr>witnesses := t\<rparr>)
      = ebind (efold (\<lambda>p. tbl_modify key_witness (fst p) ?f) ps t) (\<lambda>t. Inr (?d\<lparr>witnesses := t\<rparr>))" for ps t
    by (rule efold_lift [where u = "\<lambda>t. ?d\<lparr>witnesses := t\<rparr>"]) (simp add: modify_witness_def)
  have "\<forall>w\<in>set (map (miner_witness key) [0..<n]). wit_owner (w\<lparr>wit_virtual_scheduled_time := VIRTUAL_SCHEDULE_LAP_LENGTH2\<rparr>) = wit_owner w
      \<and> ?f w = Inr (w\<lparr>wit_virtual_scheduled_time := VIRTUAL_SCHEDULE_LAP_LENGTH2\<rparr>)"
    by (auto simp: lap_time_def miner_witness_def default_witness_def to_u128_def)
  from efold_modify_of [of key_witness, OF _ this [folded key_witness_def]]
  have "efold (\<lambda>p. tbl_modify key_witness (fst p) ?f) (rows (tbl_of (map (miner_witness key) [0..<n]))) (tbl_of (map (miner_witness key) [0..<n]))
      = Inr (tbl_of (map (genesis_witness key) [0..<n]))"
    using miners_distinct [of key n] by (simp add: key_witness_def genesis_witness_def [abs_def] comp_def)
  note t = this
  have "?d\<lparr>witnesses := tbl_of (map (miner_witness key) [0..<n])\<rparr> = ?d" by (rule database.equality) (simp_all add: assms)
  note q = this
  have "rows (witnesses ?d) = rows (tbl_of (map (miner_witness key) [0..<n]))" by (simp add: assms)
  note w = this
  have "reset_virtual_schedule_time d = Inr (?d\<lparr>witnesses := tbl_of (map (genesis_witness key) [0..<n])\<rparr>)"
    using step [of "rows (tbl_of (map (miner_witness key) [0..<n]))" "tbl_of (map (miner_witness key) [0..<n])"]
    unfolding reset_virtual_schedule_time_def Let_def w q t ebind_simps .
  then show ?thesis .
qed

definition genesis_accounts :: "public_key_type \<Rightarrow> u64 \<Rightarrow> account_object list" where
  "genesis_accounts key s = system_accounts key s @ map (miner_account key) [0..<WLS_MAX_WITNESSES]"

lemma genesis_account_fresh:
  "\<forall>a\<in>set (genesis_accounts key s). acc_witnesses_voted_for a = 0 \<and> acc_proxy a = []"
  by (auto simp: genesis_accounts_def system_accounts_def miner_account_def default_account_def)

lemma genesis_created:
  "\<exists>as. ebind (create_system_accounts key s empty_database) (efold (create_init_miner key) [0..<WLS_MAX_WITNESSES])
    = Inr (empty_database\<lparr>accounts := tbl_of (genesis_accounts key s), authorities := tbl_of as,
        witnesses := tbl_of (map (miner_witness key) [0..<WLS_MAX_WITNESSES])\<rparr>)"
proof -
  obtain as where c: "create_system_accounts key s empty_database = Inr (empty_database\<lparr>accounts := tbl_of (system_accounts key s), authorities := tbl_of as\<rparr>)"
    using create_system_accounts_of [of empty_database key s] by (auto simp: empty_database_def tbl_of_Nil)
  have "\<forall>i. init_miner_name i \<notin> acc_name ` set (system_accounts key s)" by (auto simp: init_miner_name_def system_accounts_def)
  then show ?thesis using create_init_miners_of [of "empty_database\<lparr>accounts := tbl_of (system_accounts key s), authorities := tbl_of as\<rparr>"
      "system_accounts key s" as "[]" key WLS_MAX_WITNESSES] c
    by (auto simp: empty_database_def tbl_of_Nil genesis_accounts_def)
qed

text \<open>On a state without votes and comments the recomputations change nothing but the virtual schedule.\<close>

lemma retally_votes_of:
  assumes "witnesses d = tbl_of (map (miner_witness key) [0..<n])" "witness_votes d = empty_table"
  shows "retally_witness_votes F d = Inr d"
proof -
  have "\<forall>w\<in>set (map (miner_witness key) [0..<n]). clear_witness_vote w = w"
    by (auto simp: clear_witness_vote_def miner_witness_def default_witness_def)
  then have "efold (\<lambda>p. modify_witness (fst p) (\<lambda>w. Inr (clear_witness_vote w))) (rows (witnesses d)) d = Inr (d\<lparr>witnesses := tbl_of (map (miner_witness key) [0..<n])\<rparr>)"
    using modify_witnesses_of [OF assms(1) miners_distinct, of id] by simp
  moreover have "d\<lparr>witnesses := tbl_of (map (miner_witness key) [0..<n])\<rparr> = d" by (rule database.equality) (simp_all add: assms(1))
  moreover have "efold (apply_account_votes F) (rows (accounts d)) d = Inr d"
    by (rule efold_same) (simp add: apply_account_votes_def no_votes assms(2) empty_table_def)
  ultimately show ?thesis by (simp add: retally_witness_votes_def)
qed

lemma retally_counts_of:
  assumes "accounts d = tbl_of xs" "\<forall>a\<in>set xs. acc_witnesses_voted_for a = 0" "witness_votes d = empty_table" "comments d = empty_table"
  shows "retally_witness_vote_counts force d = Inr d" "retally_comment_children d = Inr d"
proof -
  have "acc_witnesses_voted_for (snd p) = 0" if "p \<in> set (rows (accounts d))" for p
    using that zip_ids [of p xs] assms(1,2) by (simp add: tbl_of_def)
  then show "retally_witness_vote_counts force d = Inr d" unfolding retally_witness_vote_counts_def
    by (intro efold_same) (simp add: count_account_votes_def no_votes assms(3) empty_table_def)
  show "retally_comment_children d = Inr d" using assms(4) by (simp add: retally_comment_children_def empty_table_def)
qed

lemma init_genesis_result:
  fixes n :: nat
  assumes "n = WLS_MAX_WITNESSES"
  shows "\<exists>as b r. init_genesis F key s empty_database = Inr (empty_database\<lparr>accounts := tbl_of (genesis_accounts key s), authorities := as,
     witnesses := tbl_of (map (genesis_witness key) [0..<n]), block_summaries := b,
     gpo := gpo (genesis_properties s empty_database), wso := wso (genesis_schedule empty_database), hpo := hpo (genesis_schedule empty_database),
     reward_funds := tbl_of [r]\<rparr>) \<and> rfo_reward_balance r = WLS 0"
proof -
  let ?ws = "map (miner_witness key) [0..<n]"
  obtain as where c: "ebind (create_system_accounts key s empty_database) (efold (create_init_miner key) [0..<n])
      = Inr (empty_database\<lparr>accounts := tbl_of (genesis_accounts key s), authorities := tbl_of as, witnesses := tbl_of ?ws\<rparr>)"
    using genesis_created [of key s] unfolding assms by (elim exE)
  define d where "d = empty_database\<lparr>accounts := tbl_of (genesis_accounts key s), authorities := tbl_of as, witnesses := tbl_of ?ws\<rparr>"
  obtain b where b: "create_block_summaries 0x10000 (genesis_properties s d) = (genesis_properties s d)\<lparr>block_summaries := b\<rparr>"
    using create_block_summaries_frame by blast
  define e where "e = genesis_schedule ((genesis_properties s d)\<lparr>block_summaries := b\<rparr>)"
  define f where "f = e\<lparr>witnesses := tbl_of (map (genesis_witness key) [0..<n])\<rparr>"
  have e: "accounts e = tbl_of (genesis_accounts key s)" "witnesses e = tbl_of ?ws" "witness_votes e = empty_table" "comments e = empty_table"
    "reward_funds e = tbl_of []" "wso_current_virtual_time (wso e) = 0"
    by (simp_all add: e_def d_def genesis_schedule_def genesis_properties_def empty_database_def tbl_of_Nil [symmetric] default_witness_schedule_def)
  have "(wso e)\<lparr>wso_current_virtual_time := 0\<rparr> = wso e" by (rule witness_schedule_object.equality) (simp_all add: e(6))
  then have "e\<lparr>wso := (wso e)\<lparr>wso_current_virtual_time := 0\<rparr>\<rparr> = e" by simp
  then have r: "retally_witness_votes F e = Inr e" "reset_virtual_schedule_time e = Inr f"
    using retally_votes_of [OF e(2,3)] reset_virtual_of [OF e(2)] unfolding f_def by (simp_all only:)
  have f: "retally_witness_vote_counts force f = Inr f" "retally_comment_children f = Inr f" for force
    by (rule retally_counts_of [of f "genesis_accounts key s"]; use genesis_account_fresh [of key s] e in \<open>simp add: f_def\<close>)+
  have p: "create_post_fund f = Inr (f\<lparr>reward_funds := tbl_of [post_fund f]\<rparr>)"
    using tbl_create_of [of key_reward_fund "post_fund f" "[]"] e(5) by (simp add: create_post_fund_def f_def)
  obtain d0 where d0: "create_system_accounts key s empty_database = Inr d0" "efold (create_init_miner key) [0..<n] d0 = Inr d"
    using c unfolding d_def [symmetric] ebind_eq_Inr by blast
  have "init_genesis F key s empty_database = Inr (f\<lparr>reward_funds := tbl_of [post_fund f]\<rparr>)"
    unfolding init_genesis_def Let_def assms [symmetric] d0 ebind_simps b e_def [symmetric] r f p ..
  moreover have "f\<lparr>reward_funds := tbl_of [post_fund f]\<rparr> = empty_database\<lparr>accounts := tbl_of (genesis_accounts key s), authorities := tbl_of as,
     witnesses := tbl_of (map (genesis_witness key) [0..<n]), block_summaries := b,
     gpo := gpo (genesis_properties s empty_database), wso := wso (genesis_schedule empty_database), hpo := hpo (genesis_schedule empty_database),
     reward_funds := tbl_of [post_fund f]\<rparr>"
    by (simp add: f_def e_def d_def genesis_schedule_def genesis_properties_def empty_database_def)
  ultimately have "init_genesis F key s empty_database = Inr (empty_database\<lparr>accounts := tbl_of (genesis_accounts key s), authorities := tbl_of as,
     witnesses := tbl_of (map (genesis_witness key) [0..<n]), block_summaries := b,
     gpo := gpo (genesis_properties s empty_database), wso := wso (genesis_schedule empty_database), hpo := hpo (genesis_schedule empty_database),
     reward_funds := tbl_of [post_fund f]\<rparr>)" by (rule trans [OF _ arg_cong [where f = Inr]])
  then show ?thesis by (intro exI conjI) (assumption, simp add: post_fund_def)
qed

text \<open>What the accounts of the genesis state own.\<close>

lemma miner_balances: "sum_list (map steem_of (map (miner_account key) [0..<Suc n])) = 1000"
proof (induction n)
  case (Suc n)
  have "steem_of (miner_account key (Suc n)) = 0" by (simp add: steem_of_def miner_account_def default_account_def)
  with Suc show ?case by simp
qed (simp add: steem_of_def miner_account_def default_account_def)

lemma signed_supply:
  fixes s :: u64
  assumes "1000 \<le> s" "uint s < 2 ^ 63"
  shows "sint s = uint s" "sint (s - 1000) = uint s - 1000"
proof -
  have le: "1000 \<le> uint s" using assms(1) by (simp add: word_le_def)
  show "sint s = uint s" using assms(2) le by (simp add: sint_uint signed_take_bit_int_eq_self_iff)
  have "uint (s - 1000) = uint s - 1000" using uint_minus_simple_alt [of 1000 s] assms(1) by simp
  then show "sint (s - 1000) = uint s - 1000" using assms(2) le by (simp add: sint_uint signed_take_bit_int_eq_self_iff)
qed

lemma genesis_balances:
  assumes "1000 \<le> s" "uint s < 2 ^ 63"
  shows "sum_list (map steem_of (genesis_accounts key s)) = uint s" "\<forall>a\<in>set (genesis_accounts key s). 0 \<le> amount (acc_balance a)"
proof -
  have "1000 \<le> uint s" using assms(1) by (simp add: word_le_def)
  then show "\<forall>a\<in>set (genesis_accounts key s). 0 \<le> amount (acc_balance a)"
    by (auto simp: genesis_accounts_def system_accounts_def miner_account_def default_account_def signed_supply(2) [OF assms])
  have "sum_list (map steem_of (system_accounts key s)) = uint s - 1000"
    by (simp add: system_accounts_def steem_of_def default_account_def signed_supply(2) [OF assms])
  with miner_balances [of key 20] show "sum_list (map steem_of (genesis_accounts key s)) = uint s"
    unfolding genesis_accounts_def map_append sum_list_append by (simp only:) (simp add: numeral_eq_Suc)
qed

lemma genesis_account_empty:
  assumes "a \<in> set (genesis_accounts key s)"
  shows "vests_of a = 0" "amount (acc_reward_vesting_steem a) = 0" "vsf_votes a = 0" "account_ok a" "withdrawal_ok a"
  using assms unfolding genesis_accounts_def
  by (auto simp: system_accounts_def miner_account_def default_account_def vests_of_def vsf_votes_def account_ok_def withdrawal_ok_def in64_def)

lemma sum_list_zero: "\<forall>x\<in>set xs. h x = (0::int) \<Longrightarrow> sum_list (map h xs) = 0"
  by (induction xs) simp_all

lemma genesis_names: "distinct (map acc_name (genesis_accounts key s))"
proof -
  have "distinct (map acc_name (map (miner_account key) [0..<n]))" for n
    by (simp add: distinct_map inj_on_def miner_account_def init_miner_name_inject)
  moreover have "distinct (map acc_name (system_accounts key s))" by (simp add: system_accounts_def)
  moreover have "acc_name ` set (system_accounts key s) \<inter> acc_name ` set (map (miner_account key) [0..<n]) = {}" for n
    by (auto simp: system_accounts_def miner_account_def init_miner_name_def)
  ultimately show ?thesis unfolding genesis_accounts_def map_append distinct_append set_map [symmetric] by (metis set_map)
qed

lemma genesis_owners: "distinct (map wit_owner (map (genesis_witness key) [0..<n]))"
  using miners_distinct [of key n] by (simp add: genesis_witness_def comp_def)



section \<open>What the recomputed votes are\<close>

text \<open>The votes that each witness has, and how they change.\<close>

definition votes_at :: "database \<Rightarrow> int \<Rightarrow> int option" where
  "votes_at d i = map_option wit_votes (map_of (rows (witnesses d)) i)"

definition added :: "(int \<Rightarrow> int) \<Rightarrow> database \<Rightarrow> database \<Rightarrow> bool" where
  "added f d d' \<longleftrightarrow> table_ok (witnesses d') \<and> accounts d' = accounts d \<and> witness_votes d' = witness_votes d
     \<and> votes_at d' = (\<lambda>i. map_option (\<lambda>v. v + f i) (votes_at d i))"

lemma added_refl: "table_ok (witnesses d) \<Longrightarrow> added (\<lambda>_. 0) d d"
  by (simp add: added_def option.map_ident)

lemma added_trans: "added f d e \<Longrightarrow> added g e e' \<Longrightarrow> added (\<lambda>i. f i + g i) d e'"
  by (auto simp: added_def option.map_comp comp_def add.assoc)

lemma efold_added:
  assumes "efold step ps d = Inr d'" "table_ok (witnesses d)"
    and "\<And>p e e'. step p e = Inr e' \<Longrightarrow> table_ok (witnesses e) \<Longrightarrow> accounts e = accounts d \<Longrightarrow> witness_votes e = witness_votes d
      \<Longrightarrow> added (g p) e e'"
  shows "added (\<lambda>i. \<Sum>p\<leftarrow>ps. g p i) d d'"
  using assms
proof (induction ps arbitrary: d)
  case Nil
  then show ?case using added_refl by simp
next
  case (Cons p ps)
  from Cons.prems(1) obtain e where e: "step p d = Inr e" "efold step ps e = Inr d'" by auto
  have a: "added (g p) d e" using Cons.prems(2,3) e(1) by blast
  then have "added (\<lambda>i. \<Sum>p\<leftarrow>ps. g p i) e d'" using Cons.IH [OF e(2)] Cons.prems(3) by (simp add: added_def)
  with a show ?case by (auto dest: added_trans)
qed

lemma modify_witness_votes:
  assumes "modify_witness j f d = Inr d'" "table_ok (witnesses d)" "\<And>w w'. f w = Inr w' \<Longrightarrow> wit_votes w' = h (wit_votes w)"
  shows "table_ok (witnesses d') \<and> accounts d' = accounts d \<and> witness_votes d' = witness_votes d
    \<and> votes_at d' = (\<lambda>i. map_option (if i = j then h else id) (votes_at d i))"
proof -
  obtain t where t: "tbl_modify key_witness j f (witnesses d) = Inr t" "d' = d\<lparr>witnesses := t\<rparr>"
    using assms(1) by (auto simp: modify_witness_def)
  from tbl_modify_sum [OF t(1) assms(2)] obtain v v' where "map_of (rows (witnesses d)) j = Some v" "f v = Inr v'"
    "map_of (rows t) = (map_of (rows (witnesses d)))(j \<mapsto> v')" by blast
  then show ?thesis using assms(3) [of v v'] tbl_modify_ok [OF t(1) assms(2)] by (auto simp: t(2) votes_at_def option.map_id)
qed

lemma sum_list_sort: "(\<Sum>x\<leftarrow>sort_key k xs. h x) = (\<Sum>x\<leftarrow>xs. h x)" for h :: "'a \<Rightarrow> int"
proof -
  have "mset (map h (sort_key k xs)) = mset (map h xs)" by simp
  then show ?thesis by (metis sum_mset_sum_list)
qed

text \<open>A vote of an account without a proxy counts with the shares of the account and those proxied to it.\<close>

definition own_vote_weight :: "account_object \<Rightarrow> int" where
  "own_vote_weight a = amount (acc_vesting_shares a) + sum_list (acc_proxied_vsf_votes a)"

definition votes_cast :: "database \<Rightarrow> int \<Rightarrow> int" where
  "votes_cast d i = (\<Sum>p\<leftarrow>rows (accounts d). if acc_proxy (snd p) = WLS_PROXY_TO_SELF_ACCOUNT
     then \<Sum>v\<leftarrow>rows (witness_votes d). if wvo_voter (snd v) = fst p \<and> wvo_witness (snd v) = i then own_vote_weight (snd p) else 0
     else 0)"

context fc_env
begin

lemma adjust_witness_vote_added:
  assumes "adjust_witness_vote F j x d = Inr d'" "table_ok (witnesses d)"
  shows "added (\<lambda>i. if j = i then x else 0) d d'"
proof -
  have "table_ok (witnesses d') \<and> accounts d' = accounts d \<and> witness_votes d' = witness_votes d
    \<and> votes_at d' = (\<lambda>i. map_option (if i = j then \<lambda>v. v + x else id) (votes_at d i))"
    using assms(1) [unfolded adjust_witness_vote_def Let_def] assms(2)
    by (rule modify_witness_votes) (auto simp: require_def split: if_splits)
  then show ?thesis by (auto simp: added_def id_def)
qed

lemma apply_account_votes_added:
  assumes "apply_account_votes F p d = Inr d'" "table_ok (witnesses d)"
  shows "added (\<lambda>i. if acc_proxy (snd p) = WLS_PROXY_TO_SELF_ACCOUNT
     then \<Sum>v\<leftarrow>rows (witness_votes d). if wvo_voter (snd v) = fst p \<and> wvo_witness (snd v) = i then own_vote_weight (snd p) else 0
     else 0) d d'"
proof (cases "acc_proxy (snd p) = WLS_PROXY_TO_SELF_ACCOUNT")
  case True
  let ?step = "\<lambda>v e. ebind (tbl_get (wvo_witness (snd v)) (witnesses e)) (\<lambda>_. ebind (witness_vote_weight F (snd p)) (\<lambda>w.
      adjust_witness_vote F (wvo_witness (snd v)) w e))"
  have "efold ?step (votes_of_account (fst p) d) d = Inr d'" using assms(1) True by (simp add: apply_account_votes_def)
  then have "added (\<lambda>i. \<Sum>v\<leftarrow>votes_of_account (fst p) d. if wvo_witness (snd v) = i then own_vote_weight (snd p) else 0) d d'"
    using assms(2)
  proof (rule efold_added)
    fix v :: "int \<times> witness_vote_object" and e e'
    assume "?step v e = Inr e'" "table_ok (witnesses e)"
    then show "added (\<lambda>i. if wvo_witness (snd v) = i then own_vote_weight (snd p) else 0) e e'"
      using adjust_witness_vote_added efold_add by (auto simp: witness_vote_weight_def own_vote_weight_def)
  qed
  moreover have "(if b then if c then x else 0 else 0) = (if b \<and> c then x else (0::int))" for b c x by simp
  ultimately show ?thesis using True by (simp add: votes_of_account_def sum_list_sort sum_list_map_filter')
next
  case False
  then show ?thesis using assms added_refl by (simp add: apply_account_votes_def)
qed

lemma retally_votes_result:
  assumes "retally_witness_votes F d = Inr d'" "table_ok (witnesses d)"
  shows "votes_at d' = (\<lambda>i. map_option (\<lambda>_. votes_cast d i) (votes_at d i))"
proof -
  obtain e where e: "efold (\<lambda>p. modify_witness (fst p) (\<lambda>w. Inr (clear_witness_vote w))) (rows (witnesses d)) d = Inr e"
    "efold (apply_account_votes F) (rows (accounts e)) e = Inr d'"
    using assms(1) by (auto simp: retally_witness_votes_def)
  have "table_ok (witnesses e) \<and> accounts e = accounts d \<and> witness_votes e = witness_votes d
      \<and> votes_at e = (\<lambda>i. if i \<in> fst ` set ps then map_option (\<lambda>_. 0) (votes_at d i) else votes_at d i)"
    if "efold (\<lambda>p. modify_witness (fst p) (\<lambda>w. Inr (clear_witness_vote w))) ps d = Inr e" "table_ok (witnesses d)" for ps d
    using that
  proof (induction ps arbitrary: d)
    case (Cons p ps)
    from Cons.prems(1) obtain t where t: "modify_witness (fst p) (\<lambda>w. Inr (clear_witness_vote w)) d = Inr t"
      "efold (\<lambda>p. modify_witness (fst p) (\<lambda>w. Inr (clear_witness_vote w))) ps t = Inr e" by auto
    note m = modify_witness_votes [OF t(1) Cons.prems(2), of "\<lambda>_. 0"]
    then show ?case using Cons.IH [OF t(2)] by (auto simp: clear_witness_vote_def fun_eq_iff option.map_id option.map_comp comp_def)
  qed simp
  note c = this [OF e(1) assms(2)]
  have "votes_at d i = None" if "i \<notin> fst ` set (rows (witnesses d))" for i
    using that by (simp add: votes_at_def map_of_eq_None_iff)
  with c have "votes_at e = (\<lambda>i. map_option (\<lambda>_. 0) (votes_at d i))" by (auto simp: fun_eq_iff)
  moreover have "added (\<lambda>i. votes_cast e i) e d'"
    unfolding votes_cast_def using e(2) c [THEN conjunct1] by (rule efold_added) (drule (1) apply_account_votes_added, simp only:)
  moreover
  have "accounts e = accounts d" "witness_votes e = witness_votes d" using c by blast+
  then have "votes_cast e = votes_cast d" by (simp add: votes_cast_def fun_eq_iff cong: if_cong)
  ultimately show ?thesis by (simp add: added_def option.map_comp comp_def)
qed

end

text \<open>
  (C26) When \<open>retally_witness_votes\<close> returns, the votes of every witness are exactly the sum, over the
  accounts that have not set a proxy and vote for the witness, of their own vesting shares and of the
  shares that others have proxied to them; whatever was stored before is forgotten, and no witness is
  added or lost.
\<close>

theorem retally_counts_votes:
  assumes "fc_ok F" "table_ok (witnesses d)" "retally_witness_votes F d = Inr d'"
  shows "votes_at d' i = map_option (\<lambda>_. votes_cast d i) (votes_at d i)"
  using fc_env.retally_votes_result [OF fc_env.intro [OF assms(1)] assms(3,2)] by simp

definition sample_votes :: database where
  "sample_votes = sample_db\<lparr>
     witnesses := \<lparr>rows = [(0, default_witness\<lparr>wit_owner := ''wls'', wit_votes := 7\<rparr>), (1, default_witness\<lparr>wit_owner := ''alice''\<rparr>)], next_row_id = 2\<rparr>,
     witness_votes := \<lparr>rows = [(0, \<lparr>wvo_witness = 0, wvo_voter = 1\<rparr>), (1, \<lparr>wvo_witness = 0, wvo_voter = 4\<rparr>),
        (2, \<lparr>wvo_witness = 1, wvo_voter = 4\<rparr>)], next_row_id = 3\<rparr>\<rparr>"

theorem retally_counts_votes_witness:
  "\<exists>d'. retally_witness_votes fc_int64 sample_votes = Inr d' \<and> votes_at d' 0 = Some 200000 \<and> votes_at d' 1 = Some 70000"
proof -
  have "\<not> isl (retally_witness_votes fc_int64 sample_votes)" by code_simp
  then obtain d' where d': "retally_witness_votes fc_int64 sample_votes = Inr d'"
    by (cases "retally_witness_votes fc_int64 sample_votes") auto
  have ok: "table_ok (witnesses sample_votes)" by (simp add: table_ok_def sample_votes_def)
  have "votes_at sample_votes 0 = Some 7" "votes_at sample_votes 1 = Some 0" "votes_cast sample_votes 0 = 200000" "votes_cast sample_votes 1 = 70000"
    by code_simp+
  then show ?thesis using d' retally_counts_votes [OF fc_ok_int64 ok d', of 0] retally_counts_votes [OF fc_ok_int64 ok d', of 1] by simp
qed

end
