(* ===== verification/Block_State.thy ===== *)
theory Block_State
  imports Chain_Invariants
begin

text \<open>
  The block state: the list of recent transactions, the block summaries, the head block, its time
  and the number of the last irreversible block.  Operations and the payments, the schedule and the hardforks of a block leave it alone
  (\<open>same_head\<close>); only the bookkeeping of transactions and blocks changes it.
\<close>

section \<open>Operations leave the block state alone\<close>

definition same_head :: "database \<Rightarrow> database \<Rightarrow> bool" where
  "same_head d e \<longleftrightarrow> transaction_table e = transaction_table d \<and> block_summaries e = block_summaries d
     \<and> head_block_time e = head_block_time d \<and> head_block_num e = head_block_num d \<and> head_block_id e = head_block_id d
     \<and> gpo_last_irreversible_block_num (gpo e) = gpo_last_irreversible_block_num (gpo d)"

lemma same_head_refl [simp]: "same_head d d"
  by (simp add: same_head_def)

lemma same_head_trans: "same_head d e \<Longrightarrow> same_head e f \<Longrightarrow> same_head d f"
  by (simp add: same_head_def)

named_theorems head_wp \<open>operations that leave the block state alone\<close>

lemma head_step [head_wp]:
  "yields m (same_head d) \<Longrightarrow> (\<And>e. m = Inr e \<Longrightarrow> same_head d e \<Longrightarrow> yields (f e) (same_head d)) \<Longrightarrow> yields (ebind m f) (same_head d)"
  by (auto simp: yields_def)

lemma same_head_updates [simp]:
  "same_head d (e\<lparr>accounts := ac\<rparr>) = same_head d e"
  "same_head d (e\<lparr>authorities := au\<rparr>) = same_head d e"
  "same_head d (e\<lparr>witnesses := wi\<rparr>) = same_head d e"
  "same_head d (e\<lparr>witness_votes := wv\<rparr>) = same_head d e"
  "same_head d (e\<lparr>comments := co\<rparr>) = same_head d e"
  "same_head d (e\<lparr>comment_votes := cv\<rparr>) = same_head d e"
  "same_head d (e\<lparr>withdraw_routes := wr\<rparr>) = same_head d e"
  "same_head d (e\<lparr>reward_funds := rf\<rparr>) = same_head d e"
  "same_head d (push_virtual_operation v e) = same_head d e"
  by (simp_all add: same_head_def head_block_time_def head_block_num_def head_block_id_def push_virtual_operation_def)

definition same_clock :: "dynamic_global_property_object \<Rightarrow> dynamic_global_property_object \<Rightarrow> bool" where
  "same_clock g g' \<longleftrightarrow> gpo_time g' = gpo_time g \<and> gpo_head_block_number g' = gpo_head_block_number g \<and> gpo_head_block_id g' = gpo_head_block_id g
     \<and> gpo_last_irreversible_block_num g' = gpo_last_irreversible_block_num g"

lemma head_operations [head_wp]:
  "same_head d e \<Longrightarrow> yields (modify_account i fa e) (same_head d)"
  "same_head d e \<Longrightarrow> yields (modify_witness i fw e) (same_head d)"
  "same_head d e \<Longrightarrow> yields (modify_comment i fc e) (same_head d)"
  "same_head d e \<Longrightarrow> yields (modify_comment_vote i fv e) (same_head d)"
  "same_head d e \<Longrightarrow> yields (modify_reward_fund i fr e) (same_head d)"
  "same_head d e \<Longrightarrow> yields (update_owner_authority nm ow e) (same_head d)"
  "same_head d e \<Longrightarrow> (\<And>g. yields (fg g) (same_clock g)) \<Longrightarrow> yields (modify_gpo fg e) (same_head d)"
  "same_head d e \<Longrightarrow> yields (adjust_witness_vote F w x e) (same_head d)"
  by (auto simp: yields_def modify_account_def modify_witness_def modify_comment_def modify_comment_vote_def
      modify_reward_fund_def update_owner_authority_def adjust_witness_vote_def Let_def)
     (auto simp: modify_gpo_def same_head_def same_clock_def head_block_time_def head_block_num_def head_block_id_def)

lemma head_efold [head_wp]:
  "same_head d e \<Longrightarrow> (\<And>x s. same_head d s \<Longrightarrow> yields (f x s) (same_head d)) \<Longrightarrow> yields (efold f xs e) (same_head d)"
  by (rule yields_efold)

text \<open>The same for steps whose result carries a value, or two, beside the database.\<close>

definition head_snd :: "database \<Rightarrow> 'a \<times> database \<Rightarrow> bool" where
  "head_snd d r \<longleftrightarrow> same_head d (snd r)"

definition head_thd :: "database \<Rightarrow> 'a \<times> 'b \<times> database \<Rightarrow> bool" where
  "head_thd d r \<longleftrightarrow> same_head d (snd (snd r))"

lemma head_pair [simp]: "head_snd d (v, e) = same_head d e" "head_thd d (v, w, e) = same_head d e"
  by (simp_all add: head_snd_def head_thd_def)

lemma head_steps [head_wp]:
  "yields m (same_head d) \<Longrightarrow> (\<And>e. m = Inr e \<Longrightarrow> same_head d e \<Longrightarrow> yields (f e) (head_snd d)) \<Longrightarrow> yields (ebind m f) (head_snd d)"
  "yields m (same_head d) \<Longrightarrow> (\<And>e. m = Inr e \<Longrightarrow> same_head d e \<Longrightarrow> yields (g e) (head_thd d)) \<Longrightarrow> yields (ebind m g) (head_thd d)"
  "yields p (head_snd d) \<Longrightarrow> (\<And>r. p = Inr r \<Longrightarrow> head_snd d r \<Longrightarrow> yields (f2 r) (same_head d)) \<Longrightarrow> yields (ebind p f2) (same_head d)"
  "yields p (head_snd d) \<Longrightarrow> (\<And>r. p = Inr r \<Longrightarrow> head_snd d r \<Longrightarrow> yields (g2 r) (head_snd d)) \<Longrightarrow> yields (ebind p g2) (head_snd d)"
  "yields p (head_snd d) \<Longrightarrow> (\<And>r. p = Inr r \<Longrightarrow> head_snd d r \<Longrightarrow> yields (h2 r) (head_thd d)) \<Longrightarrow> yields (ebind p h2) (head_thd d)"
  "yields q (head_thd d) \<Longrightarrow> (\<And>r. q = Inr r \<Longrightarrow> head_thd d r \<Longrightarrow> yields (f3 r) (same_head d)) \<Longrightarrow> yields (ebind q f3) (same_head d)"
  "yields q (head_thd d) \<Longrightarrow> (\<And>r. q = Inr r \<Longrightarrow> head_thd d r \<Longrightarrow> yields (g3 r) (head_snd d)) \<Longrightarrow> yields (ebind q g3) (head_snd d)"
  by (auto simp: yields_def)

lemma head_efold_snd [head_wp]:
  "same_head d e \<Longrightarrow> (\<And>x s. head_snd d s \<Longrightarrow> yields (f x s) (head_snd d)) \<Longrightarrow> yields (efold f xs (v, e)) (head_snd d)"
  "same_head d e \<Longrightarrow> (\<And>x s. head_thd d s \<Longrightarrow> yields (g x s) (head_thd d)) \<Longrightarrow> yields (efold g ys (v, w, e)) (head_thd d)"
  by (rule yields_efold; simp)+

lemma adjust_witness_votes_head [head_wp]:
  "same_head d e \<Longrightarrow> yields (adjust_witness_votes F a x e) (same_head d)"
  unfolding adjust_witness_votes_def by (intro head_wp wp)

lemma adjust_proxied_head [head_wp]:
  "same_head d e \<Longrightarrow> yields (adjust_proxied_witness_votes_at F left a x e) (same_head d)"
proof (induction left arbitrary: a e)
  case (Suc left)
  show ?case unfolding adjust_proxied_witness_votes_at.simps by (intro head_wp wp Suc)
qed (auto simp only: adjust_proxied_witness_votes_at.simps intro!: head_wp wp)

lemma adjust_array_head [head_wp]:
  "same_head d e \<Longrightarrow> yields (adjust_proxied_array_at F left a xs e) (same_head d)"
proof (induction left arbitrary: a e)
  case (Suc left)
  show ?case unfolding adjust_proxied_array_at.simps by (intro head_wp wp Suc)
qed (auto simp only: adjust_proxied_array_at.simps intro!: head_wp wp)

lemma adjust_votes_head [head_wp]:
  "same_head d e \<Longrightarrow> yields (adjust_proxied_witness_votes F a x e) (same_head d)"
  "same_head d e \<Longrightarrow> yields (adjust_proxied_witness_votes_array F a xs e) (same_head d)"
  unfolding adjust_proxied_witness_votes_def adjust_proxied_witness_votes_array_def by (intro head_wp; simp)+

lemma balance_head [head_wp]:
  "same_head d e \<Longrightarrow> yields (adjust_balance F i x e) (same_head d)"
  "same_head d e \<Longrightarrow> yields (adjust_reward_balance F i x e) (same_head d)"
  "same_head d e \<Longrightarrow> yields (clear_witness_votes i e) (same_head d)"
  unfolding adjust_balance_def adjust_reward_balance_def clear_witness_votes_def by (intro head_wp wp; simp)+

lemma create_vesting_head [head_wp]:
  "same_head d e \<Longrightarrow> yields (create_vesting F i x b e) (head_snd d)"
  unfolding create_vesting_def by (intro head_wp wp) (auto simp: same_clock_def)

section \<open>Evaluators\<close>

lemma touch_parents_head [head_wp]: "same_head d e \<Longrightarrow> yields (touch_parents n f i e) (same_head d)"
proof (induction n arbitrary: i e)
  case (Suc n)
  show ?case unfolding touch_parents.simps by (intro head_wp wp Suc)
qed (simp add: yields_def)

lemma comment_head:
  "yields (delete_comment_do_apply dop d) (same_head d)"
  "yields (comment_options_do_apply cop d) (same_head d)"
  "yields (comment_do_apply F T op d) (same_head d)"
  unfolding delete_comment_do_apply_def comment_options_do_apply_def add_beneficiaries_def comment_do_apply_def
  by (intro head_wp wp; simp)+

lemma vote_head: "yields (vote_do_apply F op d) (same_head d)"
  unfolding vote_do_apply_def record_vote_def first_vote_def change_vote_def spend_power_def
  by (intro head_wp wp) simp_all

lemma account_head:
  "yields (account_update_do_apply uop d) (same_head d)"
  "yields (withdraw_vesting_do_apply F wop d) (same_head d)"
  "yields (set_withdraw_vesting_route_do_apply rop d) (same_head d)"
  "yields (witness_update_do_apply p wuop d) (same_head d)"
  "yields (account_witness_vote_do_apply F vop d) (same_head d)"
  "yields (account_witness_proxy_do_apply F pop d) (same_head d)"
  unfolding account_update_do_apply_def withdraw_vesting_do_apply_def set_withdraw_vesting_route_do_apply_def
    witness_update_do_apply_def account_witness_vote_do_apply_def account_witness_proxy_do_apply_def
  by (intro head_wp wp; simp)+

lemma money_head:
  "yields (transfer_do_apply F op d) (same_head d)"
  "yields (claim_reward_balance_do_apply F cop d) (same_head d)"
  unfolding transfer_do_apply_def claim_reward_balance_do_apply_def
  by (intro head_wp wp; simp add: same_clock_def)+

lemma transfer_to_vesting_head: "yields (transfer_to_vesting_do_apply F op d) (same_head d)"
  unfolding transfer_to_vesting_do_apply_def by (intro head_wp wp) auto

lemma account_create_head: "yields (account_create_do_apply F op d) (same_head d)"
  unfolding account_create_do_apply_def by (intro head_wp wp) auto

lemma apply_operation_head:
  assumes "env_ok E"
  shows "yields (apply_operation E producing op d) (same_head d)"
proof -
  have vops: "same_head d (d\<lparr>db_vops := v\<rparr>)" for v
    by (simp add: same_head_def head_block_time_def head_block_num_def head_block_id_def)
  show ?thesis
    by (cases op) (simp_all add: comment_head vote_head account_head money_head transfer_to_vesting_head account_create_head
      custom_yields [where P = "same_head d", OF assms vops] account_forsale_do_apply_def account_buying_do_apply_def custom_do_apply_def yields_rules)
qed

section \<open>The payments of a block\<close>

lemma adjust_supply_head [head_wp]: "same_head d e \<Longrightarrow> yields (adjust_supply F x b e) (same_head d)"
  unfolding adjust_supply_def by (intro head_wp wp) (auto simp: same_clock_def)

lemma clear_null_head: "same_head d e \<Longrightarrow> yields (clear_null_account_balance F e) (same_head d)"
  unfolding clear_null_account_balance_def by (intro head_wp wp) (auto simp: same_clock_def)

lemma pay_reward_funds_head [head_wp]: "same_head d e \<Longrightarrow> yields (pay_reward_funds F x e) (head_snd d)"
  unfolding pay_reward_funds_def by (intro head_wp wp) auto

lemma process_funds_head: "same_head d e \<Longrightarrow> yields (process_funds F e) (same_head d)"
  unfolding process_funds_def mint_rewards_def by (intro head_wp wp) (auto simp: same_clock_def)

lemma curators_head [head_wp]:
  "head_snd d r \<Longrightarrow> yields (pay_curator F c m v r) (head_snd d)"
  "same_head d e \<Longrightarrow> yields (pay_curators F i c m e) (head_thd d)"
proof -
  show *: "yields (pay_curator F c m v r) (head_snd d)" if "head_snd d r" for v r
    using that unfolding pay_curator_def by (intro head_wp wp) auto
  show "yields (pay_curators F i c m e) (head_thd d)" if "same_head d e"
    using that unfolding pay_curators_def by (intro head_wp wp *) auto
qed

lemma beneficiary_head [head_wp]:
  "head_snd d r \<Longrightarrow> yields (pay_beneficiary F c m v r) (head_snd d)"
  unfolding pay_beneficiary_def by (intro head_wp wp) auto

lemma pay_comment_head [head_wp]: "same_head d e \<Longrightarrow> yields (pay_comment F i c m e) (head_snd d)"
  unfolding pay_comment_def adjust_total_payout_def by (intro head_wp wp) auto

lemma cashout_head [head_wp]: "same_head d e \<Longrightarrow> yields (cashout_comment_helper F ctx i e) (head_snd d)"
  unfolding cashout_comment_helper_def mark_votes_def by (intro head_wp wp) auto

lemma cashout_step_head: "same_head d e \<Longrightarrow> yields (cashout_step F i funds e) (head_snd d)"
  unfolding cashout_step_def by (intro head_wp wp) auto

lemma cashout_loop_head:
  "same_head d e \<Longrightarrow> cashout_loop F n funds e = Some r \<Longrightarrow> yields r (head_snd d)"
proof (induction n arbitrary: funds e)
  case (Suc n)
  have step: "head_snd d x" if "cashout_step F i funds e = Inr x" for i x
    using yieldsD [OF cashout_step_head [OF Suc.prems(1)] that] .
  show ?case
  proof (cases "by_cashout_time e")
    case Nil
    then show ?thesis using Suc.prems by (auto simp: yields_def cashout_loop.simps)
  next
    case (Cons p ps)
    obtain i c where p: "p = (i, c)" by (cases p)
    show ?thesis
    proof (cases "com_cashout_time c \<le> head_block_time e")
      case True
      then show ?thesis using Suc.prems Suc.IH Cons p
        by (cases "cashout_step F i funds e") (auto simp: yields_def cashout_loop.simps dest: step)
    qed (use Suc.prems Cons p in \<open>auto simp: yields_def cashout_loop.simps\<close>)
  qed
qed simp

lemma process_comment_cashout_head: "same_head d e \<Longrightarrow> yields (process_comment_cashout F e) (same_head d)"
  unfolding process_comment_cashout_def load_fund_def store_fund_def
  by (intro head_wp wp cashout_loop_head) auto

lemma routes_head [head_wp]:
  "head_snd d r \<Longrightarrow> yields (route_vests F n x p r) (head_snd d)"
  "head_thd d q \<Longrightarrow> yields (route_steem F n x p q) (head_thd d)"
  unfolding route_vests_def route_steem_def by (intro head_wp wp; auto simp: same_clock_def)+

lemma process_withdrawal_head: "same_head d e \<Longrightarrow> yields (process_withdrawal F i e) (same_head d)"
  unfolding process_withdrawal_def by (intro head_wp wp) (auto simp: same_clock_def)

lemma withdrawals_loop_head:
  "same_head d e \<Longrightarrow> withdrawals_loop F n c e = Some r \<Longrightarrow> yields r (same_head d)"
proof (induction n arbitrary: c e)
  case (Suc n)
  show ?case using Suc.prems(2) yieldsD [OF process_withdrawal_head [OF Suc.prems(1)]] Suc.prems(1) Suc.IH
    by (fastforce simp: yields_def Let_def split: option.splits if_splits sum.splits)
qed simp

lemma process_vesting_withdrawals_head: "same_head d e \<Longrightarrow> yields (process_vesting_withdrawals F e) (same_head d)"
  unfolding process_vesting_withdrawals_def by (intro head_wp wp withdrawals_loop_head; assumption)

section \<open>The schedule and the hardforks\<close>

lemma schedule_updates [simp]:
  "same_head d (e\<lparr>wso := w\<rparr>) = same_head d e"
  "same_head d (e\<lparr>hpo := h\<rparr>) = same_head d e"
  by (simp_all add: same_head_def head_block_time_def head_block_num_def head_block_id_def)

lemma gpo_head: "same_head d (e\<lparr>gpo := g\<rparr>) \<longleftrightarrow> same_head d e" if "same_clock (gpo e) g"
  using that by (auto simp: same_head_def same_clock_def head_block_time_def head_block_num_def head_block_id_def)

lemma reset_virtual_head [head_wp]: "same_head d e \<Longrightarrow> yields (reset_virtual_schedule_time e) (same_head d)"
  unfolding reset_virtual_schedule_time_def by (intro head_wp wp) auto

lemma select_voted_head [head_wp]: "same_head d e \<Longrightarrow> yields (select_voted n ws (v, a, e)) (head_thd d)"
proof (induction n ws "(v, a, e)" arbitrary: v a e rule: select_voted.induct)
  case (2 n i w ws v a e)
  show ?case unfolding select_voted.simps set_schedule_def by (intro head_wp wp 2(1,2)) (simp_all add: 2(3))
qed (simp add: yields_rules)

lemma select_runners_head: "same_head d (rs_db s) \<Longrightarrow> yields (select_runners v ws s) (\<lambda>s. same_head d (rs_db s))"
proof (induction v ws s rule: select_runners.induct)
  case (2 v i w ws s)
  have "yields (set_schedule timeshare i (rs_db s)) (same_head d)"
    unfolding set_schedule_def by (rule head_operations(2)) (rule 2)
  with 2 show ?case by (auto simp: Let_def intro!: wp dest: yieldsD)
qed (simp add: yields_rules)

lemma advance_processed_head [head_wp]: "same_head d e \<Longrightarrow> yields (advance_processed t ws e) (head_snd d)"
proof (induction t ws e rule: advance_processed.induct)
  case (2 t i w ws e)
  show ?case unfolding advance_processed.simps by (intro head_wp wp 2) (auto simp: 2)
qed (simp add: yields_rules)

lemma median_head [head_wp]: "same_head d e \<Longrightarrow> yields (update_median_witness_props e) (same_head d)"
  unfolding update_median_witness_props_def by (intro wp) (auto simp: gpo_head same_clock_def)

lemma update_witness_schedule_head: "same_head d e \<Longrightarrow> yields (update_witness_schedule e) (same_head d)"
  unfolding update_witness_schedule_def update_witness_schedule4_def
  by (intro head_wp wp yields_seq [OF select_runners_head]) auto

lemma hardforks_loop_head: "same_head d e \<Longrightarrow> yields (process_hardforks_loop n e) (same_head d)"
proof (induction n arbitrary: e)
  case (Suc n)
  show ?case unfolding process_hardforks_loop.simps apply_hardfork_def by (intro head_wp wp Suc) (auto simp: Suc)
qed (simp add: yields_rules)

lemma process_hardforks_head: "same_head d e \<Longrightarrow> yields (process_hardforks e) (same_head d)"
  unfolding process_hardforks_def by (rule hardforks_loop_head)

end
