(* ===== verification/Blocks.thy ===== *)
theory Blocks
  imports Block_State
begin

text \<open>
  Applying a block to the chain state: \<open>_apply_block\<close> of \<open>database.cpp\<close>.  It is cut where
  \<open>update_last_irreversible_block\<close> leaves the chain state for the undo history, the block log and the
  fork database: \<open>apply_block_start\<close> is the part before, \<open>apply_block_finish\<close> the part after, and
  \<open>apply_block_state\<close> their composition with the change of the chain state in between.

  The theorems: a transaction is applied at most once; the irreversible block has the support of
  three quarters of the scheduled witnesses; the clock moves forward with every block.
\<close>

section \<open>The parts of a block\<close>

definition check_merkle :: "chain_env \<Rightarrow> u32 \<Rightarrow> signed_block \<Rightarrow> unit result" where
  "check_merkle E skip next_block =
     (if \<not> has_flag skip skip_merkle_check then
        let merkle_root = calculate_merkle_root (env_crypto E) next_block in
        if transaction_merkle_root next_block = merkle_root then Inr ()
        else (case map_of get_shared_db_merkle (block_num (env_crypto E) next_block) of
                None \<Rightarrow> Inl assert_exception
              | Some root \<Rightarrow> require (root = merkle_root) (Inr ()))
      else Inr ())"

text \<open>The signing witness is returned with the state, for \<open>update_signing_witness\<close>.\<close>

definition open_block :: "chain_env \<Rightarrow> u32 \<Rightarrow> signed_block \<Rightarrow> database \<Rightarrow> (int \<times> database) result" where
  "open_block E skip next_block d =
     ebind (check_merkle E skip next_block) (\<lambda>_.
     ebind (validate_block_header E skip next_block d) (\<lambda>signing_witness.
     require (fc_pack_size (env_crypto E) next_block \<le> unat (gpo_maximum_block_size (gpo d)))
     (ebind (modify_gpo (\<lambda>dgp. Inr (dgp\<lparr>gpo_current_witness := witness next_block\<rparr>)) d) (\<lambda>d.
     ebind (process_header_extensions next_block d) (\<lambda>d.
     ebind (get_witness (witness next_block) d) (\<lambda>(_, w).
     require (wit_running_version w \<ge> hpo_current_hardfork_version (hpo d)) (Inr (signing_witness, d))))))))"

definition apply_block_start :: "chain_env \<Rightarrow> bool \<Rightarrow> u32 \<Rightarrow> u32 \<Rightarrow> signed_block \<Rightarrow> database \<Rightarrow> database result" where
  "apply_block_start E producing max_undo skip next_block d =
     ebind (open_block E skip next_block d) (\<lambda>(signing_witness, d).
     ebind (efold (apply_transaction E producing skip) (transactions next_block) d) (\<lambda>d.
     ebind (update_global_dynamic_data E max_undo skip next_block d) (\<lambda>d.
     update_signing_witness E signing_witness next_block d)))"

definition apply_block_finish :: "chain_env \<Rightarrow> signed_block \<Rightarrow> database \<Rightarrow> database result" where
  "apply_block_finish E next_block d =
     ebind (create_block_summary E next_block d) (\<lambda>d.
     ebind (clear_expired_transactions d) (\<lambda>d.
     ebind (update_witness_schedule d) (\<lambda>d.
     ebind (clear_null_account_balance (env_fc E) d) (\<lambda>d.
     ebind (process_funds (env_fc E) d) (\<lambda>d.
     ebind (process_comment_cashout (env_fc E) d) (\<lambda>d.
     ebind (process_vesting_withdrawals (env_fc E) d) (\<lambda>d.
     process_hardforks d)))))))"

definition apply_block_state :: "chain_env \<Rightarrow> bool \<Rightarrow> u32 \<Rightarrow> u32 \<Rightarrow> signed_block \<Rightarrow> database \<Rightarrow> database result" where
  "apply_block_state E producing max_undo skip next_block d =
     ebind (apply_block_start E producing max_undo skip next_block d) (\<lambda>d.
     ebind (advance_irreversible d) (\<lambda>d.
     apply_block_finish E next_block d))"

section \<open>The list of recent transactions\<close>

text \<open>
  \<open>ages d e\<close>: the clock did not go back, and a transaction that was listed still is, or has expired.
\<close>

definition ages :: "database \<Rightarrow> database \<Rightarrow> bool" where
  "ages d e \<longleftrightarrow> head_block_time d \<le> head_block_time e
     \<and> (table_ok (transaction_table d) \<longrightarrow> table_ok (transaction_table e)
        \<and> (\<forall>p\<in>set (rows (transaction_table d)). p \<in> set (rows (transaction_table e)) \<or> txo_expiration (snd p) < head_block_time e))"

lemma ages_refl: "ages d d"
  by (simp add: ages_def)

lemma ages_trans: "ages d e \<Longrightarrow> ages e f \<Longrightarrow> ages d f"
  unfolding ages_def by (meson order_trans less_le_trans)

lemma same_head_ages: "same_head d e \<Longrightarrow> ages d e"
  by (simp add: same_head_def ages_def)

text \<open>\<open>same_block d e\<close>: neither the head block nor the last irreversible block changed.\<close>

definition same_block :: "database \<Rightarrow> database \<Rightarrow> bool" where
  "same_block d e \<longleftrightarrow> head_block_time e = head_block_time d \<and> head_block_num e = head_block_num d
     \<and> head_block_id e = head_block_id d \<and> gpo_last_irreversible_block_num (gpo e) = gpo_last_irreversible_block_num (gpo d)"

definition grows :: "database \<Rightarrow> database \<Rightarrow> bool" where
  "grows d e \<longleftrightarrow> ages d e \<and> same_block d e"

lemma grows_refl: "grows d d"
  by (simp add: grows_def ages_refl same_block_def)

lemma grows_trans: "grows d e \<Longrightarrow> grows e f \<Longrightarrow> grows d f"
  using ages_trans by (auto simp: grows_def same_block_def)

lemma same_head_grows: "same_head d e \<Longrightarrow> grows d e"
  by (simp add: grows_def same_head_ages) (simp add: same_head_def same_block_def)

lemma table_grows:
  assumes "table_ok (transaction_table d) \<Longrightarrow> table_ok t
      \<and> (\<forall>p\<in>set (rows (transaction_table d)). p \<in> set (rows t) \<or> txo_expiration (snd p) < head_block_time d)"
  shows "grows d (d\<lparr>transaction_table := t\<rparr>)"
  using assms by (auto simp: grows_def ages_def same_block_def head_block_time_def head_block_num_def head_block_id_def)

lemma record_transaction_grows: "yields (record_transaction E skip trx d) (grows d)"
  unfolding record_transaction_def
proof (intro wp table_grows)
  fix r i t assume c: "tbl_create key_transaction \<lparr>txo_packed_trx = trx, txo_trx_id = transaction_id (env_crypto E) trx,
      txo_expiration = expiration trx\<rparr> (transaction_table d) = Inr r" "r = (i, t)" "table_ok (transaction_table d)"
  show "table_ok t \<and> (\<forall>p\<in>set (rows (transaction_table d)). p \<in> set (rows t) \<or> txo_expiration (snd p) < head_block_time d)"
  proof
    show "table_ok t" using tbl_create_ok [OF c(1) [unfolded c(2)] c(3)] .
  qed (use c(1,2) in \<open>auto simp: tbl_create_def set_insort_key split: if_splits\<close>)
qed (rule grows_refl)

lemma apply_transaction_grows:
  assumes "env_ok E"
  shows "yields (apply_transaction E producing skip trx d) (grows d)"
  unfolding apply_transaction_def
proof (rule yields_ebind, rule yields_seq [OF record_transaction_grows])
  fix e assume "grows d e"
  then show "yields (efold (apply_operation E producing) (operations trx) e) (grows d)"
    by (rule yields_efold) (blast intro: yields_mono [OF apply_operation_head [OF assms]] grows_trans same_head_grows)
qed

lemma remove_rows:
  assumes "efold (\<lambda>p d. ebind (tbl_remove (fst p) (transaction_table d)) (\<lambda>t. Inr (d\<lparr>transaction_table := t\<rparr>))) ps d = Inr e"
  shows "\<exists>t. e = d\<lparr>transaction_table := t\<rparr> \<and> rows t = filter (\<lambda>p. fst p \<notin> fst ` set ps) (rows (transaction_table d))
    \<and> (table_ok (transaction_table d) \<longrightarrow> table_ok t)"
  using assms
proof (induction ps arbitrary: d)
  case Nil
  then show ?case by (auto intro!: exI [of _ "transaction_table d"])
next
  case (Cons p ps)
  from Cons.prems obtain t where t: "tbl_remove (fst p) (transaction_table d) = Inr t"
    "efold (\<lambda>p d. ebind (tbl_remove (fst p) (transaction_table d)) (\<lambda>t. Inr (d\<lparr>transaction_table := t\<rparr>))) ps (d\<lparr>transaction_table := t\<rparr>) = Inr e"
    by auto
  have "rows t = filter (\<lambda>q. fst q \<noteq> fst p) (rows (transaction_table d))"
    using t(1) by (auto simp: tbl_remove_def map_erase_def split: option.splits)
  moreover have "table_ok (transaction_table d) \<longrightarrow> table_ok t" using tbl_remove_ok [OF t(1)] by blast
  ultimately show ?case using Cons.IH [OF t(2)] by (auto simp: conj_commute)
qed

lemma clear_expired_grows: "yields (clear_expired_transactions d) (grows d)"
proof (rule yieldsI)
  fix e assume c: "clear_expired_transactions d = Inr e"
  define ps where "ps = takeWhile (\<lambda>p. head_block_time d > txo_expiration (snd p)) (by_expiration d)"
  have ps: "\<forall>p\<in>set ps. txo_expiration (snd p) < head_block_time d \<and> p \<in> set (rows (transaction_table d))"
    by (auto simp: ps_def by_expiration_def tbl_sorted_def dest: set_takeWhileD)
  obtain t where t: "e = d\<lparr>transaction_table := t\<rparr>" "rows t = filter (\<lambda>p. fst p \<notin> fst ` set ps) (rows (transaction_table d))"
      "table_ok (transaction_table d) \<longrightarrow> table_ok t"
    using remove_rows [of ps d e] c by (auto simp: clear_expired_transactions_def ps_def)
  have "grows d (d\<lparr>transaction_table := t\<rparr>)"
  proof (rule table_grows, intro conjI ballI)
    fix p assume ok: "table_ok (transaction_table d)" and p: "p \<in> set (rows (transaction_table d))"
    have "p \<in> set ps" if "q \<in> set ps" "fst p = fst q" for q
      using ok p that ps eq_key_imp_eq_value [of "rows (transaction_table d)" "fst p" "snd p" "snd q"]
      by (cases p; cases q) (auto simp: table_ok_def)
    then show "p \<in> set (rows t) \<or> txo_expiration (snd p) < head_block_time d" using p ps t(2) by auto
  qed (use t(3) in simp)
  then show "grows d e" using t(1) by simp
qed

section \<open>What a block does to the block state\<close>

lemma header_extension_head: "same_head d e \<Longrightarrow> yields (header_extension n x e) (same_head d)"
  unfolding header_extension_def by (cases x; simp only: block_header_extension.case) (intro head_wp wp; assumption)+

lemma open_block_head: "yields (open_block E skip b d) (head_snd d)"
  unfolding open_block_def process_header_extensions_def
  by (intro head_wp wp header_extension_head) (auto simp: same_clock_def)

lemma open_block_header:
  "open_block E skip b d = Inr r \<Longrightarrow> head_block_id d = previous b \<and> head_block_time d < timestamp b"
  by (auto simp: open_block_def validate_block_header_def)

lemma missed_blocks_head: "same_head d e \<Longrightarrow> yields (efold (missed_block b) xs e) (same_head d)"
  unfolding missed_block_def by (intro head_wp wp) auto

lemma fill_slots: "\<exists>p r. fold fill_slot xs g = g\<lparr>gpo_participation_count := p, gpo_recent_slots_filled := r\<rparr>"
proof (induction xs arbitrary: g)
  case Nil
  show ?case by (rule exI [of _ "gpo_participation_count g"], rule exI [of _ "gpo_recent_slots_filled g"]) simp
next
  case (Cons x xs)
  from Cons.IH [of "fill_slot x g"] show ?case by (auto simp: fill_slot_def Let_def)
qed

lemma fill_slots_irreversible: "gpo_last_irreversible_block_num (fold fill_slot xs g) = gpo_last_irreversible_block_num g"
  using fill_slots [of xs g] by auto

text \<open>\<open>advanced E b d e\<close>: from \<open>d\<close> to \<open>e\<close> the head became the block \<open>b\<close>.\<close>

definition advanced :: "chain_env \<Rightarrow> signed_block \<Rightarrow> database \<Rightarrow> database \<Rightarrow> bool" where
  "advanced E b d e \<longleftrightarrow> ages d e \<and> head_block_time e = timestamp b
     \<and> head_block_num e = block_num (env_crypto E) b \<and> head_block_id e = block_id (env_crypto E) b"

lemma update_global_advanced:
  assumes "head_block_time d < timestamp b"
  shows "yields (update_global_dynamic_data E max_undo skip b d)
    (\<lambda>e. advanced E b d e \<and> gpo_last_irreversible_block_num (gpo e) = gpo_last_irreversible_block_num (gpo d))"
proof -
  have *: "advanced E b d (e\<lparr>gpo := (fold fill_slot xs (gpo e))\<lparr>gpo_head_block_number := block_num (env_crypto E) b,
        gpo_head_block_id := block_id (env_crypto E) b, gpo_time := timestamp b, gpo_current_aslot := a\<rparr>\<rparr>)
      \<and> gpo_last_irreversible_block_num (fold fill_slot xs (gpo e)) = gpo_last_irreversible_block_num (gpo d)"
    if "same_head d e" for e xs a
    using that assms
    by (auto simp: advanced_def ages_def same_head_def head_block_time_def head_block_num_def head_block_id_def fill_slots_irreversible)
  show ?thesis unfolding update_global_dynamic_data_def
  proof (rule yields_seq [where P = "head_snd d"])
    show "yields (if head_block_time d \<noteq> 0 then
        let slot = get_slot_at_time (timestamp b) d in
        require (slot \<noteq> 0) (ebind (efold (missed_block b) [0..<unat (slot - 1)] d) (\<lambda>d. Inr (slot - 1, d)))
      else Inr (0, d)) (head_snd d)"
      by (intro head_wp wp missed_blocks_head) auto
  qed (intro wp; use * in simp)
qed

lemma apply_block_start_advanced:
  assumes "env_ok E"
  shows "yields (apply_block_start E producing max_undo skip b d) (\<lambda>e. advanced E b d e \<and> previous b = head_block_id d
    \<and> head_block_time d < timestamp b \<and> gpo_last_irreversible_block_num (gpo e) = gpo_last_irreversible_block_num (gpo d))"
proof -
  have step: "yields (ebind (update_global_dynamic_data E max_undo skip b e) (update_signing_witness E i b))
      (\<lambda>e. advanced E b d e \<and> gpo_last_irreversible_block_num (gpo e) = gpo_last_irreversible_block_num (gpo d))"
    if "grows d e" "head_block_time d < timestamp b" for e i
  proof (rule yields_seq [OF update_global_advanced])
    show "head_block_time e < timestamp b" using that by (simp add: grows_def same_block_def)
    fix e1 assume e1: "advanced E b e e1 \<and> gpo_last_irreversible_block_num (gpo e1) = gpo_last_irreversible_block_num (gpo e)"
    have "yields (update_signing_witness E i b e1) (same_head e1)"
      unfolding update_signing_witness_def by (intro head_wp wp) simp
    moreover have "ages d x" if "same_head e1 x" for x
      using \<open>grows d e\<close> e1 same_head_ages [OF that] by (auto simp: grows_def advanced_def intro: ages_trans)
    ultimately show "yields (update_signing_witness E i b e1)
        (\<lambda>e. advanced E b d e \<and> gpo_last_irreversible_block_num (gpo e) = gpo_last_irreversible_block_num (gpo d))"
      using e1 that(1) by (elim yields_mono) (simp add: advanced_def grows_def same_block_def same_head_def)
  qed
  have txs: "yields (efold (apply_transaction E producing skip) ts e) (grows d)" if "same_head d e" for e ts
    using same_head_grows [OF that] by (rule yields_efold) (blast intro: yields_mono [OF apply_transaction_grows [OF assms]] grows_trans)
  show ?thesis
  proof (rule yieldsI)
    fix e assume "apply_block_start E producing max_undo skip b d = Inr e"
    then obtain i d1 d2 where o: "open_block E skip b d = Inr (i, d1)"
      and t: "efold (apply_transaction E producing skip) (transactions b) d1 = Inr d2"
      and u: "ebind (update_global_dynamic_data E max_undo skip b d2) (update_signing_witness E i b) = Inr e"
      by (auto simp: apply_block_start_def)
    have h: "head_block_id d = previous b" "head_block_time d < timestamp b" using open_block_header [OF o] by auto
    have "same_head d d1" using yieldsD [OF open_block_head o] by simp
    then have "grows d d2" using yieldsD [OF txs t] by simp
    from yieldsD [OF step [OF this h(2)] u] h
    show "advanced E b d e \<and> previous b = head_block_id d
      \<and> head_block_time d < timestamp b \<and> gpo_last_irreversible_block_num (gpo e) = gpo_last_irreversible_block_num (gpo d)" by simp
  qed
qed

lemma create_block_summary_grows: "yields (create_block_summary E b d) (grows d)"
  unfolding create_block_summary_def
  by (intro wp) (auto simp: grows_def ages_def same_block_def head_block_time_def head_block_num_def head_block_id_def)

lemma apply_block_finish_grows: "yields (apply_block_finish E b d) (grows d)"
proof -
  have c: "yields (ebind m f) (grows e)" if "yields m (grows e)" "\<And>e'. yields (f e') (grows e')" for m f e
    using that by (blast intro: yields_seq yields_mono grows_trans)
  have h: "yields m (grows e)" if "yields m (same_head e)" for m e
    using that same_head_grows by (rule yields_mono)
  show ?thesis unfolding apply_block_finish_def
    by (intro c h create_block_summary_grows clear_expired_grows update_witness_schedule_head clear_null_head process_funds_head
      process_comment_cashout_head process_vesting_withdrawals_head process_hardforks_head same_head_refl)
qed

lemma advance_irreversible_head:
  "yields (advance_irreversible d) (\<lambda>e. ages d e \<and> head_block_time e = head_block_time d \<and> head_block_num e = head_block_num d
     \<and> head_block_id e = head_block_id d)"
  unfolding advance_irreversible_def
  by (intro wp) (auto simp: Let_def ages_def head_block_time_def head_block_num_def head_block_id_def)

lemma apply_block_advanced:
  assumes "env_ok E"
  shows "yields (apply_block_state E producing max_undo skip b d)
    (\<lambda>e. advanced E b d e \<and> previous b = head_block_id d \<and> head_block_time d < timestamp b)"
  unfolding apply_block_state_def
  by (rule yields_seq [OF apply_block_start_advanced [OF assms]], rule yields_seq [OF advance_irreversible_head],
      rule yields_mono [OF apply_block_finish_grows])
     (auto simp: advanced_def grows_def same_block_def intro: ages_trans)

section \<open>A transaction is applied at most once\<close>

text \<open>
  The steps of the chain state between two undos: a transaction is applied, on its own or in a block.
\<close>

inductive chain_step :: "chain_env \<Rightarrow> database \<Rightarrow> database \<Rightarrow> bool" for E where
  step_transaction: "apply_transaction E producing skip trx d = Inr d' \<Longrightarrow> chain_step E d d'"
| step_block: "apply_block_state E producing max_undo skip b d = Inr d' \<Longrightarrow> chain_step E d d'"

inductive_cases chain_stepE: "chain_step E d d'"

lemma chain_step_ages: "chain_step E d e \<Longrightarrow> env_ok E \<Longrightarrow> ages d e"
  by (elim chain_stepE) (auto simp: grows_def advanced_def dest: yieldsD [OF apply_transaction_grows] yieldsD [OF apply_block_advanced])

lemma chain_steps_ages: "(chain_step E)\<^sup>*\<^sup>* d e \<Longrightarrow> env_ok E \<Longrightarrow> ages d e"
  by (induction rule: rtranclp_induct) (auto intro: ages_refl ages_trans chain_step_ages)

definition listed :: "chain_env \<Rightarrow> signed_transaction \<Rightarrow> database \<Rightarrow> bool" where
  "listed E trx d \<longleftrightarrow> (\<exists>p\<in>set (rows (transaction_table d)). txo_trx_id (snd p) = transaction_id (env_crypto E) trx
     \<and> txo_expiration (snd p) = expiration trx)"

lemma applied_is_listed:
  assumes "env_ok E" "apply_transaction E producing skip trx d = Inr e" "\<not> has_flag skip skip_transaction_dupe_check"
  shows "listed E trx e"
proof -
  obtain d1 where r: "record_transaction E skip trx d = Inr d1" and o: "efold (apply_operation E producing) (operations trx) d1 = Inr e"
    using assms(2) by (auto simp: apply_transaction_def)
  have "listed E trx d1" using r assms(3)
    by (auto simp: record_transaction_def listed_def tbl_create_def set_insort_key split: if_splits)
  moreover have "same_head d1 e" using o same_head_refl
    by (rule efold_related) (blast intro: same_head_trans yieldsD [OF apply_operation_head [OF assms(1)]])
  ultimately show ?thesis by (simp add: listed_def same_head_def)
qed

lemma listed_is_known: "listed E trx d \<Longrightarrow> is_known_transaction (transaction_id (env_crypto E) trx) d"
  by (force simp: listed_def is_known_transaction_def tbl_find_by_def find_None_iff)

lemma known_is_rejected:
  "is_known_transaction (transaction_id (env_crypto E) trx) d \<Longrightarrow> \<not> has_flag skip skip_transaction_dupe_check
    \<Longrightarrow> apply_transaction E producing skip trx d \<noteq> Inr e"
  by (auto simp: apply_transaction_def apply_transaction_checks_def)

lemma expired_is_rejected:
  "expiration trx < head_block_time d \<Longrightarrow> head_block_num d > 0 \<Longrightarrow> apply_transaction E producing skip trx d \<noteq> Inr e"
  by (auto simp: apply_transaction_def apply_transaction_checks_def check_expiration_def Let_def not_le not_less)

text \<open>
  (C4) A transaction is applied at most once: once it has been applied with the check for
  duplicates, then after any number of further transactions and blocks every attempt to apply it
  again with that check throws, whatever else is skipped, because the transaction is either still
  listed or has expired.
\<close>

theorem no_replay:
  assumes "env_ok E" "apply_transaction E producing skip trx d = Inr d1" "(chain_step E)\<^sup>*\<^sup>* d1 d2"
    and "table_ok (transaction_table d)" "head_block_num d2 > 0"
    and "\<not> has_flag skip skip_transaction_dupe_check" "\<not> has_flag skip' skip_transaction_dupe_check"
  shows "\<exists>e. apply_transaction E producing' skip' trx d2 = Inl e"
proof -
  have "ages d d1" using yieldsD [OF apply_transaction_grows [OF assms(1)] assms(2)] by (simp add: grows_def)
  then have "table_ok (transaction_table d1)" using assms(4) by (simp add: ages_def)
  then have "listed E trx d2 \<or> expiration trx < head_block_time d2"
    using chain_steps_ages [OF assms(3,1)] applied_is_listed [OF assms(1,2,6)] by (fastforce simp: ages_def listed_def)
  then have "apply_transaction E producing' skip' trx d2 \<noteq> Inr e" for e
    using known_is_rejected [OF listed_is_known] expired_is_rejected assms(5,7) by blast
  then show ?thesis by (cases "apply_transaction E producing' skip' trx d2") auto
qed

section \<open>The last irreversible block\<close>

lemma length_filter_mono: "(\<And>x. P x \<Longrightarrow> Q x) \<Longrightarrow> length (filter P xs) \<le> length (filter Q xs)"
  by (induction xs) auto

lemma nth_sort_count:
  assumes "k < length xs"
  shows "length xs - k \<le> length (filter (\<lambda>x. f (sort_key f xs ! k) \<le> f x) xs)"
proof -
  let ?ys = "sort_key f xs"
  have "f (?ys ! k) \<le> f (?ys ! i)" if "k \<le> i" "i < length xs" for i
    using sorted_nth_mono [OF sorted_sort_key [of f xs], of k i] that assms by simp
  then have "filter (\<lambda>x. f (?ys ! k) \<le> f x) (drop k ?ys) = drop k ?ys"
    by (intro filter_True) (auto simp: in_set_conv_nth)
  then have "length xs - k \<le> length (filter (\<lambda>x. f (?ys ! k) \<le> f x) (take k ?ys @ drop k ?ys))"
    by (metis filter_append le_add2 length_append length_drop length_sort)
  also have "\<dots> = length (filter (\<lambda>x. f (?ys ! k) \<le> f x) xs)"
    by (metis append_take_drop_id mset_filter mset_sort size_mset)
  finally show ?thesis .
qed

definition set_irreversible :: "u32 \<Rightarrow> database \<Rightarrow> database" where
  "set_irreversible n d =
     (if n > gpo_last_irreversible_block_num (gpo d) then d\<lparr>gpo := (gpo d)\<lparr>gpo_last_irreversible_block_num := n\<rparr>\<rparr> else d)"

lemma advance_irreversible_voting:
  assumes "advance_irreversible d = Inr d'" "head_block_num d \<ge> 30"
  obtains ws where "scheduled_witnesses d = Inr ws" "ws \<noteq> []" "d' = set_irreversible (ucast (wit_last_confirmed_block_num
       (sort_key wit_last_confirmed_block_num ws ! irreversible_offset (length ws)))) d"
proof -
  have "\<not> head_block_num d < 30" using assms(2) by (simp add: not_less)
  with assms(1) obtain ws where ws: "scheduled_witnesses d = Inr ws" and r: "(if ws = [] then Inl out_of_range else
      Inr (set_irreversible (ucast (wit_last_confirmed_block_num
        (sort_key wit_last_confirmed_block_num ws ! irreversible_offset (length ws)))) d)) = Inr d'"
    unfolding advance_irreversible_def Let_def set_irreversible_def by (simp only: if_False ebind_eq_Inr) blast
  have "ws \<noteq> []" using r by (cases "ws = []") simp_all
  with r show thesis using that [OF ws] by (simp only: if_False sum.inject) blast
qed


section \<open>The transactions of a block conserve value\<close>

lemma gpo_quiet:
  assumes "gpo_current_supply g = gpo_current_supply (gpo e)" "gpo_total_vesting_fund_steem g = gpo_total_vesting_fund_steem (gpo e)"
    "gpo_total_reward_fund_steem g = gpo_total_reward_fund_steem (gpo e)" "gpo_total_vesting_shares g = gpo_total_vesting_shares (gpo e)"
    "gpo_pending_rewarded_vesting_steem g = gpo_pending_rewarded_vesting_steem (gpo e)"
    "gpo_pending_rewarded_vesting_shares g = gpo_pending_rewarded_vesting_shares (gpo e)"
  shows "quiet e (e\<lparr>gpo := g\<rparr>)"
  using assms by (simp add: quiet_def same_money_def same_proxies_def rows_rel_refl wf_db_def ledger_def gpo_ok_def)

lemma keeps_seq: "yields m (keeps d) \<Longrightarrow> (\<And>e. yields (f e) (keeps e)) \<Longrightarrow> yields (ebind m f) (keeps d)"
  by (blast intro: yields_seq yields_mono keeps_trans)

lemma keeps_efold: "(\<And>x e. x \<in> set xs \<Longrightarrow> yields (f x e) (keeps e)) \<Longrightarrow> yields (efold f xs d) (keeps d)"
  by (rule yields_efold) (auto intro: yields_mono keeps_trans)

lemma quiet_tables [simp]:
  "quiet d (e\<lparr>transaction_table := t\<rparr>) = quiet d e"
  "quiet d (push_virtual_operation v e) = quiet d e"
  by (simp_all add: quiet_def same_money_def same_proxies_def wf_db_def ledger_def push_virtual_operation_def)

lemma header_extension_quiet: "quiet d e \<Longrightarrow> yields (header_extension n x e) (quiet d)"
  unfolding header_extension_def by (cases x; simp only: block_header_extension.case) (intro quiet_wp wp; assumption)+

lemma open_block_keeps: "yields (open_block E skip b d) (\<lambda>(i, e). keeps d e)"
proof (rule yieldsI)
  fix r assume "open_block E skip b d = Inr r"
  then obtain e where p: "process_header_extensions b (d\<lparr>gpo := (gpo d)\<lparr>gpo_current_witness := witness b\<rparr>\<rparr>) = Inr e" and r: "snd r = e"
    by (auto simp: open_block_def modify_gpo_def)
  have g: "quiet d (d\<lparr>gpo := (gpo d)\<lparr>gpo_current_witness := witness b\<rparr>\<rparr>)" by (rule gpo_quiet) simp_all
  have "quiet d e" using yieldsD [OF quiet_efold [OF g header_extension_quiet] p [unfolded process_header_extensions_def]] .
  with r show "case r of (i, e) \<Rightarrow> keeps d e" using quiet_keeps by (cases r) auto
qed

lemma transaction_validate_operations:
  assumes "transaction_validate F trx = Inr ()" "op \<in> set (operations trx)"
  shows "operation_validate F op = Inr ()"
proof -
  have "\<forall>op\<in>set ops. operation_validate F op = Inr ()" if "efold (\<lambda>op _. operation_validate F op) ops u = Inr ()" for ops u
    using that by (induction ops arbitrary: u) auto
  then show ?thesis using assms by (auto simp: transaction_validate_def)
qed

lemma apply_transaction_keeps:
  assumes "env_ok E" "\<not> has_flag skip skip_validate"
  shows "yields (apply_transaction E producing skip trx d) (keeps d)"
proof (rule yieldsI)
  fix e assume a: "apply_transaction E producing skip trx d = Inr e"
  then obtain d1 where v: "transaction_validate (env_fc E) trx = Inr ()" and r: "record_transaction E skip trx d = Inr d1"
    and o: "efold (apply_operation E producing) (operations trx) d1 = Inr e"
    using assms(2) by (auto simp: apply_transaction_def apply_transaction_checks_def)
  have F: "fc_env (env_fc E)" using assms(1) by (intro fc_env.intro) (simp add: env_ok_def)
  have "quiet d d1" using r by (auto simp: record_transaction_def split: if_splits)
  moreover have "keeps d1 e"
    by (rule yieldsD [OF keeps_efold o])
       (rule fc_env.apply_operation_keeps [OF F refl assms(1) transaction_validate_operations [OF v]])
  ultimately show "keeps d e" using quiet_keeps keeps_trans by blast
qed

lemma update_global_keeps: "yields (update_global_dynamic_data E max_undo skip b d) (keeps d)"
proof -
  have missed: "yields (efold (missed_block b) xs d) (quiet d)" for xs
    unfolding missed_block_def by (intro quiet_wp wp) auto
  have same: "quiet d (f\<lparr>gpo := (fold fill_slot xs (gpo f))\<lparr>gpo_head_block_number := n, gpo_head_block_id := i, gpo_time := t, gpo_current_aslot := a\<rparr>\<rparr>)"
    if "quiet d f" for f xs n i t a
    using fill_slots [of xs "gpo f"] by (elim exE) (auto intro!: quiet_trans [OF that] gpo_quiet)
  have "yields (update_global_dynamic_data E max_undo skip b d) (quiet d)"
    unfolding update_global_dynamic_data_def
  proof (rule yields_seq [where P = "\<lambda>(_, e). quiet d e"])
    show "yields (if head_block_time d \<noteq> 0 then
        let slot = get_slot_at_time (timestamp b) d in
        require (slot \<noteq> 0) (ebind (efold (missed_block b) [0..<unat (slot - 1)] d) (\<lambda>d. Inr (slot - 1, d)))
      else Inr (0, d)) (\<lambda>(_, e). quiet d e)"
      using missed by (intro wp) (auto dest: yieldsD)
  qed (intro wp; use same in simp)
  then show ?thesis by (rule quiet_yields_keeps)
qed

text \<open>
  (C2) The transactions of a block neither create nor destroy value: applying a block, up to the
  point where the payments of the block start, keeps the database well-formed, the account names
  unique, the proxies without a cycle and the supply equations true, whatever transactions and
  operations of all kinds the block has.
\<close>

theorem transactions_conserve_value:
  assumes "env_ok E" "\<not> has_flag skip skip_validate" "apply_block_start E producing max_undo skip b d = Inr d'"
    and "chain_ok d" "balanced (ledger d)"
  shows "chain_ok d' \<and> balanced (ledger d')"
proof -
  obtain i d1 d2 d3 where o: "open_block E skip b d = Inr (i, d1)"
    and t: "efold (apply_transaction E producing skip) (transactions b) d1 = Inr d2"
    and u: "update_global_dynamic_data E max_undo skip b d2 = Inr d3" and w: "update_signing_witness E i b d3 = Inr d'"
    using assms(3) by (auto simp: apply_block_start_def)
  have "yields (update_signing_witness E i b d3) (quiet d3)"
    unfolding update_signing_witness_def by (intro quiet_wp wp) simp
  then have 3: "keeps d3 d'" using yieldsD [OF quiet_yields_keeps w] by blast
  have 0: "keeps d d1" using yieldsD [OF open_block_keeps o] by simp
  have 1: "keeps d1 d2" by (rule yieldsD [OF keeps_efold t]) (rule apply_transaction_keeps [OF assms(1,2)])
  have 2: "keeps d2 d3" by (rule yieldsD [OF update_global_keeps u])
  show ?thesis using keeps_trans [OF keeps_trans [OF 0 1] keeps_trans [OF 2 3]] assms(4,5) by (simp add: keeps_def)
qed

section \<open>A concrete block\<close>

definition sample_env :: chain_env where
  "sample_env = \<lparr>env_fc = fc_int64, env_crypto = sample_crypto,
     env_raw = \<lparr>raw_pack = (\<lambda>_. []), raw_unpack = (\<lambda>_. None)\<rparr>, env_text = \<lparr>dmp_patch = (\<lambda>a b. None), prune_invalid_utf8 = (\<lambda>s. s)\<rparr>,
     env_json = (\<lambda>_. None), env_binary = (\<lambda>_. None), env_chain_id = []\<rparr>"

definition sample_chain :: database where
  "sample_chain = sample_db\<lparr>gpo := (gpo sample_db)\<lparr>gpo_maximum_block_size := 300\<rparr>,
     block_summaries := \<lparr>rows = [(0, \<lparr>bso_block_id = null_id\<rparr>), (1, \<lparr>bso_block_id = null_id\<rparr>)], next_row_id = 2\<rparr>\<rparr>"

definition sample_transaction :: signed_transaction where
  "sample_transaction = \<lparr>ref_block_num = 0, ref_block_prefix = 0, expiration = 200,
     operations = [Transfer \<lparr>tro_from = ''alice'', tro_to = ''bob'', tro_amount = WLS 300, tro_memo = []\<rparr>],
     trx_extensions = [], signatures = []\<rparr>"

definition sample_block :: signed_block where
  "sample_block = \<lparr>previous = null_id, timestamp = 103, witness = ''wls'', transaction_merkle_root = replicate 5 200,
     extensions = [], witness_signature = 0, transactions = [sample_transaction]\<rparr>"

lemma sample_env_ok: "env_ok sample_env"
  by (simp add: env_ok_def sample_env_def fc_ok_int64)

lemma sample_chain_ok: "chain_ok sample_chain" "balanced (ledger sample_chain)"
  using sample_wf sample_proxy_ok sample_balanced
  by (simp_all add: chain_ok_def sample_chain_def wf_db_def gpo_ok_def proxy_ok_def unique_names_def proxies_def ledger_def)

lemma sample_start: "\<exists>d'. apply_block_start sample_env False 10000 0x263 sample_block sample_chain = Inr d'"
proof -
  have "\<not> isl (apply_block_start sample_env False 10000 0x263 sample_block sample_chain)" by code_simp
  then show ?thesis by (cases "apply_block_start sample_env False 10000 0x263 sample_block sample_chain") auto
qed

theorem transactions_conserve_value_witness:
  "\<exists>d'. apply_block_start sample_env False 10000 0x263 sample_block sample_chain = Inr d' \<and> balanced (ledger d')"
proof -
  have "\<not> has_flag 0x263 skip_validate" by (simp add: has_flag_def)
  with sample_start transactions_conserve_value [OF sample_env_ok _ _ sample_chain_ok] show ?thesis by blast
qed

definition sample_other :: signed_transaction where
  "sample_other = sample_transaction\<lparr>operations := operations sample_transaction @ operations sample_transaction\<rparr>"

theorem no_replay_witness:
  "\<exists>d1 d2 e. apply_transaction sample_env False 0x263 sample_transaction sample_chain = Inr d1
    \<and> apply_transaction sample_env False 0x263 sample_other d1 = Inr d2
    \<and> apply_transaction sample_env True 0x63 sample_transaction d2 = Inl e"
proof -
  have "\<not> isl (ebind (apply_transaction sample_env False 0x263 sample_transaction sample_chain)
      (apply_transaction sample_env False 0x263 sample_other))" by code_simp
  then obtain d1 d2 where d1: "apply_transaction sample_env False 0x263 sample_transaction sample_chain = Inr d1"
    and d2: "apply_transaction sample_env False 0x263 sample_other d1 = Inr d2"
    by (cases "ebind (apply_transaction sample_env False 0x263 sample_transaction sample_chain)
      (apply_transaction sample_env False 0x263 sample_other)") auto
  have "table_ok (transaction_table sample_chain)" by (simp add: sample_chain_def sample_simps table_ok_def empty_table_def)
  moreover have "grows sample_chain d2"
    using yieldsD [OF apply_transaction_grows [OF sample_env_ok] d1] yieldsD [OF apply_transaction_grows [OF sample_env_ok] d2] grows_trans by blast
  then have "head_block_num d2 > 0" by (simp add: grows_def same_block_def sample_chain_def sample_simps head_block_num_def)
  moreover have "\<not> has_flag 0x263 skip_transaction_dupe_check" "\<not> has_flag 0x63 skip_transaction_dupe_check" by (simp_all add: has_flag_def)
  ultimately show ?thesis using no_replay [OF sample_env_ok d1 r_into_rtranclp [of "chain_step sample_env", OF step_transaction [OF d2]]] d1 d2 by blast
qed


end
