(* ===== verification/Fork_Database.thy ===== *)
theory Fork_Database
  imports Transaction
begin

text \<open>
  The fork database (\<open>fork_database.cpp\<close>, \<open>fork_database.hpp\<close>): the tree of the recent blocks, of
  which the chain state follows one branch.

  Items are shared objects: the index and the head own them, an item refers to its predecessor by a
  weak pointer.  The model gives every item an address that is never used again; the weak pointer
  is the address of the predecessor, and \<open>lock\<close> finds it among the items that somebody owns: the
  indices, the head, or \<open>fdb_held\<close>, the branches that a caller holds.  The hashed index by id and
  the index ordered by number are views of one list in the order of insertion.

  Loops along the weak pointers have fuel; addresses decrease along them, so that the address of the
  start suffices.

  The lemmas show that every operation keeps the tree well-formed, that the two branches of
  \<open>fetch_branch_from\<close> are exactly the blocks since the fork, and that the search for them ends.
\<close>

section \<open>Items\<close>

record fork_item =
  fi_addr :: nat
  fi_prev :: "nat option"
  fi_num :: u32
  fi_invalid :: bool
  fi_id :: block_id_type
  fi_data :: signed_block

definition previous_id :: "fork_item \<Rightarrow> block_id_type" where
  "previous_id i = previous (fi_data i)"

record fork_database =
  fdb_max_size :: u32
  fdb_unlinked :: "fork_item list"
  fdb_index :: "fork_item list"
  fdb_head :: "fork_item option"
  fdb_held :: "fork_item list"
  fdb_next :: nat

definition new_fork_database :: fork_database where
  "new_fork_database = \<lparr>fdb_max_size = 1024, fdb_unlinked = [], fdb_index = [], fdb_head = None, fdb_held = [], fdb_next = 0\<rparr>"

definition make_item :: "fc_crypto \<Rightarrow> signed_block \<Rightarrow> fork_database \<Rightarrow> fork_item \<times> fork_database" where
  "make_item C b f = (\<lparr>fi_addr = fdb_next f, fi_prev = None, fi_num = block_num C b, fi_invalid = False,
     fi_id = block_id C b, fi_data = b\<rparr>, f\<lparr>fdb_next := fdb_next f + 1\<rparr>)"

definition owned :: "fork_database \<Rightarrow> fork_item list" where
  "owned f = fdb_index f @ fdb_unlinked f @ (case fdb_head f of None \<Rightarrow> [] | Some h \<Rightarrow> [h]) @ fdb_held f"

definition lock :: "fork_database \<Rightarrow> nat option \<Rightarrow> fork_item option" where
  "lock f w = (case w of None \<Rightarrow> None | Some a \<Rightarrow> find (\<lambda>i. fi_addr i = a) (owned f))"

definition find_item :: "block_id_type \<Rightarrow> fork_item list \<Rightarrow> fork_item option" where
  "find_item i idx = find (\<lambda>x. fi_id x = i) idx"

text \<open>The index is unique by id: inserting an item whose id is present does nothing.\<close>

definition insert_item :: "fork_item \<Rightarrow> fork_item list \<Rightarrow> fork_item list" where
  "insert_item i idx = (if find_item (fi_id i) idx = None then idx @ [i] else idx)"

section \<open>Operations\<close>

definition fork_reset :: "fork_database \<Rightarrow> fork_database" where
  "fork_reset f = f\<lparr>fdb_head := None, fdb_index := []\<rparr>"

definition fork_pop_block :: "fork_database \<Rightarrow> fork_database result" where
  "fork_pop_block f = (case fdb_head f of
       None \<Rightarrow> Inl assert_exception
     | Some h \<Rightarrow> (case lock f (fi_prev h) of
         None \<Rightarrow> Inl assert_exception
       | Some p \<Rightarrow> Inr (f\<lparr>fdb_head := Some p\<rparr>)))"

definition start_block :: "fc_crypto \<Rightarrow> signed_block \<Rightarrow> fork_database \<Rightarrow> fork_database" where
  "start_block C b f = (let (item, f) = make_item C b f in
     f\<lparr>fdb_index := insert_item item (fdb_index f), fdb_head := Some item\<rparr>)"

definition link_item :: "fork_item \<Rightarrow> fork_database \<Rightarrow> fork_item result" where
  "link_item item f =
     (if fdb_head f \<noteq> None \<and> previous_id item \<noteq> null_id then
        (case find_item (previous_id item) (fdb_index f) of
           None \<Rightarrow> Inl unlinkable_block_exception
         | Some p \<Rightarrow> require (\<not> fi_invalid p) (Inr (item\<lparr>fi_prev := Some (fi_addr p)\<rparr>)))
      else Inr item)"

definition push_item :: "fork_item \<Rightarrow> fork_database \<Rightarrow> fork_database result" where
  "push_item item f =
     ebind (case fdb_head f of
              None \<Rightarrow> Inr ()
            | Some h \<Rightarrow> require (uint (fi_num item) > max 0 (uint (fi_num h) - uint (fdb_max_size f))) (Inr ())) (\<lambda>_.
     ebind (link_item item f) (\<lambda>item.
     let f = f\<lparr>fdb_index := insert_item item (fdb_index f)\<rparr> in
     Inr (case fdb_head f of
            None \<Rightarrow> f\<lparr>fdb_head := Some item\<rparr>
          | Some h \<Rightarrow> if fi_num item > fi_num h then f\<lparr>fdb_head := Some item\<rparr> else f)))"

text \<open>
  The handler of \<open>unlinkable_block_exception\<close> throws again before it would cache the item, so that
  the result is that of \<open>_push_block\<close>.
\<close>

definition fork_push_block :: "fc_crypto \<Rightarrow> signed_block \<Rightarrow> fork_database \<Rightarrow> (fork_item option \<times> fork_database) result" where
  "fork_push_block C b f = (let (item, f) = make_item C b f in
     ebind (push_item item f) (\<lambda>f. Inr (fdb_head f, f)))"

text \<open>Every round takes an item out of the unlinked index, whose length is the fuel.\<close>

primrec push_next_loop :: "nat \<Rightarrow> fork_item \<Rightarrow> fork_database \<Rightarrow> fork_database result" where
  "push_next_loop 0 new_item f = Inr f"
| "push_next_loop (Suc n) new_item f =
     (case find (\<lambda>x. previous_id x = fi_id new_item) (fdb_unlinked f) of
        None \<Rightarrow> Inr f
      | Some tmp \<Rightarrow>
          ebind (push_item tmp (f\<lparr>fdb_unlinked := filter (\<lambda>x. fi_addr x \<noteq> fi_addr tmp) (fdb_unlinked f)\<rparr>)) (push_next_loop n new_item))"

definition push_next :: "fork_item \<Rightarrow> fork_database \<Rightarrow> fork_database result" where
  "push_next new_item f = push_next_loop (length (fdb_unlinked f)) new_item f"

text \<open>Erasing from the front of the index ordered by number.\<close>

definition erase_below :: "int \<Rightarrow> fork_item list \<Rightarrow> fork_item list" where
  "erase_below bound idx =
     (let old = takeWhile (\<lambda>i. uint (fi_num i) < bound) (sort_key fi_num idx)
      in filter (\<lambda>i. fi_addr i \<notin> fi_addr ` set old) idx)"

definition set_max_size :: "u32 \<Rightarrow> fork_database \<Rightarrow> fork_database" where
  "set_max_size s f =
     (let f = f\<lparr>fdb_max_size := s\<rparr> in
      case fdb_head f of
        None \<Rightarrow> f
      | Some h \<Rightarrow>
          let bound = max 0 (uint (fi_num h) - uint (fdb_max_size f))
          in f\<lparr>fdb_index := erase_below bound (fdb_index f), fdb_unlinked := erase_below bound (fdb_unlinked f)\<rparr>)"

definition fork_is_known_block :: "block_id_type \<Rightarrow> fork_database \<Rightarrow> bool" where
  "fork_is_known_block i f \<longleftrightarrow> find_item i (fdb_index f) \<noteq> None \<or> find_item i (fdb_unlinked f) \<noteq> None"

definition fetch_block :: "block_id_type \<Rightarrow> fork_database \<Rightarrow> fork_item option" where
  "fetch_block i f = (case find_item i (fdb_index f) of Some x \<Rightarrow> Some x | None \<Rightarrow> find_item i (fdb_unlinked f))"

definition fork_fetch_by_number :: "u32 \<Rightarrow> fork_database \<Rightarrow> fork_item list" where
  "fork_fetch_by_number num f = filter (\<lambda>i. fi_num i = num) (sort_key fi_num (fdb_index f))"

definition set_head :: "fork_item option \<Rightarrow> fork_database \<Rightarrow> fork_database" where
  "set_head h f = f\<lparr>fdb_head := h\<rparr>"

definition fork_remove :: "block_id_type \<Rightarrow> fork_database \<Rightarrow> fork_database" where
  "fork_remove i f = f\<lparr>fdb_index := filter (\<lambda>x. fi_id x \<noteq> i) (fdb_index f)\<rparr>"

section \<open>Branches\<close>

primrec climb :: "fc_crypto \<Rightarrow> fork_database \<Rightarrow> nat \<Rightarrow> u32 \<Rightarrow> fork_item \<Rightarrow> fork_item list \<Rightarrow> (fork_item \<times> fork_item list) result" where
  "climb C f 0 target branch result = Inl nontermination"
| "climb C f (Suc n) target branch result =
     (if block_num C (fi_data branch) > target then
        (case lock f (fi_prev branch) of
           None \<Rightarrow> Inl assert_exception
         | Some p \<Rightarrow> climb C f n target p (result @ [branch]))
      else Inr (branch, result))"

type_synonym branches = "fork_item list \<times> fork_item list"

primrec climb_both :: "fork_database \<Rightarrow> nat \<Rightarrow> fork_item \<Rightarrow> fork_item \<Rightarrow> branches \<Rightarrow> (fork_item \<times> fork_item \<times> branches) result" where
  "climb_both f 0 first_branch second_branch result = Inl nontermination"
| "climb_both f (Suc n) first_branch second_branch result =
     (if previous (fi_data first_branch) \<noteq> previous (fi_data second_branch) then
        let result = (fst result @ [first_branch], snd result @ [second_branch]) in
        (case lock f (fi_prev first_branch) of
           None \<Rightarrow> Inl assert_exception
         | Some p \<Rightarrow> (case lock f (fi_prev second_branch) of
             None \<Rightarrow> Inl assert_exception
           | Some q \<Rightarrow> climb_both f n p q result))
      else Inr (first_branch, second_branch, result))"

definition fetch_branch_from :: "fc_crypto \<Rightarrow> block_id_type \<Rightarrow> block_id_type \<Rightarrow> fork_database \<Rightarrow> branches result" where
  "fetch_branch_from C first second f =
     (case find_item first (fdb_index f) of None \<Rightarrow> Inl assert_exception | Some first_branch \<Rightarrow>
      (case find_item second (fdb_index f) of None \<Rightarrow> Inl assert_exception | Some second_branch \<Rightarrow>
       ebind (climb C f (Suc (fi_addr first_branch)) (block_num C (fi_data second_branch)) first_branch []) (\<lambda>(first_branch, r1).
       ebind (climb C f (Suc (fi_addr second_branch)) (block_num C (fi_data first_branch)) second_branch []) (\<lambda>(second_branch, r2).
       ebind (climb_both f (Suc (fi_addr first_branch)) first_branch second_branch (r1, r2)) (\<lambda>(first_branch, second_branch, result).
       Inr (fst result @ [first_branch], snd result @ [second_branch]))))))"

primrec walk_main_loop :: "fork_database \<Rightarrow> nat \<Rightarrow> u32 \<Rightarrow> fork_item option \<Rightarrow> fork_item option result" where
  "walk_main_loop f 0 num next = Inl nontermination"
| "walk_main_loop f (Suc n) num next = (case next of
       None \<Rightarrow> Inr None
     | Some i \<Rightarrow> if fi_num i > num then walk_main_loop f n num (lock f (fi_prev i)) else Inr (Some i))"

definition walk_main_branch_to_num :: "u32 \<Rightarrow> fork_database \<Rightarrow> fork_item option result" where
  "walk_main_branch_to_num num f = (case fdb_head f of
       None \<Rightarrow> Inl null_pointer
     | Some h \<Rightarrow> if num > fi_num h then Inr None else walk_main_loop f (Suc (Suc (fi_addr h))) num (Some h))"

definition fetch_block_on_main_branch_by_number :: "u32 \<Rightarrow> fork_database \<Rightarrow> fork_item option result" where
  "fetch_block_on_main_branch_by_number num f =
     (case fork_fetch_by_number num f of
        [] \<Rightarrow> Inr None
      | [b] \<Rightarrow> Inr (Some b)
      | _ \<Rightarrow> walk_main_branch_to_num num f)"

section \<open>Well-formed fork databases\<close>

definition item_ok :: "fc_crypto \<Rightarrow> fork_item \<Rightarrow> bool" where
  "item_ok C i \<longleftrightarrow> fi_num i = block_num C (fi_data i) \<and> fi_id i = block_id C (fi_data i)
     \<and> (fi_prev i \<noteq> None \<longrightarrow> fi_num i > 0)"

definition fdb_ok :: "fc_crypto \<Rightarrow> fork_database \<Rightarrow> bool" where
  "fdb_ok C f \<longleftrightarrow>
     (\<forall>x\<in>set (owned f). item_ok C x \<and> fi_addr x < fdb_next f \<and> (\<forall>a. fi_prev x = Some a \<longrightarrow> a < fi_addr x))
   \<and> (\<forall>x\<in>set (owned f). \<forall>y\<in>set (owned f). fi_addr x = fi_addr y \<longrightarrow> x = y)
   \<and> (\<forall>x\<in>set (owned f). \<forall>p\<in>set (owned f). fi_prev x = Some (fi_addr p) \<longrightarrow> fi_id p = previous_id x)
   \<and> distinct (map fi_id (fdb_index f))"

lemma fdb_okD:
  assumes "fdb_ok C f" "x \<in> set (owned f)"
  shows "item_ok C x" "fi_addr x < fdb_next f" "fi_prev x = Some a \<Longrightarrow> a < fi_addr x"
    and "y \<in> set (owned f) \<Longrightarrow> fi_addr x = fi_addr y \<Longrightarrow> x = y"
    and "y \<in> set (owned f) \<Longrightarrow> fi_prev x = Some (fi_addr y) \<Longrightarrow> fi_id y = previous_id x"
  using assms by (auto simp: fdb_ok_def)

lemma owned_index: "x \<in> set (fdb_index f) \<Longrightarrow> x \<in> set (owned f)"
  by (simp add: owned_def)

lemma owned_head: "fdb_head f = Some h \<Longrightarrow> h \<in> set (owned f)"
  by (simp add: owned_def)

lemma find_item_Some: "find_item i idx = Some x \<Longrightarrow> x \<in> set idx \<and> fi_id x = i"
  by (auto simp: find_item_def find_Some_iff)

lemma find_item_None: "find_item i idx = None \<longleftrightarrow> i \<notin> fi_id ` set idx"
  by (auto simp: find_item_def find_None_iff image_iff)

lemma set_insert_item: "set (insert_item i idx) \<subseteq> insert i (set idx)"
  by (auto simp: insert_item_def)

lemma distinct_insert_item: "distinct (map fi_id idx) \<Longrightarrow> distinct (map fi_id (insert_item i idx))"
  by (auto simp: insert_item_def find_item_None)

lemma lock_Some:
  assumes "fdb_ok C f" "x \<in> set (owned f)" "lock f (fi_prev x) = Some p"
  shows "p \<in> set (owned f)" "fi_prev x = Some (fi_addr p)" "fi_id p = previous_id x" "fi_addr p < fi_addr x"
proof -
  obtain a where a: "fi_prev x = Some a" "find (\<lambda>i. fi_addr i = a) (owned f) = Some p"
    using assms(3) by (auto simp: lock_def split: option.splits)
  show p: "p \<in> set (owned f)" and e: "fi_prev x = Some (fi_addr p)" using a by (auto simp: find_Some_iff)
  show "fi_id p = previous_id x" using fdb_okD(5) [OF assms(1,2) p e] .
  show "fi_addr p < fi_addr x" using fdb_okD(3) [OF assms(1,2) e] .
qed

text \<open>The number of a block is one more than that of its predecessor.\<close>

lemma lock_num:
  assumes "crypto_ok C" "fdb_ok C f" "x \<in> set (owned f)" "lock f (fi_prev x) = Some p"
  shows "unat (fi_num x) = unat (fi_num p) + 1"
proof -
  note l = lock_Some [OF assms(2-4)]
  have x: "item_ok C x" and p: "item_ok C p" using fdb_okD(1) [OF assms(2)] assms(3) l(1) by auto
  have "fi_num x = num_from_id C (block_id C (fi_data p)) + 1"
    using x p l(3) by (simp add: item_ok_def block_num_def previous_id_def)
  then have n: "fi_num x = fi_num p + 1" using block_num_of_id [OF assms(1)] p by (simp add: item_ok_def)
  have "fi_num x > 0" using x l(2) unfolding item_ok_def by (metis option.distinct(1))
  then have "fi_num p + 1 \<noteq> 0" using n by auto
  then show ?thesis unfolding n by (metis Suc_eq_plus1 add.commute unatSuc)
qed

section \<open>Every operation keeps the fork database well-formed\<close>

lemma fdb_ok_subset:
  assumes "fdb_ok C f" "set (owned g) \<subseteq> set (owned f)" "fdb_next g = fdb_next f" "distinct (map fi_id (fdb_index g))"
  shows "fdb_ok C g"
  using assms unfolding fdb_ok_def by (simp add: subset_iff)

lemma fork_reset_ok: "fdb_ok C f \<Longrightarrow> fdb_ok C (fork_reset f)"
  by (rule fdb_ok_subset) (auto simp: fork_reset_def owned_def)

lemma fork_pop_ok: "fdb_ok C f \<Longrightarrow> fork_pop_block f = Inr g \<Longrightarrow> fdb_ok C g"
proof -
  assume ok: "fdb_ok C f" and "fork_pop_block f = Inr g"
  then obtain h p where h: "fdb_head f = Some h" "lock f (fi_prev h) = Some p" and g: "g = f\<lparr>fdb_head := Some p\<rparr>"
    by (auto simp: fork_pop_block_def split: option.splits)
  have "p \<in> set (owned f)" using lock_Some(1) [OF ok owned_head [OF h(1)] h(2)] .
  then show "fdb_ok C g" using ok by (intro fdb_ok_subset [OF ok]) (auto simp: g owned_def fdb_ok_def)
qed

lemma set_head_ok: "fdb_ok C f \<Longrightarrow> h \<in> set (owned f) \<Longrightarrow> fdb_ok C (set_head (Some h) f)"
  by (rule fdb_ok_subset) (auto simp: set_head_def owned_def fdb_ok_def)

lemma fork_remove_ok: "fdb_ok C f \<Longrightarrow> fdb_ok C (fork_remove i f)"
  by (rule fdb_ok_subset) (auto simp: fork_remove_def owned_def fdb_ok_def distinct_map_filter)

lemma erase_below_subset:
  "set (erase_below b idx) \<subseteq> set idx" "distinct (map fi_id idx) \<Longrightarrow> distinct (map fi_id (erase_below b idx))"
  by (auto simp: erase_below_def Let_def distinct_map_filter)

lemma set_max_size_ok:
  assumes "fdb_ok C f"
  shows "fdb_ok C (set_max_size s f)"
proof (rule fdb_ok_subset [OF assms])
  show "set (owned (set_max_size s f)) \<subseteq> set (owned f)"
    using erase_below_subset(1) by (fastforce simp: set_max_size_def owned_def Let_def split: option.splits)
  show "distinct (map fi_id (fdb_index (set_max_size s f)))"
    using assms erase_below_subset(2) by (simp add: set_max_size_def fdb_ok_def Let_def split: option.splits)
qed (simp add: set_max_size_def Let_def split: option.splits)

text \<open>A new item whose predecessor, if any, is owned.\<close>

lemma fdb_ok_insert:
  assumes "fdb_ok C f" "set (owned g) \<subseteq> insert i (set (owned f))" "fdb_next g = fdb_next f + 1" "distinct (map fi_id (fdb_index g))"
    and "item_ok C i" "fi_addr i = fdb_next f" "\<And>a. fi_prev i = Some a \<Longrightarrow> \<exists>p\<in>set (owned f). a = fi_addr p \<and> fi_id p = previous_id i"
  shows "fdb_ok C g"
proof -
  have new: "fi_prev x \<noteq> Some (fi_addr i)" "fi_addr x \<noteq> fi_addr i" if "x \<in> set (owned f)" for x
    using fdb_okD(2,3) [OF assms(1) that] assms(6) by (auto dest: less_trans)
  have prev: "a < fi_addr i" "p \<in> set (owned f) \<Longrightarrow> a = fi_addr p \<Longrightarrow> fi_id p = previous_id i" if "fi_prev i = Some a" for a p
    using assms(7) [OF that] fdb_okD(2,4) [OF assms(1)] assms(6) by auto
  have self: "fi_prev i \<noteq> Some (fi_addr i)" using prev(1) by blast
  have all: "x = i \<or> x \<in> set (owned f)" if "x \<in> set (owned g)" for x using assms(2) that by auto
  have "\<forall>x\<in>set (owned g). item_ok C x \<and> fi_addr x < fdb_next g \<and> (\<forall>a. fi_prev x = Some a \<longrightarrow> a < fi_addr x)"
  proof
    fix x assume "x \<in> set (owned g)"
    from all [OF this] show "item_ok C x \<and> fi_addr x < fdb_next g \<and> (\<forall>a. fi_prev x = Some a \<longrightarrow> a < fi_addr x)"
      using assms(3,5,6) fdb_okD(1-3) [OF assms(1)] prev(1) by (elim disjE) (auto simp: less_Suc_eq)
  qed
  moreover have "\<forall>x\<in>set (owned g). \<forall>y\<in>set (owned g). fi_addr x = fi_addr y \<longrightarrow> x = y"
    using all fdb_okD(4) [OF assms(1)] new(2) by metis
  moreover have "\<forall>x\<in>set (owned g). \<forall>p\<in>set (owned g). fi_prev x = Some (fi_addr p) \<longrightarrow> fi_id p = previous_id x"
    using all fdb_okD(5) [OF assms(1)] new(1) prev(2) self by metis
  ultimately show ?thesis using assms(4) by (simp add: fdb_ok_def)
qed

lemma start_block_ok:
  assumes "fdb_ok C f"
  shows "fdb_ok C (start_block C b f)"
proof -
  let ?i = "fst (make_item C b f)"
  have f: "start_block C b f = f\<lparr>fdb_next := fdb_next f + 1, fdb_index := insert_item ?i (fdb_index f), fdb_head := Some ?i\<rparr>"
    by (simp add: start_block_def make_item_def Let_def)
  show ?thesis
  proof (rule fdb_ok_insert [OF assms])
    show "set (owned (start_block C b f)) \<subseteq> insert ?i (set (owned f))"
      using set_insert_item [of ?i "fdb_index f"] by (auto simp: f owned_def)
    show "distinct (map fi_id (fdb_index (start_block C b f)))"
      using assms distinct_insert_item by (simp add: f fdb_ok_def)
  qed (simp_all add: f, simp_all add: make_item_def item_ok_def)
qed

text \<open>What a successful push stores: the item, linked to its predecessor.\<close>

lemma push_item_cases:
  assumes "push_item i f = Inr g"
  obtains j where "link_item i f = Inr j"
    and "g = f\<lparr>fdb_index := insert_item j (fdb_index f),
      fdb_head := (case fdb_head f of None \<Rightarrow> Some j | Some h \<Rightarrow> if fi_num j > fi_num h then Some j else Some h)\<rparr>"
    and "\<forall>h. fdb_head f = Some h \<longrightarrow> uint (fi_num i) > max 0 (uint (fi_num h) - uint (fdb_max_size f))"
proof -
  from assms obtain j where j: "link_item i f = Inr j"
    and g: "(case fdb_head f of None \<Rightarrow> f\<lparr>fdb_index := insert_item j (fdb_index f), fdb_head := Some j\<rparr>
       | Some h \<Rightarrow> if fi_num j > fi_num h then f\<lparr>fdb_index := insert_item j (fdb_index f), fdb_head := Some j\<rparr>
           else f\<lparr>fdb_index := insert_item j (fdb_index f)\<rparr>) = g"
    and n: "\<forall>h. fdb_head f = Some h \<longrightarrow> uint (fi_num i) > max 0 (uint (fi_num h) - uint (fdb_max_size f))"
    unfolding push_item_def Let_def by (auto split: option.split_asm)
  have "g = f\<lparr>fdb_index := insert_item j (fdb_index f),
      fdb_head := (case fdb_head f of None \<Rightarrow> Some j | Some h \<Rightarrow> if fi_num j > fi_num h then Some j else Some h)\<rparr>"
    using g by (auto split: option.splits)
  with j n show thesis by (intro that)
qed

lemma link_item_cases:
  assumes "link_item i f = Inr j"
  shows "(j = i \<and> (fdb_head f = None \<or> previous_id i = null_id))
    \<or> (\<exists>p\<in>set (fdb_index f). fdb_head f \<noteq> None \<and> fi_id p = previous_id i \<and> j = i\<lparr>fi_prev := Some (fi_addr p)\<rparr>)"
  using assms find_item_Some [of "previous_id i" "fdb_index f"]
  by (fastforce simp: link_item_def split: if_splits option.splits)

lemma fork_push_ok:
  assumes "fdb_ok C f" "fork_push_block C b f = Inr (h, g)"
  shows "fdb_ok C g" "fdb_head g = h"
proof -
  define i where "i = fst (make_item C b f)"
  define f' where "f' = f\<lparr>fdb_next := fdb_next f + 1\<rparr>"
  have push: "push_item i f' = Inr g" and "fdb_head g = h"
    using assms(2) by (auto simp: fork_push_block_def make_item_def i_def f'_def Let_def)
  then show "fdb_head g = h" by simp
  obtain j where j: "link_item i f' = Inr j"
    and g: "g = f'\<lparr>fdb_index := insert_item j (fdb_index f'),
      fdb_head := (case fdb_head f' of None \<Rightarrow> Some j | Some h \<Rightarrow> if fi_num j > fi_num h then Some j else Some h)\<rparr>"
    and n: "\<forall>h. fdb_head f' = Some h \<longrightarrow> uint (fi_num i) > max 0 (uint (fi_num h) - uint (fdb_max_size f'))"
    using push_item_cases [OF push] .
  have i: "fi_prev i = None" "fi_num i = block_num C b" "fi_id i = block_id C b" "fi_data i = b" "fi_addr i = fdb_next f"
    by (simp_all add: i_def make_item_def)
  have pos: "fi_num i > 0" if "fdb_head f' \<noteq> None"
    using n that by (fastforce simp: word_less_def)
  have jp: "fi_addr j = fdb_next f \<and> item_ok C j \<and> (\<forall>a. fi_prev j = Some a \<longrightarrow> (\<exists>p\<in>set (owned f). a = fi_addr p \<and> fi_id p = previous_id j))"
    using link_item_cases [OF j] i pos owned_index [of _ f]
    by (elim disjE conjE bexE) (auto simp: item_ok_def f'_def previous_id_def)
  show "fdb_ok C g"
  proof (rule fdb_ok_insert [OF assms(1)])
    show "set (owned g) \<subseteq> insert j (set (owned f))"
      using set_insert_item [of j "fdb_index f"] by (auto simp: g f'_def owned_def split: option.splits if_splits)
    show "distinct (map fi_id (fdb_index g))" using assms(1) distinct_insert_item by (simp add: g f'_def fdb_ok_def)
  qed (use jp in \<open>auto simp: g f'_def\<close>)
qed

section \<open>Paths\<close>

primrec path :: "fork_database \<Rightarrow> fork_item \<Rightarrow> fork_item list \<Rightarrow> fork_item \<Rightarrow> bool" where
  "path f x [] y \<longleftrightarrow> x = y"
| "path f x (a # as) y \<longleftrightarrow> a = x \<and> (\<exists>p. lock f (fi_prev x) = Some p \<and> path f p as y)"

lemma path_append: "path f x (as @ bs) z \<longleftrightarrow> (\<exists>y. path f x as y \<and> path f y bs z)"
  by (induction as arbitrary: x) auto

lemma path_snoc: "path f x as y \<Longrightarrow> lock f (fi_prev y) = Some p \<Longrightarrow> path f x (as @ [y]) p"
  by (simp add: path_append)

lemma path_owned: "fdb_ok C f \<Longrightarrow> x \<in> set (owned f) \<Longrightarrow> path f x as y \<Longrightarrow> y \<in> set (owned f)"
  by (induction as arbitrary: x) (auto dest: lock_Some(1))

lemma path_num:
  assumes "crypto_ok C" "fdb_ok C f" "x \<in> set (owned f)" "path f x as y"
  shows "unat (fi_num x) = unat (fi_num y) + length as"
  using assms(3,4)
proof (induction as arbitrary: x)
  case (Cons a as)
  then obtain p where p: "lock f (fi_prev x) = Some p" "path f p as y" by auto
  show ?case using Cons.IH [OF lock_Some(1) [OF assms(2) Cons.prems(1) p(1)] p(2)] lock_num [OF assms(1,2) Cons.prems(1) p(1)] by simp
qed simp

lemma climb_path:
  "climb C f n t x acc = Inr (y, r) \<Longrightarrow> \<exists>as. r = acc @ as \<and> path f x as y \<and> \<not> block_num C (fi_data y) > t
     \<and> (\<forall>a\<in>set as. block_num C (fi_data a) > t)"
proof (induction n arbitrary: x acc)
  case (Suc n)
  show ?case
  proof (cases "block_num C (fi_data x) > t")
    case True
    then obtain p where p: "lock f (fi_prev x) = Some p" "climb C f n t p (acc @ [x]) = Inr (y, r)"
      using Suc.prems by (auto split: option.splits)
    from Suc.IH [OF p(2)] obtain as where as: "r = acc @ x # as" "path f p as y" "\<not> block_num C (fi_data y) > t"
      "\<forall>a\<in>set as. block_num C (fi_data a) > t" by auto
    then show ?thesis using True p(1) by (intro exI [of _ "x # as"]) auto
  qed (use Suc.prems in auto)
qed simp

lemma climb_terminates:
  "fdb_ok C f \<Longrightarrow> x \<in> set (owned f) \<Longrightarrow> fi_addr x < n \<Longrightarrow> climb C f n t x acc \<noteq> Inl nontermination"
proof (induction n arbitrary: x acc)
  case (Suc n)
  have "climb C f n t p (acc @ [x]) \<noteq> Inl nontermination" if "lock f (fi_prev x) = Some p" for p
    using lock_Some(1,4) [OF Suc.prems(1,2) that] Suc.prems(3) by (intro Suc.IH Suc.prems(1)) auto
  then show ?case by (auto split: option.splits)
qed simp

lemma climb_both_path:
  "climb_both f n x y (as, bs) = Inr (x', y', r) \<Longrightarrow>
    \<exists>cs ds. r = (as @ cs, bs @ ds) \<and> path f x cs x' \<and> path f y ds y' \<and> length cs = length ds
      \<and> previous_id x' = previous_id y' \<and> (\<forall>i<length cs. previous_id (cs ! i) \<noteq> previous_id (ds ! i))"
proof (induction n arbitrary: x y as bs)
  case (Suc n)
  show ?case
  proof (cases "previous_id x = previous_id y")
    case False
    then obtain p q where p: "lock f (fi_prev x) = Some p" and q: "lock f (fi_prev y) = Some q"
      and c: "climb_both f n p q (as @ [x], bs @ [y]) = Inr (x', y', r)"
      using Suc.prems by (auto simp: previous_id_def Let_def split: option.splits)
    from Suc.IH [OF c] obtain cs ds where cs: "r = (as @ x # cs, bs @ y # ds)" "path f p cs x'" "path f q ds y'"
      "length cs = length ds" "previous_id x' = previous_id y'" "\<forall>i<length cs. previous_id (cs ! i) \<noteq> previous_id (ds ! i)" by auto
    show ?thesis using cs p q False
      by (intro exI [of _ "x # cs"] exI [of _ "y # ds"]) (auto simp: less_Suc_eq_0_disj)
  qed (use Suc.prems in \<open>auto simp: previous_id_def\<close>)
qed simp

lemma climb_both_terminates:
  "fdb_ok C f \<Longrightarrow> x \<in> set (owned f) \<Longrightarrow> y \<in> set (owned f) \<Longrightarrow> fi_addr x < n \<Longrightarrow> climb_both f n x y r \<noteq> Inl nontermination"
proof (induction n arbitrary: x y r)
  case (Suc n)
  have "climb_both f n p q s \<noteq> Inl nontermination" if "lock f (fi_prev x) = Some p" "lock f (fi_prev y) = Some q" for p q s
    using lock_Some(1,4) [OF Suc.prems(1,2) that(1)] lock_Some(1) [OF Suc.prems(1,3) that(2)] Suc.prems(4) by (intro Suc.IH Suc.prems(1)) auto
  then show ?case by (auto simp: Let_def split: option.splits)
qed simp

declare climb.simps [simp del] climb_both.simps [simp del]

lemma climb_num:
  assumes "crypto_ok C" "fdb_ok C f" "x \<in> set (owned f)" "climb C f n t x [] = Inr (y, as)"
  shows "path f x as y" "fi_num y \<le> t" "as \<noteq> [] \<Longrightarrow> fi_num y = t" "\<forall>a\<in>set as. fi_num a > t"
proof -
  from climb_path [OF assms(4)] have c: "path f x as y" "\<not> block_num C (fi_data y) > t" "\<forall>a\<in>set as. block_num C (fi_data a) > t"
    by auto
  have num: "block_num C (fi_data z) = fi_num z" if "z \<in> set (owned f)" for z
    using fdb_okD(1) [OF assms(2) that] by (simp add: item_ok_def)
  have all: "z \<in> set (owned f)" if "z \<in> set as" for z
    using that c(1) assms(3) by (induction as arbitrary: x) (auto dest: lock_Some(1) [OF assms(2)])
  show "path f x as y" by (rule c(1))
  show y: "fi_num y \<le> t" using c(2) num [OF path_owned [OF assms(2,3) c(1)]] by (simp add: not_less)
  show above: "\<forall>a\<in>set as. fi_num a > t" using c(3) num all by auto
  show "fi_num y = t" if ne: "as \<noteq> []"
  proof -
    obtain bs l where as: "as = bs @ [l]" using ne by (cases as rule: rev_cases) auto
    have l: "path f x bs l" "lock f (fi_prev l) = Some y" using c(1) by (auto simp: as path_append)
    have "unat (fi_num l) = unat (fi_num y) + 1" using lock_num [OF assms(1,2) path_owned [OF assms(2,3) l(1)] l(2)] .
    moreover have "unat (fi_num l) > unat t" using above by (simp add: as word_less_nat_alt)
    ultimately show ?thesis using y by (simp add: word_le_nat_alt word_unat_eq_iff)
  qed
qed

text \<open>After the first two loops both branches are at the same height, and only one of them has moved.\<close>

lemma climb_level:
  assumes "crypto_ok C" "fdb_ok C f" "x \<in> set (owned f)" "y \<in> set (owned f)"
    and c1: "climb C f n (block_num C (fi_data y)) x [] = Inr (x1, a1)" and c2: "climb C f m (block_num C (fi_data x1)) y [] = Inr (y1, b1)"
  shows "x1 \<in> set (owned f)" "y1 \<in> set (owned f)" "a1 = [] \<or> b1 = []" "fi_num x1 = fi_num y1"
proof -
  note l1 = climb_num [OF assms(1,2,3) c1] and l2 = climb_num [OF assms(1,2,4) c2]
  show own1: "x1 \<in> set (owned f)" "y1 \<in> set (owned f)" using path_owned [OF assms(2)] assms(3,4) l1(1) l2(1) by auto
  have num: "block_num C (fi_data z) = fi_num z" if "z \<in> set (owned f)" for z
    using fdb_okD(1) [OF assms(2) that] by (simp add: item_ok_def)
  show one: "a1 = [] \<or> b1 = []"
  proof (rule ccontr)
    assume "\<not> (a1 = [] \<or> b1 = [])"
    then have "fi_num x1 = fi_num y" "y \<in> set b1" using l1(3) l2(1) num assms(4) by (auto simp: neq_Nil_conv)
    then show False using l2(4) num own1 by auto
  qed
  show "fi_num x1 = fi_num y1"
    using one l1(2,3) l2(1-3) num assms(3,4) own1 by (cases "b1 = []") (auto intro: order.antisym)
qed

text \<open>The search has found: two paths to items with the same predecessor.\<close>

lemma fetch_branch_paths:
  assumes "crypto_ok C" "fdb_ok C f" "fetch_branch_from C first second f = Inr (bs, cs)"
  obtains x y as ds x' y' where "x \<in> set (fdb_index f)" "y \<in> set (fdb_index f)" "fi_id x = first" "fi_id y = second"
    and "bs = as @ [x']" "cs = ds @ [y']" "path f x as x'" "path f y ds y'"
    and "previous_id x' = previous_id y'" "fi_num x' = fi_num y'"
    and "\<And>i. i < length as \<Longrightarrow> i < length ds \<Longrightarrow> previous_id (rev as ! i) \<noteq> previous_id (rev ds ! i)"
proof -
  obtain x y x1 a1 y1 b1 x2 y2 p where f: "find_item first (fdb_index f) = Some x" "find_item second (fdb_index f) = Some y"
    and c1: "climb C f (Suc (fi_addr x)) (block_num C (fi_data y)) x [] = Inr (x1, a1)"
    and c2: "climb C f (Suc (fi_addr y)) (block_num C (fi_data x1)) y [] = Inr (y1, b1)"
    and c3: "climb_both f (Suc (fi_addr x1)) x1 y1 (a1, b1) = Inr (x2, y2, p)"
    and bs: "bs = fst p @ [x2]" "cs = snd p @ [y2]"
    using assms(3) by (fastforce simp: fetch_branch_from_def split: option.splits)
  have x: "x \<in> set (fdb_index f)" "fi_id x = first" and y: "y \<in> set (fdb_index f)" "fi_id y = second"
    using f find_item_Some by auto
  have own: "x \<in> set (owned f)" "y \<in> set (owned f)" using x(1) y(1) owned_index by auto
  note l1 = climb_num [OF assms(1,2) own(1) c1] and l2 = climb_num [OF assms(1,2) own(2) c2]
  note lev = climb_level [OF assms(1,2) own c1 c2]
  obtain c d where cd: "p = (a1 @ c, b1 @ d)" "path f x1 c x2" "path f y1 d y2" "length c = length d"
      "previous_id x2 = previous_id y2" "\<forall>i<length c. previous_id (c ! i) \<noteq> previous_id (d ! i)"
    using climb_both_path [OF c3] by auto
  have "unat (fi_num x2) = unat (fi_num y2)"
    using path_num [OF assms(1,2) lev(1) cd(2)] path_num [OF assms(1,2) lev(2) cd(3)] cd(4) lev(4) by simp
  then have n2: "fi_num x2 = fi_num y2" by (simp add: word_unat_eq_iff)
  have differ: "previous_id (rev (a1 @ c) ! i) \<noteq> previous_id (rev (b1 @ d) ! i)" if "i < length (a1 @ c)" "i < length (b1 @ d)" for i
  proof (cases "i < length c")
    case True
    then show ?thesis using cd(4,6) by (auto simp: nth_append rev_nth)
  next
    case False
    then show ?thesis using that lev(3) cd(4) by auto
  qed
  show thesis
    by (rule that [OF x(1) y(1) x(2) y(2), of "a1 @ c" x2 "b1 @ d" y2])
       (use bs cd(1-3,5) l1(1) l2(1) n2 differ in \<open>auto simp: path_append\<close>)
qed

lemma path_successively:
  assumes "fdb_ok C f" "x \<in> set (owned f)" "path f x as y"
  shows "successively (\<lambda>a b. fi_id b = previous_id a) (as @ [y])" "hd (as @ [y]) = x"
proof -
  show "hd (as @ [y]) = x" using assms(3) by (cases as) auto
  show "successively (\<lambda>a b. fi_id b = previous_id a) (as @ [y])" using assms(2,3)
  proof (induction as arbitrary: x)
    case (Cons a as)
    then obtain p where p: "lock f (fi_prev x) = Some p" "path f p as y" "a = x" by auto
    have "hd (as @ [y]) = p" using p(2) by (cases as) auto
    then show ?case using Cons.IH [OF lock_Some(1) [OF assms(1) Cons.prems(1) p(1)] p(2)]
        lock_Some(3) [OF assms(1) Cons.prems(1) p(1)] p(3) by (simp add: successively_Cons)
  qed simp
qed

lemma fetch_branch_terminates:
  assumes "crypto_ok C" "fdb_ok C f"
  shows "fetch_branch_from C first second f \<noteq> Inl nontermination"
proof -
  have own: "x \<in> set (owned f)" if "find_item i (fdb_index f) = Some x" for i x
    using that find_item_Some owned_index by blast
  have "climb_both f (Suc (fi_addr x1)) x1 y1 r \<noteq> Inl nontermination"
    if "climb C f n t x [] = Inr (x1, a1)" "climb C f m u y [] = Inr (y1, b1)" "x \<in> set (owned f)" "y \<in> set (owned f)"
    for x y n m t u x1 y1 a1 b1 r
    using climb_both_terminates [OF assms(2)] path_owned [OF assms(2)] climb_num(1) [OF assms] that by (meson lessI)
  then show ?thesis using own climb_terminates [OF assms(2)]
    by (auto simp: fetch_branch_from_def ebind_eq_Inl split: option.splits)
qed

section \<open>Trees with one root\<close>

text \<open>\<open>rooted f g\<close>: the only item without a predecessor is \<open>g\<close>.\<close>

definition rooted :: "fork_database \<Rightarrow> fork_item \<Rightarrow> bool" where
  "rooted f g \<longleftrightarrow> (\<forall>x\<in>set (owned f). lock f (fi_prev x) = None \<longrightarrow> x = g)"

lemma rooted_num:
  assumes "crypto_ok C" "fdb_ok C f" "rooted f g"
  shows "x \<in> set (owned f) \<Longrightarrow> unat (fi_num g) \<le> unat (fi_num x)"
proof (induction "fi_addr x" arbitrary: x rule: less_induct)
  case less
  show ?case
  proof (cases "lock f (fi_prev x)")
    case None
    then show ?thesis using assms(3) less.prems by (simp add: rooted_def)
  next
    case (Some p)
    note l = lock_Some [OF assms(2) less.prems Some]
    show ?thesis using less.hyps [OF l(4,1)] lock_num [OF assms(1,2) less.prems Some] by linarith
  qed
qed

lemma rooted_lock:
  assumes "crypto_ok C" "fdb_ok C f" "rooted f g" "x \<in> set (owned f)" "fi_num g < fi_num x"
  obtains p where "lock f (fi_prev x) = Some p" "p \<in> set (owned f)"
  using assms(3-5) lock_Some(1) [OF assms(2,4)] by (cases "lock f (fi_prev x)") (auto simp: rooted_def)

lemma climb_succeeds:
  assumes "crypto_ok C" "fdb_ok C f" "rooted f g" "fi_num g \<le> t"
  shows "x \<in> set (owned f) \<Longrightarrow> fi_addr x < n \<Longrightarrow> \<exists>r. climb C f n t x acc = Inr r"
proof (induction n arbitrary: x acc)
  case (Suc n)
  show ?case
  proof (cases "block_num C (fi_data x) > t")
    case True
    have "fi_num g < fi_num x" using True assms(4) fdb_okD(1) [OF assms(2) Suc.prems(1)] by (simp add: item_ok_def)
    then obtain p where p: "lock f (fi_prev x) = Some p" using rooted_lock [OF assms(1-3) Suc.prems(1)] by blast
    have "\<exists>r. climb C f n t p (acc @ [x]) = Inr r"
      using lock_Some(1,4) [OF assms(2) Suc.prems(1) p] Suc.prems(2) by (intro Suc.IH) auto
    then show ?thesis using True p by (simp add: climb.simps)
  qed (simp add: climb.simps)
qed simp

lemma climb_both_succeeds:
  assumes "crypto_ok C" "fdb_ok C f" "rooted f g"
  shows "x \<in> set (owned f) \<Longrightarrow> y \<in> set (owned f) \<Longrightarrow> fi_num x = fi_num y \<Longrightarrow> fi_addr x < n \<Longrightarrow> \<exists>r. climb_both f n x y r0 = Inr r"
proof (induction n arbitrary: x y r0)
  case (Suc n)
  note prems = Suc.prems
  show ?case
  proof (cases "previous_id x = previous_id y")
    case False
    have "fi_num g < fi_num x"
    proof (rule ccontr)
      assume "\<not> fi_num g < fi_num x"
      then have le: "unat (fi_num x) \<le> unat (fi_num g)" by (simp add: word_less_nat_alt)
      have root: "z = g" if z: "z \<in> set (owned f)" "fi_num z = fi_num x" for z
      proof (cases "lock f (fi_prev z)")
        case (Some q)
        then show ?thesis using lock_num [OF assms(1,2) z(1) Some] rooted_num [OF assms lock_Some(1) [OF assms(2) z(1) Some]] le z(2) by simp
      qed (use assms(3) z in \<open>simp add: rooted_def\<close>)
      show False using root [OF prems(1)] root [OF prems(2)] prems(3) False by simp
    qed
    then obtain p q where p: "lock f (fi_prev x) = Some p" and q: "lock f (fi_prev y) = Some q"
      using rooted_lock [OF assms prems(1)] rooted_lock [OF assms prems(2)] prems(3) by metis
    have "unat (fi_num p) = unat (fi_num q)"
      using lock_num [OF assms(1,2) prems(1) p] lock_num [OF assms(1,2) prems(2) q] prems(3) by simp
    then have "\<exists>r. climb_both f n p q r1 = Inr r" for r1
      using lock_Some(1,4) [OF assms(2) prems(1) p] lock_Some(1) [OF assms(2) prems(2) q] prems(4)
      by (intro Suc.IH) (auto simp: word_unat_eq_iff)
    then show ?thesis using p q False by (simp add: climb_both.simps previous_id_def Let_def)
  qed (simp add: climb_both.simps previous_id_def)
qed simp

section \<open>Properties\<close>

text \<open>
  (C24) The blocks since a fork: the branches that \<open>fetch_branch_from\<close> returns start at the two given
  blocks, each block in them is followed by its predecessor, they end with two blocks of the same
  height and the same predecessor, and no other pair of blocks at equal distance from the ends has
  a common predecessor, so that this is the most recent common ancestor.
\<close>

theorem branches_meet_at_fork:
  assumes "crypto_ok C" "fdb_ok C f" "fetch_branch_from C first second f = Inr (bs, cs)"
  shows "bs \<noteq> [] \<and> cs \<noteq> [] \<and> fi_id (hd bs) = first \<and> fi_id (hd cs) = second
    \<and> successively (\<lambda>a b. fi_id b = previous_id a) bs \<and> successively (\<lambda>a b. fi_id b = previous_id a) cs
    \<and> fi_num (last bs) = fi_num (last cs)
    \<and> (\<forall>i<min (length bs) (length cs). previous_id (rev bs ! i) = previous_id (rev cs ! i) \<longleftrightarrow> i = 0)"
proof -
  obtain x y as ds x' y' where p: "x \<in> set (fdb_index f)" "y \<in> set (fdb_index f)" "fi_id x = first" "fi_id y = second"
    "bs = as @ [x']" "cs = ds @ [y']" "path f x as x'" "path f y ds y'" "previous_id x' = previous_id y'" "fi_num x' = fi_num y'"
    and differ: "\<And>i. i < length as \<Longrightarrow> i < length ds \<Longrightarrow> previous_id (rev as ! i) \<noteq> previous_id (rev ds ! i)"
    using fetch_branch_paths [OF assms] by metis
  have "previous_id (rev bs ! i) = previous_id (rev cs ! i) \<longleftrightarrow> i = 0" if "i < min (length bs) (length cs)" for i
    using that differ [of "i - 1"] p(5,6,9) by (cases i) auto
  then show ?thesis
    using path_successively [OF assms(2) owned_index [OF p(1)] p(7)] path_successively [OF assms(2) owned_index [OF p(2)] p(8)] p(3-6,10)
    by simp
qed


text \<open>
  (C12) Pushing a block follows the longest chain: a successful push keeps the fork database
  well-formed, the block is known afterwards and no known block is forgotten, and the head that it
  returns is the new block if it is higher than the old head and the old head otherwise.
\<close>

theorem fork_push_follows_longest:
  assumes "fdb_ok C f" "fork_push_block C b f = Inr (h, g)"
  shows "fdb_ok C g \<and> fdb_head g = h \<and> fork_is_known_block (block_id C b) g
    \<and> (fork_is_known_block i f \<longrightarrow> fork_is_known_block i g)
    \<and> (case fdb_head f of
          None \<Rightarrow> map_option fi_data h = Some b
        | Some old \<Rightarrow> if block_num C b > fi_num old then map_option fi_data h = Some b else h = Some old)"
proof -
  define item where "item = fst (make_item C b f)"
  define f' where "f' = f\<lparr>fdb_next := fdb_next f + 1\<rparr>"
  have push: "push_item item f' = Inr g" "fdb_head g = h"
    using assms(2) by (auto simp: fork_push_block_def make_item_def item_def f'_def Let_def)
  obtain j where j: "link_item item f' = Inr j"
    and g: "g = f'\<lparr>fdb_index := insert_item j (fdb_index f'),
      fdb_head := (case fdb_head f' of None \<Rightarrow> Some j | Some h \<Rightarrow> if fi_num j > fi_num h then Some j else Some h)\<rparr>"
    using push_item_cases [OF push(1)] .
  have "fi_data j = b \<and> fi_num j = block_num C b \<and> fi_id j = block_id C b"
    using link_item_cases [OF j] by (auto simp: item_def make_item_def)
  moreover have "find_item i (insert_item j idx) = None \<longleftrightarrow> find_item i idx = None \<and> i \<noteq> fi_id j" for i idx
    by (auto simp: insert_item_def find_item_None)
  ultimately show ?thesis using fork_push_ok [OF assms] push(2)
    by (auto simp: g f'_def fork_is_known_block_def split: option.splits)
qed

section \<open>A concrete fork\<close>

definition fork_block :: "block_id_type \<Rightarrow> time_point_sec \<Rightarrow> signed_block" where
  "fork_block prev t = \<lparr>previous = prev, timestamp = t, witness = [], transaction_merkle_root = [], extensions = [],
     witness_signature = 0, transactions = []\<rparr>"

definition sample_fork :: "fork_database result" where
  "sample_fork =
     (let f = start_block sample_crypto (fork_block [4, 0, 0, 0, 0] 10) new_fork_database in
      ebind (fork_push_block sample_crypto (fork_block [5, 10, 10, 10, 10] 13) f) (\<lambda>(_, f).
      ebind (fork_push_block sample_crypto (fork_block [5, 10, 10, 10, 10] 16) f) (\<lambda>(_, f).
      ebind (fork_push_block sample_crypto (fork_block [6, 16, 16, 16, 16] 19) f) (\<lambda>(_, f). Inr f))))"

lemma new_fork_database_ok: "fdb_ok C new_fork_database"
  by (simp add: fdb_ok_def new_fork_database_def owned_def)

lemma sample_fork_runs: obtains f where "sample_fork = Inr f" "fdb_ok sample_crypto f"
proof -
  have "\<not> isl sample_fork" by code_simp
  then obtain f where f: "sample_fork = Inr f" by (metis sum.collapse(2))
  moreover have "fdb_ok sample_crypto f"
  proof -
    obtain h1 f1 h2 f2 h3 where
        "fork_push_block sample_crypto (fork_block [5, 10, 10, 10, 10] 13)
          (start_block sample_crypto (fork_block [4, 0, 0, 0, 0] 10) new_fork_database) = Inr (h1, f1)"
        "fork_push_block sample_crypto (fork_block [5, 10, 10, 10, 10] 16) f1 = Inr (h2, f2)"
        "fork_push_block sample_crypto (fork_block [6, 16, 16, 16, 16] 19) f2 = Inr (h3, f)"
      using f by (auto simp: sample_fork_def Let_def)
    then show ?thesis by (metis fork_push_ok(1) start_block_ok new_fork_database_ok)
  qed
  ultimately show thesis by (rule that)
qed

theorem branches_meet_at_fork_witness:
  "\<exists>f bs cs. sample_fork = Inr f
    \<and> fetch_branch_from sample_crypto [7, 19, 19, 19, 19] [6, 13, 13, 13, 13] f = Inr (bs, cs)
    \<and> fi_id (hd bs) = [7, 19, 19, 19, 19] \<and> fi_num (last bs) = fi_num (last cs)"
proof -
  obtain f where f: "sample_fork = Inr f" "fdb_ok sample_crypto f" using sample_fork_runs .
  have "\<not> isl (ebind sample_fork (fetch_branch_from sample_crypto [7, 19, 19, 19, 19] [6, 13, 13, 13, 13]))" by code_simp
  then have "\<not> isl (fetch_branch_from sample_crypto [7, 19, 19, 19, 19] [6, 13, 13, 13, 13] f)" by (simp add: f(1))
  then obtain bs cs where r: "fetch_branch_from sample_crypto [7, 19, 19, 19, 19] [6, 13, 13, 13, 13] f = Inr (bs, cs)"
    by (metis sum.collapse(2) surj_pair)
  show ?thesis using f(1) r branches_meet_at_fork [OF sample_crypto_ok f(2) r] by blast
qed


theorem fork_push_follows_longest_witness:
  "\<exists>h g. fork_push_block sample_crypto (fork_block [5, 10, 10, 10, 10] 13)
      (start_block sample_crypto (fork_block [4, 0, 0, 0, 0] 10) new_fork_database) = Inr (h, g)
    \<and> fdb_ok sample_crypto g \<and> map_option fi_data h = Some (fork_block [5, 10, 10, 10, 10] 13)"
proof -
  let ?f = "start_block sample_crypto (fork_block [4, 0, 0, 0, 0] 10) new_fork_database"
  have ok: "fdb_ok sample_crypto ?f" by (rule start_block_ok [OF new_fork_database_ok])
  have "\<not> isl (fork_push_block sample_crypto (fork_block [5, 10, 10, 10, 10] 13) ?f)" by code_simp
  then obtain h g where r: "fork_push_block sample_crypto (fork_block [5, 10, 10, 10, 10] 13) ?f = Inr (h, g)"
    by (metis sum.collapse(2) surj_pair)
  have "\<exists>old. fdb_head ?f = Some old \<and> fi_num old = 5"
    by (simp add: start_block_def make_item_def block_num_def num_from_id_def fork_block_def sample_crypto_def)
  moreover have "block_num sample_crypto (fork_block [5, 10, 10, 10, 10] 13) = 6"
    by (simp add: block_num_def num_from_id_def fork_block_def sample_crypto_def)
  ultimately show ?thesis using r fork_push_follows_longest [OF ok r] by auto
qed

end
