(* ===== verification/Block_Log.thy ===== *)
theory Block_Log
  imports Transaction
begin

text \<open>
  The block log (\<open>block_log.cpp\<close>): the irreversible blocks in a file, each followed by its position,
  and an index file with the position of every block.

  Files are lists of bytes; a position is written as the eight bytes of a \<open>uint64_t\<close> in the order of
  the machine, little-endian here.  A stream that is asked for more bytes than the file has throws.
  Which file a stream was last opened for (reading or writing) and flushing do not change the
  contents and are left out.

  The lemmas show that after any appends block number \<open>n\<close> reads back as the \<open>n\<close>-th block appended,
  that reopening the files gives the same log, and that a lost index is rebuilt, except for a log of
  one block, which \<open>construct_index\<close> leaves without an index.
\<close>

unbundle bit_operations_syntax

section \<open>Positions in files\<close>

type_synonym byte_file = "u8 list"

definition bytes_of :: "u64 \<Rightarrow> byte_file" where
  "bytes_of w = map (\<lambda>i. ucast (drop_bit (8 * i) w)) [0..<8]"

definition of_bytes :: "byte_file \<Rightarrow> u64" where
  "of_bytes bs = foldr (\<lambda>b acc. push_bit 8 acc OR ucast b) bs 0"

definition read_u64 :: "nat \<Rightarrow> byte_file \<Rightarrow> u64 result" where
  "read_u64 pos f = (if pos + 8 \<le> length f then Inr (of_bytes (take 8 (drop pos f))) else Inl stream_failure)"

definition read_last_u64 :: "byte_file \<Rightarrow> u64 result" where
  "read_last_u64 f = (if 8 \<le> length f then read_u64 (length f - 8) f else Inl stream_failure)"

section \<open>Operations\<close>

record block_log =
  bl_blocks :: byte_file
  bl_index :: byte_file
  bl_head :: "signed_block option"
  bl_head_id :: block_id_type

definition npos :: u64 where
  "npos = - 1"

definition log_append :: "fc_crypto \<Rightarrow> fc_raw \<Rightarrow> signed_block \<Rightarrow> block_log \<Rightarrow> (u64 \<times> block_log) result" where
  "log_append C R b l =
     (let pos = of_nat (length (bl_blocks l)) :: u64; index_pos = of_nat (length (bl_index l)) :: u64 in
      require (index_pos = 8 * ucast (block_num C b - 1))
      (Inr (pos, l\<lparr>bl_blocks := bl_blocks l @ raw_pack R b @ bytes_of pos, bl_index := bl_index l @ bytes_of pos,
         bl_head := Some b, bl_head_id := block_id C b\<rparr>)))"

definition read_block :: "fc_raw \<Rightarrow> u64 \<Rightarrow> block_log \<Rightarrow> (signed_block \<times> u64) result" where
  "read_block R pos l = (case raw_unpack R (drop (unat pos) (bl_blocks l)) of
       None \<Rightarrow> Inl stream_failure
     | Some (b, rest) \<Rightarrow> Inr (b, of_nat (length (bl_blocks l) - length rest) + 8))"

definition get_block_pos :: "fc_crypto \<Rightarrow> u32 \<Rightarrow> block_log \<Rightarrow> u64 result" where
  "get_block_pos C num l =
     (if \<not> (bl_head l \<noteq> None \<and> num \<le> num_from_id C (bl_head_id l) \<and> num > 0) then Inr npos
      else read_u64 (unat (8 * ucast (num - 1) :: u64)) (bl_index l))"

definition read_block_by_num :: "fc_crypto \<Rightarrow> fc_raw \<Rightarrow> u32 \<Rightarrow> block_log \<Rightarrow> signed_block option result" where
  "read_block_by_num C R num l =
     ebind (get_block_pos C num l) (\<lambda>pos.
     if pos \<noteq> npos then
       ebind (read_block R pos l) (\<lambda>(b, _). require (block_num C b = num) (Inr (Some b)))
     else Inr None)"

definition read_head :: "fc_raw \<Rightarrow> block_log \<Rightarrow> signed_block result" where
  "read_head R l = ebind (read_last_u64 (bl_blocks l)) (\<lambda>pos. ebind (read_block R pos l) (\<lambda>(b, _). Inr b))"

text \<open>
  Each round of the loop reads at least the eight bytes of a position, so that the length of the
  file suffices as fuel.  \<open>rest\<close> is what the stream has left.
\<close>

primrec construct_loop :: "fc_raw \<Rightarrow> nat \<Rightarrow> u64 \<Rightarrow> u64 \<Rightarrow> byte_file \<Rightarrow> byte_file \<Rightarrow> byte_file result" where
  "construct_loop R 0 pos end_pos rest idx = Inl nontermination"
| "construct_loop R (Suc n) pos end_pos rest idx =
     (if pos < end_pos then
        (case raw_unpack R rest of
           None \<Rightarrow> Inl stream_failure
         | Some (tmp, rest) \<Rightarrow>
             ebind (read_u64 0 rest) (\<lambda>pos.
             construct_loop R n pos end_pos (drop 8 rest) (idx @ bytes_of pos)))
      else Inr idx)"

definition construct_index :: "fc_raw \<Rightarrow> block_log \<Rightarrow> block_log result" where
  "construct_index R l =
     ebind (read_last_u64 (bl_blocks l)) (\<lambda>end_pos.
     ebind (construct_loop R (Suc (length (bl_blocks l))) 0 end_pos (bl_blocks l) []) (\<lambda>idx.
     Inr (l\<lparr>bl_index := idx\<rparr>)))"

definition log_open :: "fc_crypto \<Rightarrow> fc_raw \<Rightarrow> byte_file \<Rightarrow> byte_file \<Rightarrow> block_log result" where
  "log_open C R blocks idx =
     (let l = \<lparr>bl_blocks = blocks, bl_index = idx, bl_head = None, bl_head_id = null_id\<rparr> in
      if blocks \<noteq> [] then
        ebind (read_head R l) (\<lambda>h.
        let l = l\<lparr>bl_head := Some h, bl_head_id := block_id C h\<rparr> in
        if idx \<noteq> [] then
          ebind (read_last_u64 blocks) (\<lambda>block_pos.
          ebind (read_last_u64 idx) (\<lambda>index_pos.
          if block_pos < index_pos then construct_index R l
          else if block_pos > index_pos then construct_index R l
          else Inr l))
        else construct_index R l)
      else if idx \<noteq> [] then Inr (l\<lparr>bl_index := []\<rparr>)
      else Inr l)"

section \<open>Bytes\<close>

lemma length_bytes [simp]: "length (bytes_of w) = 8"
  by (simp add: bytes_of_def)

lemma bit_of_bytes:
  "k \<le> m \<Longrightarrow> bit (of_bytes (map (\<lambda>i. ucast (drop_bit (8 * i) w)) [k..<m])) n
     \<longleftrightarrow> n < 8 * (m - k) \<and> n < 64 \<and> bit (w :: u64) (8 * k + n)"
proof (induction "m - k" arbitrary: k n)
  case 0
  then show ?case by (simp add: of_bytes_def)
next
  case (Suc d)
  then have k: "[k..<m] = k # [Suc k..<m]" "Suc k \<le> m" "d = m - Suc k" by (auto simp: upt_conv_Cons)
  let ?g = "of_bytes (map (\<lambda>i. ucast (drop_bit (8 * i) w)) [Suc k..<m])"
  have "of_bytes (map (\<lambda>i. ucast (drop_bit (8 * i) w)) [k..<m]) = push_bit 8 ?g OR ucast (ucast (drop_bit (8 * k) w) :: u8)"
    by (simp add: of_bytes_def k(1))
  then have "bit (of_bytes (map (\<lambda>i. ucast (drop_bit (8 * i) w)) [k..<m])) n
      \<longleftrightarrow> (8 \<le> n \<and> n < 64 \<and> bit ?g (n - 8)) \<or> (n < 8 \<and> n < 64 \<and> bit w (8 * k + n))"
    by (auto simp: bit_or_iff bit_push_bit_iff bit_ucast_iff bit_drop_bit_eq)
  also have "\<dots> \<longleftrightarrow> n < 8 * (m - k) \<and> n < 64 \<and> bit w (8 * k + n)"
    using Suc.hyps(1) [OF k(3,2), of "n - 8"] k(2) by (cases "8 \<le> n") (auto simp: algebra_simps)
  finally show ?case .
qed

lemma of_bytes_of [simp]: "of_bytes (bytes_of w) = w"
  by (rule bit_word_eqI) (simp add: bytes_of_def bit_of_bytes)

lemma read_u64_append: "read_u64 (length xs) (xs @ bytes_of w @ ys) = Inr w"
  by (simp add: read_u64_def)

lemma read_last_append: "read_last_u64 (xs @ bytes_of w) = Inr w"
  using read_u64_append [of xs w "[]"] by (simp add: read_last_u64_def)

section \<open>The files after a sequence of appends\<close>

definition extend_files :: "fc_raw \<Rightarrow> signed_block \<Rightarrow> byte_file \<times> byte_file \<Rightarrow> byte_file \<times> byte_file" where
  "extend_files R b p =
     (let pos = bytes_of (of_nat (length (fst p))) in (fst p @ raw_pack R b @ pos, snd p @ pos))"

definition written :: "fc_raw \<Rightarrow> signed_block list \<Rightarrow> byte_file \<times> byte_file" where
  "written R bs = fold (extend_files R) bs ([], [])"

definition position :: "fc_raw \<Rightarrow> signed_block list \<Rightarrow> nat \<Rightarrow> nat" where
  "position R bs k = length (fst (written R (take k bs)))"

lemma written_snoc: "written R (bs @ [b]) = extend_files R b (written R bs)"
  by (simp add: written_def)

lemma written_Nil [simp]: "written R [] = ([], [])"
  by (simp add: written_def)

lemma length_index: "length (snd (written R bs)) = 8 * length bs"
  by (induction bs rule: rev_induct) (simp_all add: written_snoc extend_files_def Let_def)

lemma written_prefix: "\<exists>f idx. written R (xs @ ys) = (fst (written R xs) @ f, snd (written R xs) @ idx)"
proof (induction ys rule: rev_induct)
  case (snoc y ys)
  then obtain f idx where "written R (xs @ ys) = (fst (written R xs) @ f, snd (written R xs) @ idx)" by blast
  then show ?case using written_snoc [of R "xs @ ys" y] by (simp add: extend_files_def Let_def)
qed (simp add: prod_eq_iff)

lemma written_at:
  assumes "k < length bs"
  obtains f idx where "fst (written R bs) = fst (written R (take k bs)) @ raw_pack R (bs ! k) @ bytes_of (of_nat (position R bs k)) @ f"
    and "snd (written R bs) = snd (written R (take k bs)) @ bytes_of (of_nat (position R bs k)) @ idx"
proof -
  have "bs = take (Suc k) bs @ drop (Suc k) bs" by simp
  then obtain f idx where w: "written R bs = (fst (written R (take (Suc k) bs)) @ f, snd (written R (take (Suc k) bs)) @ idx)"
    using written_prefix [of R "take (Suc k) bs" "drop (Suc k) bs"] by auto
  have "written R (take (Suc k) bs) = extend_files R (bs ! k) (written R (take k bs))"
    using assms by (simp add: take_Suc_conv_app_nth written_snoc)
  then show thesis using that [of f idx] w by (simp add: extend_files_def position_def Let_def)
qed

lemma position_Suc: "k < length bs \<Longrightarrow> position R bs (Suc k) = position R bs k + length (raw_pack R (bs ! k)) + 8"
  by (simp add: position_def take_Suc_conv_app_nth written_snoc extend_files_def Let_def)

lemma position_mono: "j < k \<Longrightarrow> k \<le> length bs \<Longrightarrow> position R bs j + 8 * (k - j) \<le> position R bs k"
proof (induction k)
  case (Suc k)
  then show ?case using position_Suc [of k bs R] by (cases "j = k") auto
qed simp

lemma position_length: "position R bs (length bs) = length (fst (written R bs))"
  by (simp add: position_def)

text \<open>The log that the appends leave in memory.\<close>

definition log_of :: "fc_crypto \<Rightarrow> fc_raw \<Rightarrow> signed_block list \<Rightarrow> block_log" where
  "log_of C R bs = \<lparr>bl_blocks = fst (written R bs), bl_index = snd (written R bs),
     bl_head = (if bs = [] then None else Some (last bs)), bl_head_id = (if bs = [] then null_id else block_id C (last bs))\<rparr>"

definition numbered :: "fc_crypto \<Rightarrow> signed_block list \<Rightarrow> bool" where
  "numbered C bs \<longleftrightarrow> (\<forall>k<length bs. unat (block_num C (bs ! k)) = Suc k)"

lemma u64_of_nat: "n < 2 ^ 64 \<Longrightarrow> unat (of_nat n :: u64) = n"
  by (simp add: unat_of_nat take_bit_nat_eq_self)

lemma index_position: "unat (8 * ucast (w :: u32) :: u64) = 8 * unat w"
proof -
  have w: "unat w < 2 ^ 32" using unsigned_less [of w] by simp
  have "unat (ucast w :: u64) = unat w" by (simp add: unsigned_ucast_eq take_bit_nat_eq_self less_trans [OF w])
  then show ?thesis using w by (simp add: unat_word_ariths(2))
qed

section \<open>Appending\<close>

definition append_all :: "fc_crypto \<Rightarrow> fc_raw \<Rightarrow> signed_block list \<Rightarrow> block_log \<Rightarrow> block_log result" where
  "append_all C R bs l = efold (\<lambda>b l. ebind (log_append C R b l) (\<lambda>(_, l). Inr l)) bs l"

text \<open>An append succeeds only with the next number.\<close>

lemma log_append_of:
  assumes "log_append C R b (log_of C R bs) = Inr (pos, l)" "numbered C bs" "length (bl_blocks l) < 2 ^ 64" "block_num C b > 0"
  shows "l = log_of C R (bs @ [b])" "numbered C (bs @ [b])"
proof -
  have i: "of_nat (8 * length bs) = (8 * ucast (block_num C b - 1) :: u64)"
    using assms(1) by (simp add: log_append_def log_of_def Let_def length_index)
  show l: "l = log_of C R (bs @ [b])"
    using assms(1) by (auto simp: log_append_def log_of_def Let_def written_snoc extend_files_def)
  have "8 * length (bs @ [b]) \<le> length (fst (written R (bs @ [b])))"
    using position_mono [of 0 "length (bs @ [b])" "bs @ [b]" R] unfolding position_length by simp
  then have small: "8 * length bs < 2 ^ 64" using assms(3) unfolding l log_of_def by simp
  have "8 * length bs = 8 * unat (block_num C b - 1)"
    using arg_cong [OF i, of unat] unfolding u64_of_nat [OF small] index_position .
  moreover have "unat (block_num C b - 1) = unat (block_num C b) - 1" "0 < unat (block_num C b)"
    using assms(4) unat_minus_one [of "block_num C b"] by (auto simp: word_gt_0 unat_gt_0)
  ultimately have "unat (block_num C b) = Suc (length bs)" by linarith
  then show "numbered C (bs @ [b])" using assms(2) by (auto simp: numbered_def nth_append less_Suc_eq)
qed

definition empty_log :: block_log where
  "empty_log = \<lparr>bl_blocks = [], bl_index = [], bl_head = None, bl_head_id = null_id\<rparr>"

lemma append_all_of:
  assumes "append_all C R bs empty_log = Inr l" "length (bl_blocks l) < 2 ^ 64" "\<forall>b\<in>set bs. block_num C b > 0"
  shows "l = log_of C R bs \<and> numbered C bs"
  using assms
proof (induction bs arbitrary: l rule: rev_induct)
  case Nil
  then show ?case by (simp add: append_all_def empty_log_def log_of_def numbered_def)
next
  case (snoc b bs)
  from snoc.prems(1) obtain m pos where m: "append_all C R bs empty_log = Inr m" and a: "log_append C R b m = Inr (pos, l)"
    by (auto simp: append_all_def efold_append)
  have "length (bl_blocks m) \<le> length (bl_blocks l)" using a by (auto simp: log_append_def Let_def)
  then have "m = log_of C R bs \<and> numbered C bs" using snoc.IH [OF m] snoc.prems(2,3) by simp
  then show ?case using log_append_of [OF _ _ snoc.prems(2)] a snoc.prems(3) by auto
qed

section \<open>Reading\<close>

lemma position_bound:
  assumes "k < length bs" "length (fst (written R bs)) < 2 ^ 64"
  shows "unat (of_nat (position R bs k) :: u64) = position R bs k" "of_nat (position R bs k) \<noteq> npos"
proof -
  have "position R bs k + 8 \<le> length (fst (written R bs))"
    using position_mono [of k "length bs" bs R] assms(1) by (simp add: position_length)
  then have p: "position R bs k + 8 < 2 ^ 64" using assms(2) by simp
  show u: "unat (of_nat (position R bs k) :: u64) = position R bs k" by (rule u64_of_nat) (use p in simp)
  have "unat npos = 2 ^ 64 - 1" by (simp add: npos_def unsigned_minus_1_eq_mask mask_eq_exp_minus_1)
  then show "of_nat (position R bs k) \<noteq> npos" using u p by fastforce
qed

lemma read_block_at:
  assumes "raw_ok R (set bs)" "k < length bs" "length (fst (written R bs)) < 2 ^ 64" "bl_blocks l = fst (written R bs)"
  shows "read_block R (of_nat (position R bs k)) l = Inr (bs ! k, of_nat (position R bs (Suc k)))"
proof -
  obtain f where f: "fst (written R bs) = fst (written R (take k bs)) @ raw_pack R (bs ! k) @ bytes_of (of_nat (position R bs k)) @ f"
    using written_at [OF assms(2), of R] by blast
  have len: "length (fst (written R (take k bs))) = position R bs k" by (simp add: position_def)
  have "drop (position R bs k) (fst (written R bs)) = raw_pack R (bs ! k) @ bytes_of (of_nat (position R bs k)) @ f"
    by (subst f) (simp flip: len)
  moreover have "raw_unpack R (raw_pack R (bs ! k) @ r) = Some (bs ! k, r)" for r
    using assms(1,2) by (simp add: raw_ok_def)
  moreover have "length (fst (written R bs)) - length (bytes_of (of_nat (position R bs k)) @ f) = position R bs k + length (raw_pack R (bs ! k))"
    by (subst f) (simp add: len)
  ultimately show ?thesis using position_bound(1) [OF assms(2,3)] position_Suc [OF assms(2), of R]
    by (simp add: read_block_def assms(4))
qed

lemma index_at:
  assumes "k < length bs"
  shows "read_u64 (8 * k) (snd (written R bs)) = Inr (of_nat (position R bs k))"
proof -
  obtain idx where i: "snd (written R bs) = snd (written R (take k bs)) @ bytes_of (of_nat (position R bs k)) @ idx"
    using written_at [OF assms, of R] by blast
  have "length (snd (written R (take k bs))) = 8 * k" using assms by (simp add: length_index)
  then show ?thesis using read_u64_append [of "snd (written R (take k bs))" "of_nat (position R bs k)" idx] by (simp add: i)
qed

lemma read_by_num_of:
  assumes "crypto_ok C" "raw_ok R (set bs)" "numbered C bs" "length (fst (written R bs)) < 2 ^ 64"
  shows "read_block_by_num C R n (log_of C R bs) = Inr (if n > 0 \<and> unat n \<le> length bs then Some (bs ! (unat n - 1)) else None)"
proof -
  have head: "num_from_id C (block_id C (last bs)) = block_num C (last bs)" by (rule block_num_of_id [OF assms(1)])
  have last: "unat (block_num C (last bs)) = length bs" if "bs \<noteq> []"
    using assms(3) that by (simp add: numbered_def last_conv_nth)
  show ?thesis
  proof (cases "n > 0 \<and> unat n \<le> length bs")
    case True
    define k where "k = unat n - 1"
    have "n \<noteq> 0" using True by auto
    from unat_minus_one [OF this] have k: "unat (n - 1) = k" "k < length bs" "unat n = Suc k"
      using True by (auto simp: k_def word_less_nat_alt)
    have "bs \<noteq> []" using k(2) by auto
    have "get_block_pos C n (log_of C R bs) = Inr (of_nat (position R bs k))"
      using True last [OF \<open>bs \<noteq> []\<close>] \<open>bs \<noteq> []\<close> index_at [OF k(2)]
      by (simp add: get_block_pos_def log_of_def head word_le_nat_alt index_position k(1))
    moreover have "block_num C (bs ! k) = n" using assms(3) k by (simp add: numbered_def word_unat_eq_iff)
    ultimately show ?thesis using True read_block_at [OF assms(2) k(2) assms(4), of "log_of C R bs"] position_bound(2) [OF k(2) assms(4)]
      by (simp add: read_block_by_num_def k_def log_of_def)
  next
    case False
    then have "get_block_pos C n (log_of C R bs) = Inr npos"
      using last by (auto simp: get_block_pos_def log_of_def head word_le_nat_alt)
    then show ?thesis using False by (auto simp: read_block_by_num_def)
  qed
qed

section \<open>Opening\<close>

lemma drop_position:
  assumes "k < length bs"
  shows "drop (position R bs k) (fst (written R bs))
    = raw_pack R (bs ! k) @ bytes_of (of_nat (position R bs k)) @ drop (position R bs (Suc k)) (fst (written R bs))"
proof -
  obtain f where f: "fst (written R bs) = fst (written R (take k bs)) @ raw_pack R (bs ! k) @ bytes_of (of_nat (position R bs k)) @ f"
    using written_at [OF assms, of R] by blast
  have len: "position R bs k = length (fst (written R (take k bs)))" by (simp add: position_def)
  show ?thesis unfolding position_Suc [OF assms] len by (subst (1 2) f) (simp add: len)
qed

lemma index_Suc:
  "k < length bs \<Longrightarrow> snd (written R (take (Suc k) bs)) = snd (written R (take k bs)) @ bytes_of (of_nat (position R bs k))"
  by (simp add: take_Suc_conv_app_nth written_snoc extend_files_def position_def Let_def)

lemma last_position:
  assumes "bs \<noteq> []"
  shows "read_last_u64 (fst (written R bs)) = Inr (of_nat (position R bs (length bs - 1)))"
    "read_last_u64 (snd (written R bs)) = Inr (of_nat (position R bs (length bs - 1)))"
proof -
  obtain cs c where bs: "bs = cs @ [c]" using assms by (cases bs rule: rev_cases) auto
  show "read_last_u64 (fst (written R bs)) = Inr (of_nat (position R bs (length bs - 1)))"
    "read_last_u64 (snd (written R bs)) = Inr (of_nat (position R bs (length bs - 1)))"
    using read_last_append [of "fst (written R cs) @ raw_pack R c"] read_last_append [of "snd (written R cs)"]
    by (simp_all add: bs written_snoc extend_files_def position_def Let_def)
qed

lemma construct_loop_from:
  assumes "raw_ok R (set bs)" "length (fst (written R bs)) < 2 ^ 64" "k \<le> length bs" "length bs - k < n"
    and "if k = 0 then 1 < length bs \<and> p = 0 else p = of_nat (position R bs (k - 1))"
  shows "construct_loop R n p (of_nat (position R bs (length bs - 1))) (drop (position R bs k) (fst (written R bs))) (snd (written R (take k bs)))
    = Inr (snd (written R bs))"
  using assms(3-5)
proof (induction n arbitrary: k p)
  case (Suc n)
  let ?e = "of_nat (position R bs (length bs - 1)) :: u64"
  show ?case
  proof (cases "k < length bs")
    case True
    have less: "p < ?e"
    proof (cases "k = 0")
      case True
      then have p: "p = 0" "length bs - 1 < length bs" "0 < length bs - 1" using Suc.prems(3) by auto
      have "0 < position R bs (length bs - 1)" using position_mono [OF p(3), of bs R] p(3) by linarith
      then show ?thesis unfolding p(1) using position_bound(1) [OF p(2) assms(2)] by (simp add: word_less_nat_alt)
    next
      case False
      then have p: "p = of_nat (position R bs (k - 1))" "k - 1 < length bs - 1" "k - 1 < length bs" "length bs - 1 < length bs"
        using Suc.prems(3) True by auto
      have "position R bs (k - 1) < position R bs (length bs - 1)" using position_mono [OF p(2), of bs R] p(2) by linarith
      then show ?thesis unfolding p(1) using position_bound(1) [OF p(3) assms(2)] position_bound(1) [OF p(4) assms(2)]
        by (simp add: word_less_nat_alt)
    qed
    have unpack: "raw_unpack R (raw_pack R (bs ! k) @ r) = Some (bs ! k, r)" for r using assms(1) True by (simp add: raw_ok_def)
    have "construct_loop R (Suc n) p ?e (drop (position R bs k) (fst (written R bs))) (snd (written R (take k bs)))
        = construct_loop R n (of_nat (position R bs k)) ?e (drop (position R bs (Suc k)) (fst (written R bs))) (snd (written R (take (Suc k) bs)))"
      using less read_u64_append [of "[]"] by (simp add: drop_position [OF True] unpack index_Suc [OF True])
    also have "\<dots> = Inr (snd (written R bs))" using True Suc.prems(2) by (intro Suc.IH) auto
    finally show ?thesis .
  next
    case False
    then have "k = length bs" "p = ?e" using Suc.prems(1,3) by (auto split: if_splits)
    then show ?thesis by simp
  qed
qed simp

lemma construct_index_of:
  assumes "raw_ok R (set bs)" "length (fst (written R bs)) < 2 ^ 64" "bs \<noteq> []" "bl_blocks l = fst (written R bs)"
  shows "construct_index R l = Inr (l\<lparr>bl_index := (if length bs = 1 then [] else snd (written R bs))\<rparr>)"
proof (cases "length bs = 1")
  case True
  then show ?thesis using last_position(1) [OF assms(3), of R] by (simp add: construct_index_def assms(4) position_def)
next
  case False
  then have "1 < length bs" using assms(3) by (cases bs) auto
  moreover have "length bs < Suc (length (fst (written R bs)))"
    using position_mono [of 0 "length bs" bs R] assms(3) by (simp add: position_length)
  ultimately show ?thesis using construct_loop_from [OF assms(1,2), of 0 "Suc (length (fst (written R bs)))" 0] last_position(1) [OF assms(3), of R] False
    by (simp add: construct_index_def assms(4) position_def del: construct_loop.simps)
qed

lemma log_open_of:
  assumes "raw_ok R (set bs)" "length (fst (written R bs)) < 2 ^ 64" "bs \<noteq> []"
  shows "log_open C R (fst (written R bs)) (snd (written R bs)) = Inr (log_of C R bs)"
    and "log_open C R (fst (written R bs)) [] = Inr ((log_of C R bs)\<lparr>bl_index := (if length bs = 1 then [] else snd (written R bs))\<rparr>)"
proof -
  have ne: "fst (written R bs) \<noteq> []" "snd (written R bs) \<noteq> []"
    using position_mono [of 0 "length bs" bs R] assms(3) length_index [of R bs] by (auto simp: position_length)
  have k: "length bs - 1 < length bs" "bs ! (length bs - 1) = last bs" using assms(3) by (simp_all add: last_conv_nth)
  have head: "read_head R l = Inr (last bs)" if "bl_blocks l = fst (written R bs)" for l
    using last_position(1) [OF assms(3), of R] read_block_at [OF assms(1) k(1) assms(2) that] that k(2) by (simp add: read_head_def)
  show "log_open C R (fst (written R bs)) (snd (written R bs)) = Inr (log_of C R bs)"
    using ne head last_position [OF assms(3), of R] assms(3) by (simp add: log_open_def log_of_def Let_def)
  show "log_open C R (fst (written R bs)) [] = Inr ((log_of C R bs)\<lparr>bl_index := (if length bs = 1 then [] else snd (written R bs))\<rparr>)"
    using ne head construct_index_of [OF assms] assms(3) by (simp add: log_open_def log_of_def Let_def)
qed

section \<open>Properties\<close>


text \<open>
  (C32) Reopening a log: the files of a log open to the same log, and with the index file lost, opening
  rebuilds the index, unless the log has exactly one block.  Then the index stays empty, and the next
  block cannot be appended.
\<close>

theorem log_reopens:
  assumes "raw_ok R (set bs)" "append_all C R bs empty_log = Inr l" "bs \<noteq> []"
    and "length (bl_blocks l) < 2 ^ 64" "\<forall>b\<in>set bs. block_num C b > 0"
  shows "log_open C R (bl_blocks l) (bl_index l) = Inr l
    \<and> log_open C R (bl_blocks l) [] = Inr (if length bs = 1 then l\<lparr>bl_index := []\<rparr> else l)
    \<and> (length bs = 1 \<and> block_num C b = 2 \<longrightarrow> ebind (log_open C R (bl_blocks l) []) (log_append C R b) = Inl assert_exception)"
proof -
  have l: "l = log_of C R bs" using append_all_of [OF assms(2,4,5)] by simp
  have w: "length (fst (written R bs)) < 2 ^ 64" using assms(4) by (simp add: l log_of_def)
  note o = log_open_of [OF assms(1) w assms(3), of C]
  have *: "log_open C R (bl_blocks l) [] = Inr (if length bs = 1 then l\<lparr>bl_index := []\<rparr> else l)"
    using o(2) by (simp add: l log_of_def)
  have "log_open C R (bl_blocks l) (bl_index l) = Inr l" using o(1) by (simp add: l log_of_def)
  with * show ?thesis by (simp add: log_append_def Let_def)
qed

section \<open>A concrete log\<close>

definition log_block :: "u32 \<Rightarrow> signed_block" where
  "log_block n = \<lparr>previous = [n - 1, 0, 0, 0, 0], timestamp = n, witness = [], transaction_merkle_root = [], extensions = [],
     witness_signature = 0, transactions = []\<rparr>"

text \<open>A serialization of these blocks: their number.\<close>

definition sample_raw :: fc_raw where
  "sample_raw = \<lparr>raw_pack = (\<lambda>b. [ucast (timestamp b)]),
     raw_unpack = (\<lambda>s. case s of [] \<Rightarrow> None | x # rest \<Rightarrow> Some (log_block (ucast x), rest))\<rparr>"

lemma sample_raw_ok: "raw_ok sample_raw {log_block 1, log_block 2}"
  by (auto simp: raw_ok_def sample_raw_def log_block_def split: list.splits)


theorem log_reopens_witness:
  "\<exists>l. append_all sample_crypto sample_raw [log_block 1] empty_log = Inr l
    \<and> log_open sample_crypto sample_raw (bl_blocks l) (bl_index l) = Inr l
    \<and> ebind (log_open sample_crypto sample_raw (bl_blocks l) []) (log_append sample_crypto sample_raw (log_block 2)) = Inl assert_exception"
proof -
  have "\<not> isl (append_all sample_crypto sample_raw [log_block 1] empty_log)" by code_simp
  then obtain l where l: "append_all sample_crypto sample_raw [log_block 1] empty_log = Inr l" by (metis sum.collapse(2))
  have b: "length (bl_blocks l) < 2 ^ 64" "\<forall>b\<in>set [log_block 1]. block_num sample_crypto b > 0" "block_num sample_crypto (log_block 2) = 2"
    using l by (auto simp: append_all_def log_append_def empty_log_def sample_raw_def sample_crypto_def log_block_def
      block_num_def num_from_id_def Let_def)
  have "raw_ok sample_raw (set [log_block 1])" using sample_raw_ok by (simp add: raw_ok_def)
  moreover have "[log_block 1] \<noteq> []" "length [log_block 1] = 1" by simp_all
  ultimately show ?thesis using log_reopens [OF _ l _ b(1,2), of "log_block 2"] b(3) l by blast
qed

end
