(* ===== verification/Node.thy ===== *)
theory Node
  imports Blocks Fork_Database Block_Log
begin

text \<open>
  The node: the part of \<open>database.cpp\<close> that decides which blocks and transactions are applied.  Its
  state is the chain state with its undo history, the fork database, the block log, and the pending
  transactions, whose effects lie on top of the head block in a session of their own.

  An undo session is modelled by the state it started from: \<open>nd_saved\<close> is the stack of those, each with
  its revision, which the theory of the object store justifies.  The virtual operations that a state
  has announced are a part of it and go with it when it is undone.

  Exceptions: a change of the chain state that throws is always undone by the session around it, so
  that \<open>on_state\<close> drops it; what happened outside the chain state before (a commit, an append to the
  block log, a block in the fork database) stays, so that a step returns the node with the exception.
  Locks, the flushing of shared memory and notifications are left out.
\<close>

unbundle bit_operations_syntax

section \<open>The state of a node\<close>

record node =
  nd_state :: database
  nd_saved :: "(int \<times> database) list"
  nd_revision :: int
  nd_fork :: fork_database
  nd_log :: block_log
  nd_pending :: "signed_transaction list"
  nd_session :: bool
  nd_popped :: "signed_transaction list"
  nd_producing :: bool
  nd_skip :: u32
  nd_checkpoints :: "(u32 \<times> block_id_type) list"
  nd_max_undo :: u32

type_synonym 'a step = "node \<Rightarrow> 'a result \<times> node"

definition nreturn :: "'a \<Rightarrow> 'a step" where
  "nreturn x n = (Inr x, n)"

definition nbind :: "'a step \<Rightarrow> ('a \<Rightarrow> 'b step) \<Rightarrow> 'b step" where
  "nbind m f n = (case m n of (Inl e, n) \<Rightarrow> (Inl e, n) | (Inr x, n) \<Rightarrow> f x n)"

primrec nfold :: "('x \<Rightarrow> unit step) \<Rightarrow> 'x list \<Rightarrow> unit step" where
  "nfold f [] = nreturn ()"
| "nfold f (x # xs) = nbind (f x) (\<lambda>_. nfold f xs)"

text \<open>A value that may throw, and a change of the chain state that may throw.\<close>

definition query :: "(node \<Rightarrow> 'a result) \<Rightarrow> 'a step" where
  "query f n = (f n, n)"

definition on_state :: "(node \<Rightarrow> database \<Rightarrow> database result) \<Rightarrow> unit step" where
  "on_state f n = (case f n (nd_state n) of Inl e \<Rightarrow> (Inl e, n) | Inr d \<Rightarrow> (Inr (), n\<lparr>nd_state := d\<rparr>))"

definition with_skip_flags :: "u32 \<Rightarrow> 'a step \<Rightarrow> 'a step" where
  "with_skip_flags skip m n = (let (r, n') = m (n\<lparr>nd_skip := skip\<rparr>) in (r, n'\<lparr>nd_skip := nd_skip n\<rparr>))"

section \<open>Undo sessions\<close>

definition start_session :: "node \<Rightarrow> node" where
  "start_session n = n\<lparr>nd_saved := (nd_revision n + 1, nd_state n) # nd_saved n, nd_revision := nd_revision n + 1\<rparr>"

definition undo_session :: "node \<Rightarrow> node" where
  "undo_session n = (case nd_saved n of [] \<Rightarrow> n
     | (_, d) # rest \<Rightarrow> n\<lparr>nd_state := d, nd_saved := rest, nd_revision := nd_revision n - 1\<rparr>)"

definition squash_session :: "node \<Rightarrow> node" where
  "squash_session n = (case nd_saved n of [] \<Rightarrow> n
     | [_] \<Rightarrow> n\<lparr>nd_saved := []\<rparr>
     | _ # rest \<Rightarrow> n\<lparr>nd_saved := rest, nd_revision := nd_revision n - 1\<rparr>)"

definition commit_sessions :: "int \<Rightarrow> node \<Rightarrow> node" where
  "commit_sessions r n = n\<lparr>nd_saved := rev (dropWhile (\<lambda>p. fst p \<le> r) (rev (nd_saved n)))\<rparr>"

text \<open>\<open>session.push()\<close> keeps the session when the body returns; its destructor undoes it when the body throws.\<close>

definition in_session :: "(node \<Rightarrow> node) \<Rightarrow> 'a step \<Rightarrow> 'a step" where
  "in_session finish m n = (case m (start_session n) of
       (Inl e, n) \<Rightarrow> (Inl e, undo_session n)
     | (Inr x, n) \<Rightarrow> (Inr x, finish n))"

definition reset_session :: "node \<Rightarrow> node" where
  "reset_session n = (if nd_session n then (undo_session n)\<lparr>nd_session := False\<rparr> else n)"

section \<open>Looking up blocks\<close>

definition fetch_block_by_id :: "chain_env \<Rightarrow> block_id_type \<Rightarrow> node \<Rightarrow> signed_block option result" where
  "fetch_block_by_id E i n = (case fetch_block i (nd_fork n) of
       Some b \<Rightarrow> Inr (Some (fi_data b))
     | None \<Rightarrow>
         ebind (read_block_by_num (env_crypto E) (env_raw E) (num_from_id (env_crypto E) i) (nd_log n)) (\<lambda>tmp.
         case tmp of
           Some b \<Rightarrow> Inr (if block_id (env_crypto E) b = i then Some b else None)
         | None \<Rightarrow> Inr None))"

definition is_known_block :: "chain_env \<Rightarrow> block_id_type \<Rightarrow> node \<Rightarrow> bool result" where
  "is_known_block E i n = ebind (fetch_block_by_id E i n) (\<lambda>b. Inr (b \<noteq> None))"

definition fetch_block_by_number :: "chain_env \<Rightarrow> u32 \<Rightarrow> node \<Rightarrow> signed_block option result" where
  "fetch_block_by_number E num n = (case fork_fetch_by_number num (nd_fork n) of
       [i] \<Rightarrow> Inr (Some (fi_data i))
     | _ \<Rightarrow> read_block_by_num (env_crypto E) (env_raw E) num (nd_log n))"

definition find_block_id_for_num :: "chain_env \<Rightarrow> u32 \<Rightarrow> node \<Rightarrow> block_id_type result" where
  "find_block_id_for_num E num n =
     (if num = 0 then Inr null_id
      else
        let bs = map_of (rows (block_summaries (nd_state n))) (uint (num AND 0xffff));
            rest = ebind (read_block_by_num (env_crypto E) (env_raw E) num (nd_log n)) (\<lambda>b. case b of
                Some b \<Rightarrow> Inr (block_id (env_crypto E) b)
              | None \<Rightarrow> ebind (fetch_block_on_main_branch_by_number num (nd_fork n)) (\<lambda>fitem. case fitem of
                  Some i \<Rightarrow> Inr (fi_id i)
                | None \<Rightarrow> Inr null_id))
        in case bs of
             Some s \<Rightarrow> if num_from_id (env_crypto E) (bso_block_id s) = num then Inr (bso_block_id s) else rest
           | None \<Rightarrow> rest)"

definition get_block_id_for_num :: "chain_env \<Rightarrow> u32 \<Rightarrow> node \<Rightarrow> block_id_type result" where
  "get_block_id_for_num E num n = ebind (find_block_id_for_num E num n) (\<lambda>bid. require (bid \<noteq> null_id) (Inr bid))"

definition get_recent_transaction :: "transaction_id_type \<Rightarrow> node \<Rightarrow> signed_transaction result" where
  "get_recent_transaction i n = (case tbl_find_by (\<lambda>t. txo_trx_id t = i) (transaction_table (nd_state n)) of
       None \<Rightarrow> Inl assert_exception
     | Some (_, t) \<Rightarrow> Inr (txo_packed_trx t))"

definition get_block_ids_on_fork :: "chain_env \<Rightarrow> block_id_type \<Rightarrow> node \<Rightarrow> block_id_type list result" where
  "get_block_ids_on_fork E head_of_fork n =
     ebind (fetch_branch_from (env_crypto E) (head_block_id (nd_state n)) head_of_fork (nd_fork n)) (\<lambda>(first, second).
     require (previous_id (last first) = previous_id (last second))
     (Inr (map fi_id second @ [previous_id (last first)])))"

section \<open>Checkpoints\<close>

text \<open>A \<open>flat_map\<close>: ordered by number, one entry per number.\<close>

definition set_checkpoint :: "u32 \<times> block_id_type \<Rightarrow> (u32 \<times> block_id_type) list \<Rightarrow> (u32 \<times> block_id_type) list" where
  "set_checkpoint c m = insort_key fst c (filter (\<lambda>p. fst p \<noteq> fst c) m)"

definition add_checkpoints :: "(u32 \<times> block_id_type) list \<Rightarrow> node \<Rightarrow> node" where
  "add_checkpoints checkpts n = n\<lparr>nd_checkpoints := fold set_checkpoint checkpts (nd_checkpoints n)\<rparr>"

definition before_last_checkpoint :: "node \<Rightarrow> bool" where
  "before_last_checkpoint n \<longleftrightarrow> nd_checkpoints n \<noteq> [] \<and> fst (last (nd_checkpoints n)) \<ge> head_block_num (nd_state n)"

definition checkpoint_skip :: u32 where
  "checkpoint_skip = skip_witness_signature OR skip_transaction_signatures OR skip_transaction_dupe_check OR skip_fork_db
     OR skip_block_size_check OR skip_tapos_check OR skip_authority_check OR skip_undo_history_check
     OR skip_witness_schedule_check OR skip_validate OR skip_validate_invariants"

definition apply_skip :: "chain_env \<Rightarrow> signed_block \<Rightarrow> u32 \<Rightarrow> node \<Rightarrow> u32 result" where
  "apply_skip E next_block skip n =
     (let num = block_num (env_crypto E) next_block in
      if nd_checkpoints n \<noteq> [] \<and> snd (last (nd_checkpoints n)) \<noteq> null_id then
        ebind (case map_of (nd_checkpoints n) num of
                 Some i \<Rightarrow> require (block_id (env_crypto E) next_block = i) (Inr ())
               | None \<Rightarrow> Inr ()) (\<lambda>_.
        Inr (if fst (last (nd_checkpoints n)) \<ge> num then checkpoint_skip else skip))
      else Inr skip)"

section \<open>Applying a block\<close>

definition log_irreversible_block :: "chain_env \<Rightarrow> u32 \<Rightarrow> unit step" where
  "log_irreversible_block E num n = (case fetch_block_on_main_branch_by_number num (nd_fork n) of
       Inl e \<Rightarrow> (Inl e, n)
     | Inr None \<Rightarrow> (Inl assert_exception, n)
     | Inr (Some block) \<Rightarrow> (case log_append (env_crypto E) (env_raw E) (fi_data block) (nd_log n) of
         Inl e \<Rightarrow> (Inl e, n)
       | Inr (_, l) \<Rightarrow> (Inr (), n\<lparr>nd_log := l\<rparr>)))"

definition log_irreversible :: "chain_env \<Rightarrow> unit step" where
  "log_irreversible E n =
     (if \<not> has_flag (nd_skip n) skip_block_log then
        let log_head_num = (case bl_head (nd_log n) of None \<Rightarrow> 0 | Some b \<Rightarrow> unat (block_num (env_crypto E) b));
            last_irreversible = unat (gpo_last_irreversible_block_num (gpo (nd_state n)))
        in nfold (\<lambda>k. log_irreversible_block E (of_nat k)) [Suc log_head_num..<Suc last_irreversible] n
      else (Inr (), n))"

definition trim_fork :: "unit step" where
  "trim_fork n = (let dpo = gpo (nd_state n) in
     (Inr (), n\<lparr>nd_fork := set_max_size (gpo_head_block_number dpo - gpo_last_irreversible_block_num dpo + 1) (nd_fork n)\<rparr>))"

definition update_last_irreversible_block :: "chain_env \<Rightarrow> unit step" where
  "update_last_irreversible_block E =
     nbind (on_state (\<lambda>_. advance_irreversible)) (\<lambda>_.
     nbind (\<lambda>n. (Inr (), commit_sessions (uint (gpo_last_irreversible_block_num (gpo (nd_state n)))) n)) (\<lambda>_.
     nbind (log_irreversible E) (\<lambda>_.
     trim_fork)))"

definition apply_block_steps :: "chain_env \<Rightarrow> signed_block \<Rightarrow> unit step" where
  "apply_block_steps E next_block =
     nbind (on_state (\<lambda>n. apply_block_start E (nd_producing n) (nd_max_undo n) (nd_skip n) next_block)) (\<lambda>_.
     nbind (update_last_irreversible_block E) (\<lambda>_.
     on_state (\<lambda>_. apply_block_finish E next_block)))"

definition apply_block :: "chain_env \<Rightarrow> signed_block \<Rightarrow> u32 \<Rightarrow> unit step" where
  "apply_block E next_block skip =
     nbind (query (apply_skip E next_block skip)) (\<lambda>skip. with_skip_flags skip (apply_block_steps E next_block))"

definition pop_block :: "chain_env \<Rightarrow> unit step" where
  "pop_block E n =
     (let n = reset_session n in
      case fetch_block_by_id E (head_block_id (nd_state n)) n of
        Inl e \<Rightarrow> (Inl e, n)
      | Inr None \<Rightarrow> (Inl pop_empty_chain, n)
      | Inr (Some head_block) \<Rightarrow> (case fork_pop_block (nd_fork n) of
          Inl e \<Rightarrow> (Inl e, n)
        | Inr f \<Rightarrow> let n = undo_session (n\<lparr>nd_fork := f\<rparr>)
                   in (Inr (), n\<lparr>nd_popped := transactions head_block @ nd_popped n\<rparr>)))"

section \<open>Transactions\<close>

definition push_pending :: "chain_env \<Rightarrow> signed_transaction \<Rightarrow> unit step" where
  "push_pending E trx n =
     (let n = (if nd_session n then n else (start_session n)\<lparr>nd_session := True\<rparr>) in
      in_session squash_session
        (nbind (on_state (\<lambda>n. apply_transaction E (nd_producing n) (nd_skip n) trx)) (\<lambda>_ n.
         (Inr (), n\<lparr>nd_pending := nd_pending n @ [trx]\<rparr>))) n)"

definition push_transaction :: "chain_env \<Rightarrow> signed_transaction \<Rightarrow> u32 \<Rightarrow> unit step" where
  "push_transaction E trx skip n =
     (if fc_trx_pack_size (env_crypto E) trx \<le> unat (gpo_maximum_block_size (gpo (nd_state n)) - 256) then
        let (r, n) = with_skip_flags skip (push_pending E trx) (n\<lparr>nd_producing := True\<rparr>)
        in (r, n\<lparr>nd_producing := False\<rparr>)
      else (Inl assert_exception, n\<lparr>nd_producing := False\<rparr>))"

definition validate_transaction :: "chain_env \<Rightarrow> signed_transaction \<Rightarrow> unit step" where
  "validate_transaction E trx = in_session undo_session (on_state (\<lambda>n. apply_transaction E (nd_producing n) (nd_skip n) trx))"

definition clear_pending :: "unit step" where
  "clear_pending n =
     (if nd_pending n = [] \<or> nd_session n then (Inr (), reset_session (n\<lparr>nd_pending := []\<rparr>))
      else (Inl assert_exception, n))"

text \<open>The destructor of \<open>pending_transactions_restorer\<close>: exceptions of the transactions are dropped.\<close>

definition restore_transaction :: "chain_env \<Rightarrow> signed_transaction \<Rightarrow> node \<Rightarrow> node" where
  "restore_transaction E tx n =
     (if \<not> is_known_transaction (transaction_id (env_crypto E) tx) (nd_state n) then snd (push_pending E tx n) else n)"

definition restore_pending :: "chain_env \<Rightarrow> signed_transaction list \<Rightarrow> node \<Rightarrow> node" where
  "restore_pending E pending n =
     (let n = fold (restore_transaction E) (nd_popped n) n;
          n = n\<lparr>nd_popped := []\<rparr>
      in fold (restore_transaction E) pending n)"

definition without_pending_transactions :: "chain_env \<Rightarrow> 'a step \<Rightarrow> 'a step" where
  "without_pending_transactions E callback n =
     (let pending = nd_pending n in
      case clear_pending (n\<lparr>nd_pending := []\<rparr>) of
        (Inl e, n) \<Rightarrow> (Inl e, n)
      | (Inr _, n) \<Rightarrow> let (r, n) = callback n in (r, restore_pending E pending n))"

section \<open>Blocks and forks\<close>

text \<open>
  Popping moves the head of the fork database to its predecessor, whose address is smaller; that
  address is the fuel.
\<close>

primrec pop_until_loop :: "chain_env \<Rightarrow> nat \<Rightarrow> block_id_type \<Rightarrow> unit step" where
  "pop_until_loop E 0 i n = (Inl nontermination, n)"
| "pop_until_loop E (Suc k) i n =
     (if head_block_id (nd_state n) \<noteq> i then nbind (pop_block E) (\<lambda>_. pop_until_loop E k i) n else (Inr (), n))"

definition pop_until :: "chain_env \<Rightarrow> block_id_type \<Rightarrow> unit step" where
  "pop_until E i n =
     pop_until_loop E (case fdb_head (nd_fork n) of None \<Rightarrow> 2 | Some h \<Rightarrow> fi_addr h + 3) i n"

text \<open>Pushing the blocks of a fork: the blocks that are left when one of them throws, with the exception.\<close>

primrec apply_branch :: "chain_env \<Rightarrow> u32 \<Rightarrow> fork_item list \<Rightarrow> node \<Rightarrow> (exc \<times> fork_item list) option \<times> node" where
  "apply_branch E skip [] n = (None, n)"
| "apply_branch E skip (i # items) n = (case in_session id (apply_block E (fi_data i) skip) n of
       (Inl e, n) \<Rightarrow> (Some (e, i # items), n)
     | (Inr _, n) \<Rightarrow> apply_branch E skip items n)"

definition restore_good_fork :: "chain_env \<Rightarrow> u32 \<Rightarrow> exc \<Rightarrow> fork_item list \<Rightarrow> fork_item list \<Rightarrow> unit step" where
  "restore_good_fork E skip except bad good n =
     (let n = n\<lparr>nd_fork := set_head (Some (hd good)) (fold (\<lambda>i. fork_remove (block_id (env_crypto E) (fi_data i))) bad (nd_fork n))\<rparr> in
      nbind (pop_until E (previous (fi_data (last good)))) (\<lambda>_.
      nbind (nfold (\<lambda>i. in_session id (apply_block E (fi_data i) skip)) (rev good)) (\<lambda>_ n.
      (Inl except, n))) n)"

definition switch_forks :: "chain_env \<Rightarrow> u32 \<Rightarrow> fork_item \<Rightarrow> bool step" where
  "switch_forks E skip new_head n =
     (case fetch_branch_from (env_crypto E) (block_id (env_crypto E) (fi_data new_head)) (head_block_id (nd_state n)) (nd_fork n) of
        Inl e \<Rightarrow> (Inl e, n)
      | Inr (first, second) \<Rightarrow>
          let release = (\<lambda>(r, n). (r, n\<lparr>nd_fork := (nd_fork n)\<lparr>fdb_held := []\<rparr>\<rparr>))
          in release (nbind (pop_until E (previous (fi_data (last second)))) (\<lambda>_ n.
               case apply_branch E skip (rev first) n of
                 (None, n) \<Rightarrow> (Inr True, n)
               | (Some (e, bad), n) \<Rightarrow> nbind (restore_good_fork E skip e bad second) (\<lambda>_ n. (Inr True, n)) n)
             (n\<lparr>nd_fork := (nd_fork n)\<lparr>fdb_held := first @ second\<rparr>\<rparr>)))"

definition push_next_block :: "chain_env \<Rightarrow> signed_block \<Rightarrow> u32 \<Rightarrow> bool step" where
  "push_next_block E new_block skip n = (case in_session id (apply_block E new_block skip) n of
       (Inl e, n) \<Rightarrow> (Inl e, n\<lparr>nd_fork := fork_remove (block_id (env_crypto E) new_block) (nd_fork n)\<rparr>)
     | (Inr _, n) \<Rightarrow> (Inr False, n))"

definition push_block_steps :: "chain_env \<Rightarrow> signed_block \<Rightarrow> bool step" where
  "push_block_steps E new_block n =
     (let skip = nd_skip n in
      if \<not> has_flag skip skip_fork_db then
        (case fork_push_block (env_crypto E) new_block (nd_fork n) of
           Inl e \<Rightarrow> (Inl e, n)
         | Inr (None, f) \<Rightarrow> (Inl null_pointer, n)
         | Inr (Some new_head, f) \<Rightarrow>
             let n = n\<lparr>nd_fork := f\<rparr> in
             if previous (fi_data new_head) \<noteq> head_block_id (nd_state n) then
               if block_num (env_crypto E) (fi_data new_head) > head_block_num (nd_state n)
               then switch_forks E skip new_head n
               else (Inr False, n)
             else push_next_block E new_block skip n)
      else push_next_block E new_block skip n)"

definition push_block :: "chain_env \<Rightarrow> signed_block \<Rightarrow> u32 \<Rightarrow> bool step" where
  "push_block E new_block skip = with_skip_flags skip (without_pending_transactions E (push_block_steps E new_block))"

section \<open>Generating a block\<close>

text \<open>
  What \<open>generate_block\<close> uses of libraries outside the repository: the public key of a private key and
  the size of an empty packed header.
\<close>

record producer_lib =
  get_public_key :: "private_key_type \<Rightarrow> public_key_type"
  empty_header_size :: nat

definition collect_transaction :: "chain_env \<Rightarrow> time_point_sec \<Rightarrow> u32 \<Rightarrow> signed_transaction \<Rightarrow> nat \<times> signed_transaction list \<times> node
    \<Rightarrow> nat \<times> signed_transaction list \<times> node" where
  "collect_transaction E when maximum_block_size tx = (\<lambda>(total_block_size, txs, n).
     if expiration tx < when then (total_block_size, txs, n)
     else
       let new_total_size = total_block_size + fc_trx_pack_size (env_crypto E) tx in
       if new_total_size \<ge> unat maximum_block_size then (total_block_size, txs, n)
       else (case in_session squash_session (on_state (\<lambda>n. apply_transaction E (nd_producing n) (nd_skip n) tx)) n of
               (Inl e, n) \<Rightarrow> (total_block_size, txs, n)
             | (Inr _, n) \<Rightarrow> (new_total_size, txs @ [tx], n)))"

definition collect_transactions :: "chain_env \<Rightarrow> producer_lib \<Rightarrow> time_point_sec \<Rightarrow> node \<Rightarrow> signed_transaction list \<times> node" where
  "collect_transactions E P when n =
     (let maximum_block_size = gpo_maximum_block_size (gpo (nd_state n));
          n = reset_session n;
          n = (start_session n)\<lparr>nd_session := True\<rparr>;
          (_, txs, n) = fold (collect_transaction E when maximum_block_size) (nd_pending n) (empty_header_size P + 4, [], n)
      in (txs, reset_session n))"

definition version_extensions :: "witness_object \<Rightarrow> block_header_extension list" where
  "version_extensions w = (if wit_running_version w \<noteq> WLS_BLOCKCHAIN_VERSION then [ext_version WLS_BLOCKCHAIN_VERSION] else [])"

definition hardfork_extensions :: "witness_object \<Rightarrow> hardfork_property_object \<Rightarrow> block_header_extension list result" where
  "hardfork_extensions w hfp =
     (let vote = (\<lambda>i. ebind (array_get hardfork_versions i) (\<lambda>v. ebind (array_get hardfork_times i) (\<lambda>t. Inr (v, t))));
          ext = (\<lambda>(v, t). ext_hardfork_version_vote \<lparr>hf_version = v, hf_time = t\<rparr>);
          revoke = (if hpo_current_hardfork_version hfp = WLS_BLOCKCHAIN_HARDFORK_VERSION \<and> wit_hardfork_version_vote w > WLS_BLOCKCHAIN_HARDFORK_VERSION
                    then ebind (vote (hpo_last_hardfork hfp)) (\<lambda>vt. Inr [ext vt]) else Inr [])
      in if hpo_current_hardfork_version hfp < WLS_BLOCKCHAIN_HARDFORK_VERSION then
           ebind (vote (hpo_last_hardfork hfp + 1)) (\<lambda>(v, t).
           if wit_hardfork_version_vote w \<noteq> v \<or> wit_hardfork_time_vote w \<noteq> t then Inr [ext (v, t)] else revoke)
         else revoke)"

definition may_produce :: "chain_env \<Rightarrow> producer_lib \<Rightarrow> time_point_sec \<Rightarrow> account_name_type \<Rightarrow> private_key_type \<Rightarrow> node \<Rightarrow> unit result" where
  "may_produce E P when witness_owner key n =
     (let d = nd_state n; slot_num = get_slot_at_time when d in
      require (slot_num > 0)
      (ebind (get_scheduled_witness slot_num d) (\<lambda>scheduled_witness.
       require (scheduled_witness = witness_owner)
       (ebind (get_witness witness_owner d) (\<lambda>(_, w).
        require (has_flag (nd_skip n) skip_witness_signature \<or> wit_signing_key w = get_public_key P key) (Inr ()))))))"

definition assemble_block :: "chain_env \<Rightarrow> time_point_sec \<Rightarrow> account_name_type \<Rightarrow> private_key_type \<Rightarrow> signed_transaction list \<Rightarrow> node \<Rightarrow> signed_block result" where
  "assemble_block E when witness_owner key txs n =
     (let d = nd_state n;
          pending_block = \<lparr>previous = head_block_id d, timestamp = when, witness = witness_owner, transaction_merkle_root = replicate 5 0,
             extensions = [], witness_signature = 0, transactions = txs\<rparr>;
          pending_block = pending_block\<lparr>transaction_merkle_root := calculate_merkle_root (env_crypto E) pending_block\<rparr>
      in ebind (get_witness witness_owner d) (\<lambda>(_, w).
         ebind (hardfork_extensions w (hpo d)) (\<lambda>ext.
         let pending_block = pending_block\<lparr>extensions := version_extensions w @ ext\<rparr>;
             pending_block = (if \<not> has_flag (nd_skip n) skip_witness_signature then sign_block (env_crypto E) key pending_block else pending_block)
         in require (has_flag (nd_skip n) skip_block_size_check \<or> fc_pack_size (env_crypto E) pending_block \<le> WLS_MAX_BLOCK_SIZE)
            (Inr pending_block))))"

definition generate_block :: "chain_env \<Rightarrow> producer_lib \<Rightarrow> time_point_sec \<Rightarrow> account_name_type \<Rightarrow> private_key_type \<Rightarrow> u32 \<Rightarrow> signed_block step" where
  "generate_block E P when witness_owner key skip =
     with_skip_flags skip (
       nbind (query (may_produce E P when witness_owner key)) (\<lambda>_.
       nbind (\<lambda>n. (let (txs, n) = collect_transactions E P when n in (Inr txs, n))) (\<lambda>txs.
       nbind (query (assemble_block E when witness_owner key txs)) (\<lambda>pending_block.
       nbind (push_block E pending_block skip) (\<lambda>_.
       nreturn pending_block)))))"

section \<open>Steps and what they leave alone\<close>

lemma nbind_Inr [simp]: "nbind m f n = (Inr y, n2) \<longleftrightarrow> (\<exists>x n1. m n = (Inr x, n1) \<and> f x n1 = (Inr y, n2))"
  by (auto simp: nbind_def split: prod.splits sum.splits)

lemma nbind_Inl: "nbind m f n = (Inl e, n2) \<longleftrightarrow> m n = (Inl e, n2) \<or> (\<exists>x n1. m n = (Inr x, n1) \<and> f x n1 = (Inl e, n2))"
  by (auto simp: nbind_def split: prod.splits sum.splits)

lemma on_state_Inr [simp]: "on_state f n = (Inr u, n') \<longleftrightarrow> (\<exists>d. f n (nd_state n) = Inr d \<and> n' = n\<lparr>nd_state := d\<rparr>)"
  by (auto simp: on_state_def split: sum.splits)

lemma on_state_Inl [simp]: "on_state f n = (Inl e, n') \<longleftrightarrow> f n (nd_state n) = Inl e \<and> n' = n"
  by (auto simp: on_state_def split: sum.splits)

lemma query_Inr [simp]: "query f n = (Inr x, n') \<longleftrightarrow> f n = Inr x \<and> n' = n"
  by (auto simp: query_def)

lemma query_Inl [simp]: "query f n = (Inl e, n') \<longleftrightarrow> f n = Inl e \<and> n' = n"
  by (auto simp: query_def)

text \<open>
  \<open>framed n n'\<close>: a step on the chain state and the stores of blocks; of the undo history it may have
  committed the oldest sessions.
\<close>

definition framed :: "node \<Rightarrow> node \<Rightarrow> bool" where
  "framed n n' \<longleftrightarrow> nd_revision n' = nd_revision n \<and> nd_pending n' = nd_pending n \<and> nd_session n' = nd_session n
     \<and> nd_popped n' = nd_popped n \<and> nd_producing n' = nd_producing n \<and> nd_skip n' = nd_skip n
     \<and> nd_checkpoints n' = nd_checkpoints n \<and> nd_max_undo n' = nd_max_undo n
     \<and> (\<exists>k. nd_saved n' = take k (nd_saved n))"

lemma framed_refl: "framed n n"
  by (auto simp: framed_def intro: exI [of _ "length (nd_saved n)"])

lemma framed_trans: "framed n m \<Longrightarrow> framed m l \<Longrightarrow> framed n l"
  by (auto simp: framed_def)

lemma framed_updates [simp]:
  "framed n (m\<lparr>nd_state := d\<rparr>) = framed n m" "framed n (m\<lparr>nd_fork := f\<rparr>) = framed n m" "framed n (m\<lparr>nd_log := l\<rparr>) = framed n m"
  by (simp_all add: framed_def)

lemma commit_take: "\<exists>k. rev (dropWhile P (rev xs)) = take k xs"
proof -
  have "takeWhile P (rev xs) @ dropWhile P (rev xs) = rev xs" by simp
  then have "rev (dropWhile P (rev xs)) @ rev (takeWhile P (rev xs)) = xs" by (metis rev_append rev_rev_ident)
  then show ?thesis by (metis append_eq_conv_conj)
qed

lemma commit_framed: "framed n (commit_sessions r n)"
  using commit_take [of "\<lambda>p. fst p \<le> r" "nd_saved n"] by (simp add: framed_def commit_sessions_def)

text \<open>A step that changes neither the chain state nor the fork database.\<close>

definition logs :: "node \<Rightarrow> node \<Rightarrow> bool" where
  "logs n n' \<longleftrightarrow> (\<exists>l. n' = n\<lparr>nd_log := l\<rparr>)"

lemma nfold_logs:
  assumes "\<And>x n. logs n (snd (f x n))"
  shows "logs n (snd (nfold f xs n))"
proof (induction xs arbitrary: n)
  case Nil
  show ?case by (auto simp: nreturn_def logs_def intro: exI [of _ "nd_log n"])
next
  case (Cons x xs)
  obtain r m where m: "f x n = (r, m)" by (cases "f x n")
  have "logs n m" using assms [of n x] by (simp add: m)
  then show ?case using Cons.IH [of m] by (cases r) (auto simp: nbind_def m logs_def)
qed

lemma log_irreversible_logs: "logs n (snd (log_irreversible E n))"
proof -
  have refl: "logs n n" for n by (auto simp: logs_def intro: exI [of _ "nd_log n"])
  have "logs n (snd (log_irreversible_block E k n))" for k n
    using refl by (auto simp: log_irreversible_block_def logs_def split: sum.splits option.splits prod.splits)
  then show ?thesis using refl nfold_logs [of "\<lambda>k. log_irreversible_block E (of_nat k)"]
    by (simp add: log_irreversible_def Let_def del: upt_Suc)
qed

lemma logs_framed: "logs n n' \<Longrightarrow> framed n n' \<and> nd_state n' = nd_state n \<and> nd_fork n' = nd_fork n"
  by (auto simp: logs_def framed_refl)

lemma update_lib_framed:
  assumes "update_last_irreversible_block E n = (r, n')"
  shows "framed n n' \<and> (r = Inr () \<longrightarrow> advance_irreversible (nd_state n) = Inr (nd_state n'))
    \<and> (\<forall>d. advance_irreversible (nd_state n) = Inr d \<longrightarrow> nd_saved n' = nd_saved (commit_sessions (uint (gpo_last_irreversible_block_num (gpo d))) n))
    \<and> (\<forall>e. advance_irreversible (nd_state n) = Inl e \<longrightarrow> nd_saved n' = nd_saved n)"
proof (cases "advance_irreversible (nd_state n)")
  case (Inl e)
  then show ?thesis using assms by (auto simp: update_last_irreversible_block_def nbind_def on_state_def framed_refl)
next
  case (Inr d)
  define m where "m = commit_sessions (uint (gpo_last_irreversible_block_num (gpo d))) (n\<lparr>nd_state := d\<rparr>)"
  have m: "framed n m" "nd_state m = d" "nd_saved m = nd_saved (commit_sessions (uint (gpo_last_irreversible_block_num (gpo d))) n)"
    using framed_trans [OF _ commit_framed, of n "n\<lparr>nd_state := d\<rparr>"] framed_refl by (simp_all add: m_def commit_sessions_def)
  obtain r1 n1 where l: "log_irreversible E m = (r1, n1)" by (cases "log_irreversible E m")
  have n1: "framed m n1" "nd_state n1 = nd_state m" "nd_saved n1 = nd_saved m"
    using log_irreversible_logs [of m E] by (auto simp: l logs_def framed_refl)
  have "n' = n1 \<or> (\<exists>f. n' = n1\<lparr>nd_fork := f\<rparr>)"
    using assms Inr l unfolding update_last_irreversible_block_def
    by (cases r1) (auto simp: nbind_def on_state_def m_def trim_fork_def Let_def)
  then show ?thesis using Inr m n1 framed_trans by auto
qed

lemma apply_block_steps_state:
  assumes "apply_block_steps E b n = (r, n')"
  shows "framed n n'"
    and "r = Inr () \<Longrightarrow> apply_block_state E (nd_producing n) (nd_max_undo n) (nd_skip n) b (nd_state n) = Inr (nd_state n')"
proof -
  show "framed n n'"
  proof (cases "apply_block_start E (nd_producing n) (nd_max_undo n) (nd_skip n) b (nd_state n)")
    case (Inl e)
    then show ?thesis using assms by (auto simp: apply_block_steps_def nbind_def on_state_def framed_refl)
  next
    case (Inr d)
    obtain r1 n1 where u: "update_last_irreversible_block E (n\<lparr>nd_state := d\<rparr>) = (r1, n1)"
      by (cases "update_last_irreversible_block E (n\<lparr>nd_state := d\<rparr>)")
    have "framed n n1" using update_lib_framed [OF u] framed_trans [of n "n\<lparr>nd_state := d\<rparr>"] framed_refl by simp
    moreover have "n' = n1 \<or> (\<exists>d. n' = n1\<lparr>nd_state := d\<rparr>)"
      using assms Inr u by (cases r1) (auto simp: apply_block_steps_def nbind_def on_state_def split: sum.splits)
    ultimately show ?thesis by auto
  qed
  show "apply_block_state E (nd_producing n) (nd_max_undo n) (nd_skip n) b (nd_state n) = Inr (nd_state n')" if "r = Inr ()"
  proof -
    from assms that obtain d n1 where s: "apply_block_start E (nd_producing n) (nd_max_undo n) (nd_skip n) b (nd_state n) = Inr d"
      and u: "update_last_irreversible_block E (n\<lparr>nd_state := d\<rparr>) = (Inr (), n1)"
      and f: "apply_block_finish E b (nd_state n1) = Inr (nd_state n')"
      by (auto simp: apply_block_steps_def)
    show ?thesis using s f update_lib_framed [OF u] by (simp add: apply_block_state_def)
  qed
qed

text \<open>The block \<open>b\<close> applied to a chain state with the flags that the node uses.\<close>

definition block_on :: "chain_env \<Rightarrow> u32 \<Rightarrow> node \<Rightarrow> signed_block \<Rightarrow> database \<Rightarrow> database result" where
  "block_on E skip n b d = ebind (apply_skip E b skip n) (\<lambda>s. apply_block_state E (nd_producing n) (nd_max_undo n) s b d)"

lemma apply_skip_cong:
  assumes "nd_checkpoints n' = nd_checkpoints n"
  shows "apply_skip E b skip n' = apply_skip E b skip n"
  unfolding apply_skip_def assms ..

lemma block_on_cong:
  assumes "nd_checkpoints n' = nd_checkpoints n" "nd_producing n' = nd_producing n" "nd_max_undo n' = nd_max_undo n"
  shows "block_on E skip n' = block_on E skip n"
  unfolding block_on_def apply_skip_cong [OF assms(1)] assms(2,3) ..

lemma apply_block_result:
  assumes "apply_block E b skip n = (r, n')"
  shows "framed n n'" "r = Inr () \<Longrightarrow> block_on E skip n b (nd_state n) = Inr (nd_state n')"
proof -
  have "framed n n' \<and> (r = Inr () \<longrightarrow> block_on E skip n b (nd_state n) = Inr (nd_state n'))"
  proof (cases "apply_skip E b skip n")
    case (Inl e)
    then show ?thesis using assms by (auto simp: apply_block_def nbind_def query_def framed_refl)
  next
    case (Inr s)
    obtain r1 n1 where a: "apply_block_steps E b (n\<lparr>nd_skip := s\<rparr>) = (r1, n1)" by (cases "apply_block_steps E b (n\<lparr>nd_skip := s\<rparr>)")
    have n': "n' = n1\<lparr>nd_skip := nd_skip n\<rparr>" "r = r1" using assms Inr a by (auto simp: apply_block_def nbind_def query_def with_skip_flags_def)
    then have "framed n n'" using apply_block_steps_state(1) [OF a] by (simp add: framed_def)
    then show ?thesis using apply_block_steps_state(2) [OF a] Inr by (simp add: block_on_def n')
  qed
  then show "framed n n'" "r = Inr () \<Longrightarrow> block_on E skip n b (nd_state n) = Inr (nd_state n')" by auto
qed

section \<open>The state at the head block\<close>

text \<open>The state without the pending transactions.\<close>

definition head_state :: "node \<Rightarrow> database" where
  "head_state n = (if nd_session n then snd (hd (nd_saved n)) else nd_state n)"

definition session_ok :: "node \<Rightarrow> bool" where
  "session_ok n \<longleftrightarrow> (nd_session n \<longrightarrow> nd_saved n \<noteq> [])"

lemma reset_session_head:
  assumes "session_ok n"
  shows "nd_state (reset_session n) = head_state n" "\<not> nd_session (reset_session n)"
    "set (nd_saved (reset_session n)) \<subseteq> set (nd_saved n)"
  using assms by (auto simp: reset_session_def undo_session_def head_state_def session_ok_def split: list.splits)

text \<open>A transaction on top of the head block.\<close>

lemma push_pending_cases:
  assumes "session_ok n" "push_pending E trx n = (r, n')"
  shows "session_ok n' \<and> nd_session n' \<and> head_state n' = head_state n \<and> nd_fork n' = nd_fork n \<and> nd_log n' = nd_log n
    \<and> nd_popped n' = nd_popped n \<and> nd_skip n' = nd_skip n \<and> nd_producing n' = nd_producing n
    \<and> nd_checkpoints n' = nd_checkpoints n \<and> nd_max_undo n' = nd_max_undo n
    \<and> (nd_session n \<longrightarrow> nd_saved n' = nd_saved n \<and> nd_revision n' = nd_revision n)
    \<and> (case apply_transaction E (nd_producing n) (nd_skip n) trx (nd_state n) of
         Inl e \<Rightarrow> r = Inl e \<and> nd_state n' = nd_state n \<and> nd_pending n' = nd_pending n
       | Inr d \<Rightarrow> r = Inr () \<and> nd_state n' = d \<and> nd_pending n' = nd_pending n @ [trx])"
proof -
  define m where "m = (if nd_session n then n else (start_session n)\<lparr>nd_session := True\<rparr>)"
  have m: "nd_session m" "nd_state m = nd_state n" "head_state m = head_state n" "nd_pending m = nd_pending n" "nd_saved m \<noteq> []"
    "nd_producing m = nd_producing n" "nd_skip m = nd_skip n"
    using assms(1) by (auto simp: m_def start_session_def head_state_def session_ok_def)
  obtain p S where S: "nd_saved m = p # S" using m(5) by (cases "nd_saved m") auto
  show ?thesis
  proof (cases "apply_transaction E (nd_producing n) (nd_skip n) trx (nd_state n)")
    case (Inl e)
    then have "r = Inl e" "n' = m" using assms(2) m
      by (auto simp: push_pending_def Let_def m_def [symmetric] in_session_def nbind_def on_state_def start_session_def undo_session_def)
    then show ?thesis using Inl m by (auto simp: session_ok_def m_def start_session_def)
  next
    case (Inr d)
    then have "r = Inr ()" "n' = m\<lparr>nd_state := d, nd_pending := nd_pending m @ [trx]\<rparr>" using assms(2) m S
      by (auto simp: push_pending_def Let_def m_def [symmetric] in_session_def nbind_def on_state_def start_session_def squash_session_def)
    then show ?thesis using Inr m by (auto simp: session_ok_def m_def start_session_def head_state_def)
  qed
qed

text \<open>What every step between clearing and restoring the pending transactions keeps.\<close>

definition settled :: "node \<Rightarrow> node \<Rightarrow> bool" where
  "settled n n' \<longleftrightarrow> \<not> nd_session n' \<and> nd_pending n' = nd_pending n \<and> nd_skip n' = nd_skip n \<and> nd_producing n' = nd_producing n
     \<and> nd_checkpoints n' = nd_checkpoints n \<and> nd_max_undo n' = nd_max_undo n"

lemma settled_refl: "\<not> nd_session n \<Longrightarrow> settled n n"
  by (simp add: settled_def)

lemma settled_trans: "settled n m \<Longrightarrow> settled m l \<Longrightarrow> settled n l"
  by (simp add: settled_def)

lemma settled_updates [simp]: "settled n (m\<lparr>nd_fork := f\<rparr>) = settled n m" "settled (n\<lparr>nd_fork := f\<rparr>) m = settled n m"
  by (simp_all add: settled_def)

lemma settled_block_on: "settled n n' \<Longrightarrow> block_on E skip n' = block_on E skip n"
  by (rule block_on_cong) (simp_all add: settled_def)

lemma block_session:
  assumes "\<not> nd_session n" "in_session id (apply_block E b skip) n = (r, n')"
  shows "settled n n'" "nd_popped n' = nd_popped n"
    and "r = Inr () \<Longrightarrow> block_on E skip n b (nd_state n) = Inr (nd_state n')"
proof -
  obtain r1 n1 where a: "apply_block E b skip (start_session n) = (r1, n1)" by (cases "apply_block E b skip (start_session n)")
  have f: "framed (start_session n) n1" using apply_block_result(1) [OF a] .
  have r: "r = r1" "n' = (case r1 of Inl _ \<Rightarrow> undo_session n1 | Inr _ \<Rightarrow> n1)"
    using assms(2) a by (auto simp: in_session_def split: sum.splits)
  show "settled n n'" "nd_popped n' = nd_popped n"
    using f assms(1) unfolding r(2)
    by (auto simp: settled_def framed_def start_session_def undo_session_def split: sum.splits list.splits)
  show "block_on E skip n b (nd_state n) = Inr (nd_state n')" if "r = Inr ()"
    using apply_block_result(2) [OF a] that r block_on_cong [of "start_session n" n E skip] by (simp add: start_session_def)
qed

lemma apply_branch_result:
  assumes "\<not> nd_session n" "apply_branch E skip items n = (None, n')"
  shows "settled n n' \<and> efold (block_on E skip n) (map fi_data items) (nd_state n) = Inr (nd_state n')"
  using assms
proof (induction items arbitrary: n)
  case (Cons i items)
  obtain r n1 where b: "in_session id (apply_block E (fi_data i) skip) n = (r, n1)"
    by (cases "in_session id (apply_block E (fi_data i) skip) n")
  have r: "r = Inr ()" "apply_branch E skip items n1 = (None, n')" using Cons.prems(2) b by (auto split: sum.splits)
  note l = block_session [OF Cons.prems(1) b]
  have "\<not> nd_session n1" using l(1) by (simp add: settled_def)
  from Cons.IH [OF this r(2)] show ?case using l(1) l(3) [OF r(1)] settled_trans settled_block_on [OF l(1)] by auto
qed (simp add: settled_refl)

lemma pop_block_result:
  assumes "\<not> nd_session n" "pop_block E n = (r, n')"
  shows "settled n n'" "set (nd_saved n') \<subseteq> set (nd_saved n)" "nd_state n' = nd_state n \<or> nd_state n' \<in> snd ` set (nd_saved n)"
  using assms
  by (force simp: pop_block_def Let_def reset_session_def undo_session_def settled_def split: sum.splits option.splits list.splits prod.splits)+

lemma pop_until_result:
  assumes "\<not> nd_session n" "pop_until_loop E k i n = (r, n')"
  shows "settled n n' \<and> set (nd_saved n') \<subseteq> set (nd_saved n) \<and> (nd_state n' = nd_state n \<or> nd_state n' \<in> snd ` set (nd_saved n))
    \<and> (r = Inr () \<longrightarrow> head_block_id (nd_state n') = i)"
  using assms
proof (induction k arbitrary: n)
  case 0
  then show ?case by (auto simp: settled_refl)
next
  case (Suc k)
  show ?case
  proof (cases "head_block_id (nd_state n) = i")
    case False
    obtain r1 n1 where p: "pop_block E n = (r1, n1)" by (cases "pop_block E n")
    note l = pop_block_result [OF Suc.prems(1) p]
    show ?thesis
    proof (cases r1)
      case (Inl e)
      then have "r = Inl e \<and> n' = n1" using Suc.prems(2) False p by (simp add: nbind_def)
      then show ?thesis using l by simp
    next
      case (Inr u)
      then have n': "pop_until_loop E k i n1 = (r, n')" using Suc.prems(2) False p by (simp add: nbind_def)
      have "\<not> nd_session n1" using l(1) by (simp add: settled_def)
      note IH = Suc.IH [OF this n']
      have "nd_state n' = nd_state n \<or> nd_state n' \<in> snd ` set (nd_saved n)"
        using IH l(3) image_mono [OF l(2), of snd] by (metis subsetD)
      then show ?thesis using IH settled_trans [OF l(1)] l(2) by (meson subset_trans)
    qed
  qed (use Suc.prems in \<open>simp add: settled_refl\<close>)
qed

lemma switch_forks_result:
  assumes "\<not> nd_session n" "switch_forks E skip h n = (Inr x, n')"
  shows "x \<and> settled n n' \<and> (\<exists>d bs. (d = nd_state n \<or> d \<in> snd ` set (nd_saved n)) \<and> efold (block_on E skip n) bs d = Inr (nd_state n'))"
proof -
  obtain first second where b: "fetch_branch_from (env_crypto E) (block_id (env_crypto E) (fi_data h)) (head_block_id (nd_state n)) (nd_fork n)
      = Inr (first, second)"
    using assms(2) by (auto simp: switch_forks_def split: sum.splits)
  define m where "m = n\<lparr>nd_fork := (nd_fork n)\<lparr>fdb_held := first @ second\<rparr>\<rparr>"
  obtain k where k: "pop_until E (previous (fi_data (last second))) m = pop_until_loop E k (previous (fi_data (last second))) m"
    by (simp add: pop_until_def)
  obtain r1 n1 where p: "pop_until E (previous (fi_data (last second))) m = (r1, n1)"
    by (cases "pop_until E (previous (fi_data (last second))) m")
  have m: "\<not> nd_session m" "settled n m" using assms(1) by (simp_all add: m_def settled_refl)
  note l = pop_until_result [OF m(1) p [unfolded k]]
  obtain u where r1: "r1 = Inr u" using assms(2) b p by (cases r1) (auto simp: switch_forks_def m_def [symmetric] Let_def nbind_def)
  obtain o2 n2 where a: "apply_branch E skip (rev first) n1 = (o2, n2)" by (cases "apply_branch E skip (rev first) n1")
  have "o2 = None" using assms(2) b p r1 a
    by (auto simp: switch_forks_def m_def [symmetric] Let_def nbind_def restore_good_fork_def split: prod.splits sum.splits option.splits)
  then have x: "x" "n' = n2\<lparr>nd_fork := (nd_fork n2)\<lparr>fdb_held := []\<rparr>\<rparr>"
    using assms(2) b p r1 a by (auto simp: switch_forks_def m_def [symmetric] Let_def nbind_def)
  have n1: "\<not> nd_session n1" "settled n n1" using l settled_trans [OF m(2)] by (auto simp: settled_def)
  note q = apply_branch_result [OF n1(1) a [unfolded \<open>o2 = None\<close>]]
  have "settled n n'" using q settled_trans [OF n1(2)] by (simp add: x)
  moreover have "efold (block_on E skip n) (map fi_data (rev first)) (nd_state n1) = Inr (nd_state n')"
    using q settled_block_on [OF n1(2)] by (simp add: x)
  moreover have "nd_state n1 = nd_state n \<or> nd_state n1 \<in> snd ` set (nd_saved n)" using l by (simp add: m_def)
  ultimately show ?thesis using x(1) by blast
qed

lemma push_next_block_result:
  assumes "\<not> nd_session n" "push_next_block E b skip n = (r, n')"
  shows "settled n n'" "r = Inr x \<Longrightarrow> \<not> x \<and> block_on E skip n b (nd_state n) = Inr (nd_state n')"
proof -
  obtain r1 n1 where s: "in_session id (apply_block E b skip) n = (r1, n1)" by (cases "in_session id (apply_block E b skip) n")
  note l = block_session [OF assms(1) s]
  show "settled n n'" using assms(2) s l(1) by (auto simp: push_next_block_def split: sum.splits)
  show "\<not> x \<and> block_on E skip n b (nd_state n) = Inr (nd_state n')" if "r = Inr x"
    using assms(2) s l(3) that by (auto simp: push_next_block_def split: sum.splits)
qed

lemma push_block_steps_result:
  assumes "\<not> nd_session n" "push_block_steps E b n = (Inr x, n')"
  shows "settled n n' \<and> (if x then \<exists>d bs. (d = nd_state n \<or> d \<in> snd ` set (nd_saved n)) \<and> efold (block_on E (nd_skip n) n) bs d = Inr (nd_state n')
    else nd_state n' = nd_state n \<or> block_on E (nd_skip n) n b (nd_state n) = Inr (nd_state n'))"
proof -
  have fork: "block_on E s (n\<lparr>nd_fork := f\<rparr>) = block_on E s n" for s f by (rule block_on_cong) simp_all
  show ?thesis
  proof (cases "has_flag (nd_skip n) skip_fork_db")
    case True
    then have "push_next_block E b (nd_skip n) n = (Inr x, n')" using assms(2) by (simp add: push_block_steps_def)
    from push_next_block_result [OF assms(1) this] show ?thesis by simp
  next
    case False
    then obtain h f where f: "fork_push_block (env_crypto E) b (nd_fork n) = Inr (Some h, f)"
      using assms(2) by (auto simp: push_block_steps_def Let_def split: sum.splits option.splits)
    define m where "m = n\<lparr>nd_fork := f\<rparr>"
    have m: "\<not> nd_session m" "settled n m" using assms(1) by (simp_all add: m_def settled_refl)
    have "push_block_steps E b n = (if previous (fi_data h) \<noteq> head_block_id (nd_state m) then
        if block_num (env_crypto E) (fi_data h) > head_block_num (nd_state m) then switch_forks E (nd_skip n) h m else (Inr False, m)
        else push_next_block E b (nd_skip n) m)"
      using False f by (simp add: push_block_steps_def Let_def m_def)
    with assms(2) consider "switch_forks E (nd_skip n) h m = (Inr x, n')" | "x = False" "n' = m" | "push_next_block E b (nd_skip n) m = (Inr x, n')"
      by (metis Pair_inject sum.inject(2))
    then show ?thesis
    proof cases
      case 1
      from switch_forks_result [OF m(1) 1] show ?thesis using settled_trans [OF m(2)] by (auto simp: m_def fork)
    next
      case 2
      then show ?thesis using m(2) by (simp add: m_def)
    next
      case 3
      from push_next_block_result [OF m(1) 3] show ?thesis using settled_trans [OF m(2)] by (simp add: m_def fork)
    qed
  qed
qed

section \<open>Restoring the pending transactions\<close>

lemma restore_transaction_head:
  "session_ok n \<Longrightarrow> session_ok (restore_transaction E tx n) \<and> head_state (restore_transaction E tx n) = head_state n"
  using push_pending_cases [of n E tx "fst (push_pending E tx n)" "snd (push_pending E tx n)"]
  by (auto simp: restore_transaction_def)

lemma restore_pending_head:
  assumes "session_ok n"
  shows "session_ok (restore_pending E txs n) \<and> head_state (restore_pending E txs n) = head_state n"
proof -
  have "session_ok (fold (restore_transaction E) xs m) \<and> head_state (fold (restore_transaction E) xs m) = head_state m" if "session_ok m" for xs m
    using that by (induction xs arbitrary: m) (auto simp: restore_transaction_head)
  moreover have "session_ok (m\<lparr>nd_popped := []\<rparr>) = session_ok m" "head_state (m\<lparr>nd_popped := []\<rparr>) = head_state m" for m
    by (simp_all add: session_ok_def head_state_def)
  ultimately show ?thesis using assms by (simp add: restore_pending_def Let_def)
qed

text \<open>The node without its pending transactions, as \<open>_push_block\<close> sees it.\<close>

definition cleared :: "u32 \<Rightarrow> node \<Rightarrow> node" where
  "cleared skip n = reset_session (n\<lparr>nd_skip := skip, nd_pending := []\<rparr>)"

lemma cleared_state:
  assumes "session_ok n"
  shows "nd_state (cleared skip n) = head_state n" "\<not> nd_session (cleared skip n)" "set (nd_saved (cleared skip n)) \<subseteq> set (nd_saved n)"
    "nd_skip (cleared skip n) = skip" "block_on E s (cleared skip n) = block_on E s n" "nd_pending (cleared skip n) = []"
proof -
  let ?m = "n\<lparr>nd_skip := skip, nd_pending := []\<rparr>"
  have ok: "session_ok ?m" using assms by (simp add: session_ok_def)
  show "nd_state (cleared skip n) = head_state n" "\<not> nd_session (cleared skip n)" "set (nd_saved (cleared skip n)) \<subseteq> set (nd_saved n)"
    using reset_session_head [OF ok] by (simp_all add: cleared_def head_state_def)
  show "nd_skip (cleared skip n) = skip" "nd_pending (cleared skip n) = []"
    by (auto simp: cleared_def reset_session_def undo_session_def split: list.splits)
  show "block_on E s (cleared skip n) = block_on E s n"
    by (rule block_on_cong) (auto simp: cleared_def reset_session_def undo_session_def split: list.splits)
qed

lemma push_block_unfold:
  "push_block E b skip n =
     (let (r, m) = push_block_steps E b (cleared skip n) in (r, (restore_pending E (nd_pending n) m)\<lparr>nd_skip := nd_skip n\<rparr>))"
  by (auto simp: push_block_def with_skip_flags_def without_pending_transactions_def clear_pending_def cleared_def Let_def split: prod.splits)

section \<open>Settled in every case\<close>

lemma pop_until_settled: "\<not> nd_session n \<Longrightarrow> pop_until E i n = (r, n') \<Longrightarrow> settled n n'"
  using pop_until_result [of n E _ i r n'] by (auto simp: pop_until_def)

lemma nbind_settled:
  assumes "settled n (snd (m n))" "\<And>x n1. settled n n1 \<Longrightarrow> settled n (snd (f x n1))"
  shows "settled n (snd (nbind m f n))"
proof -
  obtain r n1 where m: "m n = (r, n1)" by (cases "m n")
  show ?thesis using assms by (cases r) (auto simp: nbind_def m)
qed

lemma nfold_settled:
  assumes "\<And>x n. \<not> nd_session n \<Longrightarrow> settled n (snd (f x n))"
  shows "\<not> nd_session n \<Longrightarrow> settled n (snd (nfold f xs n))"
proof (induction xs arbitrary: n)
  case (Cons x xs)
  have "settled n (snd (nfold f xs n1))" if n1: "settled n n1" for n1
    using Cons.IH [of n1] n1 settled_trans [OF n1] by (simp add: settled_def)
  then show ?case unfolding nfold.simps by (intro nbind_settled assms Cons.prems)
qed (simp add: nreturn_def settled_refl)

lemma block_session_settled: "\<not> nd_session n \<Longrightarrow> settled n (snd (in_session id (apply_block E b skip) n))"
  by (rule block_session(1) [of n E b skip "fst (in_session id (apply_block E b skip) n)"]) simp_all

lemma apply_branch_settled: "\<not> nd_session n \<Longrightarrow> settled n (snd (apply_branch E skip items n))"
proof (induction items arbitrary: n)
  case (Cons i items)
  obtain r n1 where b: "in_session id (apply_block E (fi_data i) skip) n = (r, n1)"
    by (cases "in_session id (apply_block E (fi_data i) skip) n")
  note l = block_session(1) [OF Cons.prems b]
  then have "settled n (snd (apply_branch E skip items n1))" using Cons.IH [of n1] settled_trans [OF l] by (simp add: settled_def)
  then show ?case using l by (cases r) (simp_all add: b)
qed (simp add: settled_refl)

lemma restore_good_fork_settled: "\<not> nd_session n \<Longrightarrow> settled n (snd (restore_good_fork E skip e bad good n))"
proof -
  assume n: "\<not> nd_session n"
  define m where "m = n\<lparr>nd_fork := set_head (Some (hd good)) (fold (\<lambda>i. fork_remove (block_id (env_crypto E) (fi_data i))) bad (nd_fork n))\<rparr>"
  have m: "\<not> nd_session m" "settled n m" using n by (simp_all add: m_def settled_refl)
  have "settled m (snd (nbind (pop_until E (previous (fi_data (last good)))) (\<lambda>_.
      nbind (nfold (\<lambda>i. in_session id (apply_block E (fi_data i) skip)) (rev good)) (\<lambda>_ n. (Inl e, n))) m))"
  proof (rule nbind_settled)
    show "settled m (snd (pop_until E (previous (fi_data (last good))) m))"
      by (rule pop_until_settled [OF m(1), of E _ "fst (pop_until E (previous (fi_data (last good))) m)"]) simp
    fix n1 assume n1: "settled m n1"
    have "settled n1 (snd (nbind (nfold (\<lambda>i. in_session id (apply_block E (fi_data i) skip)) (rev good)) (\<lambda>_ n. (Inl e, n)) n1))"
      using n1 by (intro nbind_settled nfold_settled block_session_settled) (auto simp: settled_def)
    then show "settled m (snd (nbind (nfold (\<lambda>i. in_session id (apply_block E (fi_data i) skip)) (rev good)) (\<lambda>_ n. (Inl e, n)) n1))"
      using settled_trans [OF n1] by blast
  qed
  then show ?thesis using settled_trans [OF m(2)] by (simp add: restore_good_fork_def m_def Let_def)
qed

lemma switch_forks_settled: "\<not> nd_session n \<Longrightarrow> settled n (snd (switch_forks E skip h n))"
proof -
  assume n: "\<not> nd_session n"
  show ?thesis
  proof (cases "fetch_branch_from (env_crypto E) (block_id (env_crypto E) (fi_data h)) (head_block_id (nd_state n)) (nd_fork n)")
    case (Inr r)
    obtain first second where r: "r = (first, second)" by (cases r)
    define m where "m = n\<lparr>nd_fork := (nd_fork n)\<lparr>fdb_held := first @ second\<rparr>\<rparr>"
    have m: "\<not> nd_session m" "settled n m" using n by (simp_all add: m_def settled_refl)
    let ?body = "\<lambda>_ n. case apply_branch E skip (rev first) n of (None, n) \<Rightarrow> (Inr True, n)
      | (Some (e, bad), n) \<Rightarrow> nbind (restore_good_fork E skip e bad second) (\<lambda>_ n. (Inr True, n)) n"
    have body: "settled n1 (snd (?body u n1))" if n1: "\<not> nd_session n1" for u and n1
    proof -
      obtain o2 n2 where a: "apply_branch E skip (rev first) n1 = (o2, n2)" by (cases "apply_branch E skip (rev first) n1")
      have s: "settled n1 n2" using apply_branch_settled [OF n1, of E skip "rev first"] by (simp add: a)
      then have n2: "\<not> nd_session n2" by (simp add: settled_def)
      have "settled n2 (snd (nbind (restore_good_fork E skip e bad second) (\<lambda>_ n. (Inr True, n)) n2))" for e bad
        using restore_good_fork_settled [OF n2] by (intro nbind_settled) auto
      then show ?thesis using s settled_trans [OF s] by (cases o2) (auto simp: a)
    qed
    have "settled m (snd (nbind (pop_until E (previous (fi_data (last second)))) ?body m))"
    proof (rule nbind_settled)
      show "settled m (snd (pop_until E (previous (fi_data (last second))) m))"
        by (rule pop_until_settled [OF m(1), of E _ "fst (pop_until E (previous (fi_data (last second))) m)"]) simp
      show "settled m (snd (?body u n1))" if n1: "settled m n1" for u n1
        using settled_trans [OF n1 body] n1 by (simp add: settled_def)
    qed
    then show ?thesis using settled_trans [OF m(2)] Inr r
      by (auto simp: switch_forks_def m_def Let_def split: prod.splits)
  qed (simp add: switch_forks_def settled_refl n)
qed

lemma push_block_steps_settled: "\<not> nd_session n \<Longrightarrow> settled n (snd (push_block_steps E b n))"
proof -
  assume n: "\<not> nd_session n"
  have nxt: "settled m (snd (push_next_block E b s m))" if "\<not> nd_session m" for s m
    using push_next_block_result(1) [OF that, of E b s "fst (push_next_block E b s m)"] by simp
  have fork: "settled n (snd (switch_forks E s h (n\<lparr>nd_fork := f\<rparr>)))" "settled n (snd (push_next_block E b s (n\<lparr>nd_fork := f\<rparr>)))" for s h f
    using switch_forks_settled [of "n\<lparr>nd_fork := f\<rparr>" E s h] nxt [of "n\<lparr>nd_fork := f\<rparr>" s] n by simp_all
  show ?thesis using nxt [OF n] fork settled_refl [OF n]
    by (auto simp: push_block_steps_def Let_def split: sum.splits option.splits)
qed

end
