(* ===== verification/Node_Runs.thy ===== *)
theory Node_Runs
  imports Node "HOL-Library.Sublist"
begin

text \<open>
  What a node keeps over a run of pushed transactions, pushed and generated blocks and switches of
  forks: its chain state without the pending transactions is always the outcome of a chain of blocks,
  and the pending transactions are applied on top of it, in their order.
\<close>

section \<open>Chains of blocks\<close>

inductive block_chain :: "chain_env \<Rightarrow> database \<Rightarrow> database \<Rightarrow> bool" for E d where
  no_block: "block_chain E d d"
| one_more: "block_chain E d e \<Longrightarrow> apply_block_state E producing max_undo skip b e = Inr f \<Longrightarrow> block_chain E d f"

lemma block_on_chain: "block_chain E d e \<Longrightarrow> block_on E skip n b e = Inr f \<Longrightarrow> block_chain E d f"
  by (auto simp: block_on_def intro: one_more)

text \<open>The current state and the states that a node could go back to satisfy \<open>P\<close>.\<close>

definition all_states :: "(database \<Rightarrow> bool) \<Rightarrow> node \<Rightarrow> bool" where
  "all_states P n \<longleftrightarrow> P (nd_state n) \<and> (\<forall>p\<in>set (nd_saved n). P (snd p))"

lemma all_states_updates [simp]:
  "all_states P (n\<lparr>nd_fork := f\<rparr>) = all_states P n" "all_states P (n\<lparr>nd_skip := s\<rparr>) = all_states P n"
  by (simp_all add: all_states_def)

definition closed :: "chain_env \<Rightarrow> (database \<Rightarrow> bool) \<Rightarrow> bool" where
  "closed E P \<longleftrightarrow> (\<forall>skip n b d e. P d \<longrightarrow> block_on E skip n b d = Inr e \<longrightarrow> P e)"

lemma chain_closed: "closed E (block_chain E d)"
  unfolding closed_def using block_on_chain by blast

lemma block_session_states:
  assumes "closed E P" "\<not> nd_session n" "in_session id (apply_block E b skip) n = (Inr u, n')" "all_states P n"
  shows "all_states P n'"
proof -
  obtain n1 where a: "apply_block E b skip (start_session n) = (Inr (), n1)" "n' = n1"
    using assms(3) by (auto simp: in_session_def split: prod.splits sum.splits)
  obtain k where "nd_saved n' = take k (nd_saved (start_session n))" using apply_block_result(1) [OF a(1)] by (auto simp: framed_def a)
  then have "set (nd_saved n') \<subseteq> insert (nd_revision n + 1, nd_state n) (set (nd_saved n))"
    using set_take_subset [of k "nd_saved (start_session n)"] by (simp add: start_session_def)
  moreover have "P (nd_state n')"
    using assms(1,4) block_session(3) [OF assms(2,3)] by (auto simp: closed_def all_states_def)
  ultimately show ?thesis using assms(4) by (auto simp: all_states_def)
qed

lemma apply_branch_states:
  assumes "closed E P"
  shows "\<not> nd_session n \<Longrightarrow> apply_branch E skip items n = (None, n') \<Longrightarrow> all_states P n \<Longrightarrow> all_states P n'"
proof (induction items arbitrary: n)
  case (Cons i items)
  obtain r n1 where b: "in_session id (apply_block E (fi_data i) skip) n = (r, n1)"
    by (cases "in_session id (apply_block E (fi_data i) skip) n")
  have r: "r = Inr ()" "apply_branch E skip items n1 = (None, n')" using Cons.prems(2) b by (auto split: sum.splits)
  have "\<not> nd_session n1" using block_session(1) [OF Cons.prems(1) b] by (simp add: settled_def)
  from Cons.IH [OF this r(2)] show ?case using block_session_states [OF assms Cons.prems(1) b [unfolded r(1)] Cons.prems(3)] by blast
qed simp

lemma pop_until_states:
  assumes "\<not> nd_session n" "pop_until E i n = (r, n')" "all_states P n"
  shows "all_states P n'"
proof -
  have "set (nd_saved n') \<subseteq> set (nd_saved n)" "nd_state n' = nd_state n \<or> nd_state n' \<in> snd ` set (nd_saved n)"
    using pop_until_result [OF assms(1) assms(2) [unfolded pop_until_def]] by simp_all
  then show ?thesis using assms(3) by (auto simp: all_states_def)
qed

lemma switch_forks_states:
  assumes "closed E P" "\<not> nd_session n" "switch_forks E skip h n = (Inr x, n')" "all_states P n"
  shows "all_states P n'"
proof -
  obtain first second where b: "fetch_branch_from (env_crypto E) (block_id (env_crypto E) (fi_data h)) (head_block_id (nd_state n)) (nd_fork n)
      = Inr (first, second)"
    using assms(3) by (auto simp: switch_forks_def split: sum.splits)
  define m where "m = n\<lparr>nd_fork := (nd_fork n)\<lparr>fdb_held := first @ second\<rparr>\<rparr>"
  obtain r1 n1 where p: "pop_until E (previous (fi_data (last second))) m = (r1, n1)"
    by (cases "pop_until E (previous (fi_data (last second))) m")
  obtain o2 n2 where a: "apply_branch E skip (rev first) n1 = (o2, n2)" by (cases "apply_branch E skip (rev first) n1")
  obtain u where r1: "r1 = Inr u" using assms(3) b p by (cases r1) (auto simp: switch_forks_def m_def [symmetric] Let_def nbind_def)
  have o2: "o2 = None" using assms(3) b p r1 a
    by (auto simp: switch_forks_def m_def [symmetric] Let_def nbind_def restore_good_fork_def split: prod.splits sum.splits option.splits)
  then have x: "n' = n2\<lparr>nd_fork := (nd_fork n2)\<lparr>fdb_held := []\<rparr>\<rparr>"
    using assms(3) b p r1 a by (auto simp: switch_forks_def m_def [symmetric] Let_def nbind_def)
  have m: "\<not> nd_session m" "all_states P m" using assms(2,4) by (simp_all add: m_def)
  have "\<not> nd_session n1" using pop_until_settled [OF m(1) p] by (simp add: settled_def)
  from apply_branch_states [OF assms(1) this a [unfolded o2] pop_until_states [OF m(1) p m(2)]] show ?thesis by (simp add: x)
qed

lemma push_next_block_states:
  assumes "closed E P" "\<not> nd_session n" "push_next_block E b skip n = (Inr x, n')" "all_states P n"
  shows "all_states P n'"
proof -
  have "in_session id (apply_block E b skip) n = (Inr (), n')"
    using assms(3) by (auto simp: push_next_block_def split: prod.splits sum.splits)
  from block_session_states [OF assms(1,2) this assms(4)] show ?thesis .
qed

lemma push_block_steps_states:
  assumes "closed E P" "\<not> nd_session n" "push_block_steps E b n = (Inr x, n')" "all_states P n"
  shows "all_states P n'"
proof -
  have "push_next_block E b (nd_skip n) (n\<lparr>nd_fork := f\<rparr>) = (Inr x, n') \<Longrightarrow> all_states P n'"
    and "switch_forks E (nd_skip n) h (n\<lparr>nd_fork := f\<rparr>) = (Inr x, n') \<Longrightarrow> all_states P n'" for f h
    using push_next_block_states [OF assms(1), of "n\<lparr>nd_fork := f\<rparr>"] switch_forks_states [OF assms(1), of "n\<lparr>nd_fork := f\<rparr>"] assms(2,4)
    by simp_all
  note fork = this
  show ?thesis using assms(3,4) push_next_block_states [OF assms(1,2)] fork
    by (auto simp: push_block_steps_def Let_def split: if_splits sum.splits option.splits)
qed

section \<open>The pending transactions\<close>

inductive applied :: "chain_env \<Rightarrow> signed_transaction list \<Rightarrow> database \<Rightarrow> database \<Rightarrow> bool" for E where
  none_applied: "applied E [] d d"
| last_applied: "applied E txs d e \<Longrightarrow> apply_transaction E producing skip tx e = Inr f \<Longrightarrow> applied E (txs @ [tx]) d f"

inductive_cases applied_NilE [elim!]: "applied E [] d e"

definition pending_ok :: "chain_env \<Rightarrow> node \<Rightarrow> bool" where
  "pending_ok E n \<longleftrightarrow> session_ok n
     \<and> (if nd_session n then applied E (nd_pending n) (head_state n) (nd_state n) else nd_pending n = [])"

lemma push_pending_ok:
  assumes "pending_ok E n" "push_pending E tx n = (r, n')"
  shows "pending_ok E n'"
proof -
  have "applied E (nd_pending n) (head_state n) (nd_state n)"
    using assms(1) none_applied by (auto simp: pending_ok_def head_state_def split: if_splits)
  moreover have "session_ok n" using assms(1) by (simp add: pending_ok_def)
  note push_pending_cases [OF this assms(2)]
  ultimately show ?thesis using last_applied
    by (cases "apply_transaction E (nd_producing n) (nd_skip n) tx (nd_state n)") (auto simp: pending_ok_def)
qed

lemma pending_ok_updates [simp]:
  "pending_ok E (n\<lparr>nd_popped := ts\<rparr>) = pending_ok E n" "pending_ok E (n\<lparr>nd_skip := s\<rparr>) = pending_ok E n"
  "pending_ok E (n\<lparr>nd_producing := p\<rparr>) = pending_ok E n"
  by (simp_all add: pending_ok_def session_ok_def head_state_def)

lemma restore_transaction_ok: "pending_ok E n \<Longrightarrow> pending_ok E (restore_transaction E tx n)"
  using push_pending_ok [of E n tx "fst (push_pending E tx n)" "snd (push_pending E tx n)"] by (simp add: restore_transaction_def)

lemma restore_pending_ok: "pending_ok E n \<Longrightarrow> pending_ok E (restore_pending E txs n)"
proof -
  have "pending_ok E (fold (restore_transaction E) xs m)" if "pending_ok E m" for xs m
    using that by (induction xs arbitrary: m) (auto simp: restore_transaction_ok)
  then show "pending_ok E n \<Longrightarrow> ?thesis" by (simp add: restore_pending_def Let_def)
qed

lemma push_block_pending:
  assumes "push_block E b skip n = (r, n')"
  shows "pending_ok E n'"
proof -
  obtain m where m: "push_block_steps E b (cleared skip n) = (r, m)" "n' = (restore_pending E (nd_pending n) m)\<lparr>nd_skip := nd_skip n\<rparr>"
    using assms by (auto simp: push_block_unfold Let_def split: prod.splits)
  have c: "\<not> nd_session (cleared skip n)" "nd_pending (cleared skip n) = []"
    by (auto simp: cleared_def reset_session_def undo_session_def split: list.splits)
  have "pending_ok E m" using push_block_steps_settled [OF c(1), of E b] c by (simp add: m settled_def pending_ok_def session_ok_def)
  then show ?thesis by (simp add: m restore_pending_ok)
qed

section \<open>Runs of a node\<close>

text \<open>
  The calls that the rest of the program makes.  A block that is refused is not among them: what it
  leaves behind is a property of its own below.
\<close>

inductive node_step :: "chain_env \<Rightarrow> producer_lib \<Rightarrow> node \<Rightarrow> node \<Rightarrow> bool" for E P where
  on_transaction: "push_transaction E trx skip n = (r, n') \<Longrightarrow> node_step E P n n'"
| on_validate: "validate_transaction E trx n = (r, n') \<Longrightarrow> node_step E P n n'"
| on_block: "push_block E b skip n = (Inr switched, n') \<Longrightarrow> node_step E P n n'"
| on_generate: "generate_block E P when owner key skip n = (Inr b, n') \<Longrightarrow> node_step E P n n'"
| on_clear: "clear_pending n = (r, n') \<Longrightarrow> node_step E P n n'"
| on_checkpoints: "node_step E P n (add_checkpoints cs n)"

definition consistent :: "chain_env \<Rightarrow> database \<Rightarrow> node \<Rightarrow> bool" where
  "consistent E d n \<longleftrightarrow> pending_ok E n \<and> block_chain E d (head_state n) \<and> (\<forall>p\<in>set (nd_saved n). block_chain E d (snd p))"

lemma push_transaction_cases:
  assumes "session_ok n" "push_transaction E trx skip n = (r, n')"
  obtains (too_big) "r = Inl assert_exception" "n' = n\<lparr>nd_producing := False\<rparr>" 
      "\<not> fc_trx_pack_size (env_crypto E) trx \<le> unat (gpo_maximum_block_size (gpo (nd_state n)) - 256)"
  | (pushed) m where "push_pending E trx (n\<lparr>nd_producing := True, nd_skip := skip\<rparr>) = (r, m)"
      "n' = m\<lparr>nd_skip := nd_skip n, nd_producing := False\<rparr>"
      "fc_trx_pack_size (env_crypto E) trx \<le> unat (gpo_maximum_block_size (gpo (nd_state n)) - 256)"
  using assms by (auto simp: push_transaction_def with_skip_flags_def Let_def split: if_splits prod.splits)

lemma head_session_saved: "session_ok n \<Longrightarrow> nd_session n \<Longrightarrow> head_state n \<in> snd ` set (nd_saved n)"
  by (auto simp: session_ok_def head_state_def intro: imageI)

lemma push_pending_saved:
  assumes "session_ok n" "push_pending E trx n = (r, n')"
  shows "snd ` set (nd_saved n') \<subseteq> insert (head_state n) (snd ` set (nd_saved n))"
proof (cases "nd_session n")
  case True
  then show ?thesis using push_pending_cases [OF assms] by auto
next
  case False
  then have "nd_saved n' = nd_saved (start_session n)"
    using assms(2) by (auto simp: push_pending_def Let_def in_session_def nbind_def on_state_def start_session_def undo_session_def squash_session_def split: sum.splits)
  then show ?thesis using False by (auto simp: start_session_def head_state_def)
qed

lemma push_pending_consistent:
  assumes "consistent E d n" "push_pending E trx n = (r, n')"
  shows "consistent E d n'"
proof -
  have ok: "session_ok n" using assms(1) by (simp add: consistent_def pending_ok_def)
  have "head_state n' = head_state n" using push_pending_cases [OF ok assms(2)] by simp
  moreover have "\<forall>e\<in>insert (head_state n) (snd ` set (nd_saved n)). block_chain E d e" using assms(1) by (simp add: consistent_def)
  then have "\<forall>e\<in>snd ` set (nd_saved n'). block_chain E d e" using push_pending_saved [OF ok assms(2)] by blast
  ultimately show ?thesis using assms(1) push_pending_ok [OF _ assms(2)] by (simp add: consistent_def)
qed

lemma consistent_updates [simp]:
  "consistent E d (n\<lparr>nd_popped := ts\<rparr>) = consistent E d n" "consistent E d (n\<lparr>nd_skip := s\<rparr>) = consistent E d n"
  "consistent E d (n\<lparr>nd_producing := p\<rparr>) = consistent E d n" "consistent E d (n\<lparr>nd_checkpoints := c\<rparr>) = consistent E d n"
  by (simp_all add: consistent_def head_state_def pending_ok_def session_ok_def)

lemma restore_pending_consistent:
  assumes "consistent E d n"
  shows "consistent E d (restore_pending E txs n)"
proof -
  have "consistent E d (restore_transaction E tx m)" if "consistent E d m" for tx m
    using push_pending_consistent [OF that, of tx "fst (push_pending E tx m)" "snd (push_pending E tx m)"] that
    by (simp add: restore_transaction_def)
  then have "consistent E d (fold (restore_transaction E) xs m)" if "consistent E d m" for xs m
    using that by (induction xs arbitrary: m) simp_all
  then show ?thesis using assms by (simp add: restore_pending_def Let_def)
qed

lemma cleared_states:
  assumes "session_ok n" "P (head_state n)" "\<forall>p\<in>set (nd_saved n). P (snd p)"
  shows "all_states P (cleared skip n)"
  using cleared_state [OF assms(1), where skip = skip] assms(2,3) by (auto simp: all_states_def)

lemma push_block_consistent:
  assumes "push_block E b skip n = (Inr x, n')" "session_ok n" "block_chain E d (head_state n)" "\<forall>p\<in>set (nd_saved n). block_chain E d (snd p)"
  shows "consistent E d n'"
proof -
  obtain m where m: "push_block_steps E b (cleared skip n) = (Inr x, m)" "n' = (restore_pending E (nd_pending n) m)\<lparr>nd_skip := nd_skip n\<rparr>"
    using assms(1) by (auto simp: push_block_unfold Let_def split: prod.splits)
  note c = cleared_state [OF assms(2), where skip = skip]
  have "settled (cleared skip n) m" using push_block_steps_settled [OF c(2), of E b] by (simp add: m)
  then have s: "\<not> nd_session m" "nd_pending m = []" using c by (simp_all add: settled_def)
  have "all_states (block_chain E d) m"
    by (rule push_block_steps_states [OF chain_closed c(2) m(1) cleared_states [OF assms(2-4)]])
  then have "consistent E d m" using s by (simp add: consistent_def all_states_def head_state_def pending_ok_def session_ok_def)
  then show ?thesis by (simp add: m restore_pending_consistent)
qed

section \<open>Generating blocks\<close>

text \<open>The transactions of a block are tried out in a session that is undone.\<close>

lemma try_transaction:
  assumes "nd_saved n \<noteq> []"
  shows "in_session squash_session (on_state f) n =
    (case f (start_session n) (nd_state n) of Inl e \<Rightarrow> (Inl e, n) | Inr d \<Rightarrow> (Inr (), n\<lparr>nd_state := d\<rparr>))"
  using assms by (auto simp: in_session_def on_state_def start_session_def squash_session_def undo_session_def neq_Nil_conv
      split: sum.splits intro: node.equality)

lemma collect_transaction_cases:
  assumes "nd_saved n \<noteq> []"
  obtains (left) "snd (collect_transaction E when mx tx (s, txs, n)) = (txs, n)"
  | (taken) d where "apply_transaction E (nd_producing n) (nd_skip n) tx (nd_state n) = Inr d"
      "snd (collect_transaction E when mx tx (s, txs, n)) = (txs @ [tx], n\<lparr>nd_state := d\<rparr>)"
proof -
  have "snd (collect_transaction E when mx tx (s, txs, n)) = (txs, n)
      \<or> (\<exists>d. apply_transaction E (nd_producing n) (nd_skip n) tx (nd_state n) = Inr d
        \<and> snd (collect_transaction E when mx tx (s, txs, n)) = (txs @ [tx], n\<lparr>nd_state := d\<rparr>))"
    by (cases "apply_transaction E (nd_producing n) (nd_skip n) tx (nd_state n)")
       (simp_all add: collect_transaction_def Let_def try_transaction [OF assms] start_session_def)
  then show thesis using that by blast
qed

lemma collect_fold:
  assumes "nd_saved n \<noteq> []" "applied E txs h (nd_state n)"
  shows "\<exists>d zs. snd (fold (collect_transaction E when mx) ts (s, txs, n)) = (txs @ zs, n\<lparr>nd_state := d\<rparr>) \<and> subseq zs ts \<and> applied E (txs @ zs) h d"
  using assms
proof (induction ts arbitrary: s txs n)
  case Nil
  then show ?case by (auto intro!: exI [of _ "nd_state n"])
next
  case (Cons t ts)
  obtain s1 txs1 n1 where c: "collect_transaction E when mx t (s, txs, n) = (s1, txs1, n1)"
    by (cases "collect_transaction E when mx t (s, txs, n)")
  show ?case
  proof (rule collect_transaction_cases [OF Cons.prems(1), of E "when" mx t s txs])
    assume "snd (collect_transaction E when mx t (s, txs, n)) = (txs, n)"
    then have "txs1 = txs" "n1 = n" by (simp_all add: c)
    then show ?case using Cons.IH [OF Cons.prems, of s1] by (auto simp: c)
  next
    fix d assume d: "apply_transaction E (nd_producing n) (nd_skip n) t (nd_state n) = Inr d"
      "snd (collect_transaction E when mx t (s, txs, n)) = (txs @ [t], n\<lparr>nd_state := d\<rparr>)"
    have "applied E (txs @ [t]) h d" using last_applied [OF Cons.prems(2) d(1)] .
    then obtain d1 zs where "snd (fold (collect_transaction E when mx) ts (s1, txs @ [t], n\<lparr>nd_state := d\<rparr>)) = ((txs @ [t]) @ zs, n\<lparr>nd_state := d, nd_state := d1\<rparr>)"
      "subseq zs ts" "applied E ((txs @ [t]) @ zs) h d1"
      using Cons.IH [of "n\<lparr>nd_state := d\<rparr>" "txs @ [t]" s1] Cons.prems(1) by auto
    then have "snd (fold (collect_transaction E when mx) (t # ts) (s, txs, n)) = (txs @ (t # zs), n\<lparr>nd_state := d1\<rparr>) \<and> subseq (t # zs) (t # ts) \<and> applied E (txs @ (t # zs)) h d1"
      using d(2) by (simp add: c)
    then show ?case by blast
  qed
qed

lemma collect_transactions_result:
  "\<exists>txs d. collect_transactions E P when n = (txs, reset_session n) \<and> subseq txs (nd_pending n) \<and> applied E txs (nd_state (reset_session n)) d"
proof -
  define m where "m = (start_session (reset_session n))\<lparr>nd_session := True\<rparr>"
  define mx where "mx = gpo_maximum_block_size (gpo (nd_state n))"
  have m: "nd_saved m \<noteq> []" "nd_state m = nd_state (reset_session n)" "nd_pending m = nd_pending n"
    by (auto simp: m_def start_session_def reset_session_def undo_session_def split: list.splits)
  obtain d zs where f: "snd (fold (collect_transaction E when mx) (nd_pending m) (empty_header_size P + 4, [], m)) = (zs, m\<lparr>nd_state := d\<rparr>)"
    "subseq zs (nd_pending m)" "applied E zs (nd_state (reset_session n)) d"
    using collect_fold [OF m(1) none_applied, of E "when" mx "nd_pending m"] m(2) by fastforce
  have "reset_session ((start_session l)\<lparr>nd_session := True, nd_state := d\<rparr>) = l" if "\<not> nd_session l" for l
    using that by (simp add: reset_session_def undo_session_def start_session_def)
  moreover have "\<not> nd_session (reset_session n)" by (simp add: reset_session_def)
  ultimately have "reset_session (m\<lparr>nd_state := d\<rparr>) = reset_session n" by (simp add: m_def)
  then have "collect_transactions E P when n = (zs, reset_session n)"
    using f(1) unfolding collect_transactions_def Let_def m_def [symmetric] mx_def [symmetric] by (auto split: prod.splits)
  then show ?thesis using f m(3) by auto
qed

lemma generate_block_unfold:
  assumes "generate_block E P when owner key skip n = (Inr b, n')"
  obtains txs d x m where "may_produce E P when owner key (n\<lparr>nd_skip := skip\<rparr>) = Inr ()"
    "subseq txs (nd_pending n)" "applied E txs (nd_state (reset_session (n\<lparr>nd_skip := skip\<rparr>))) d"
    "assemble_block E when owner key txs (reset_session (n\<lparr>nd_skip := skip\<rparr>)) = Inr b"
    "push_block E b skip (reset_session (n\<lparr>nd_skip := skip\<rparr>)) = (Inr x, m)" "n' = m\<lparr>nd_skip := nd_skip n\<rparr>"
proof -
  obtain txs d where "collect_transactions E P when (n\<lparr>nd_skip := skip\<rparr>) = (txs, reset_session (n\<lparr>nd_skip := skip\<rparr>))"
    "subseq txs (nd_pending n)" "applied E txs (nd_state (reset_session (n\<lparr>nd_skip := skip\<rparr>))) d"
    using collect_transactions_result [of E P "when" "n\<lparr>nd_skip := skip\<rparr>"] by auto
  then show thesis using assms that
    by (auto simp: generate_block_def with_skip_flags_def nreturn_def Let_def split: prod.splits)
qed

lemma reset_session_consistent:
  assumes "consistent E d n"
  shows "session_ok (reset_session n)" "block_chain E d (head_state (reset_session n))" "\<forall>p\<in>set (nd_saved (reset_session n)). block_chain E d (snd p)"
proof -
  have "session_ok n" using assms by (simp add: consistent_def pending_ok_def)
  note r = reset_session_head [OF this]
  show "session_ok (reset_session n)" "block_chain E d (head_state (reset_session n))" "\<forall>p\<in>set (nd_saved (reset_session n)). block_chain E d (snd p)"
    using r assms by (auto simp: session_ok_def head_state_def [of "reset_session n"] consistent_def)
qed

lemma generate_block_consistent:
  assumes "consistent E d n" "generate_block E P when owner key skip n = (Inr b, n')"
  shows "consistent E d n'"
proof -
  obtain x m where "push_block E b skip (reset_session (n\<lparr>nd_skip := skip\<rparr>)) = (Inr x, m)" "n' = m\<lparr>nd_skip := nd_skip n\<rparr>"
    using generate_block_unfold [OF assms(2)] .
  then show ?thesis using push_block_consistent [OF _ reset_session_consistent] assms(1) by simp
qed

lemma validate_transaction_node: "snd (validate_transaction E trx n) = n"
  by (cases "apply_transaction E (nd_producing n) (nd_skip n) trx (nd_state n)")
     (simp_all add: validate_transaction_def in_session_def on_state_def start_session_def undo_session_def)

lemma push_transaction_consistent:
  assumes "consistent E d n" "push_transaction E trx skip n = (r, n')"
  shows "consistent E d n'"
proof -
  have ok: "session_ok n" using assms(1) by (simp add: consistent_def pending_ok_def)
  show ?thesis
  proof (rule push_transaction_cases [OF ok assms(2)])
    assume "n' = n\<lparr>nd_producing := False\<rparr>"
    then show ?thesis using assms(1) by simp
  next
    fix m assume m: "push_pending E trx (n\<lparr>nd_producing := True, nd_skip := skip\<rparr>) = (r, m)" "n' = m\<lparr>nd_skip := nd_skip n, nd_producing := False\<rparr>"
    then show ?thesis using push_pending_consistent [OF _ m(1), of d] assms(1) by simp
  qed
qed

lemma clear_pending_consistent:
  assumes "consistent E d n" "clear_pending n = (r, n')"
  shows "consistent E d n'"
proof -
  have n': "n' = reset_session (n\<lparr>nd_pending := []\<rparr>)"
    using assms by (auto simp: clear_pending_def consistent_def pending_ok_def split: if_splits)
  have e: "consistent E d (n\<lparr>nd_pending := []\<rparr>) \<or> nd_session n"
    using assms(1) by (auto simp: consistent_def pending_ok_def session_ok_def head_state_def)
  have "session_ok n" using assms(1) by (simp add: consistent_def pending_ok_def)
  then show ?thesis using assms(1) unfolding n'
    by (auto simp: consistent_def pending_ok_def session_ok_def head_state_def reset_session_def undo_session_def split: list.splits)
qed

lemma node_step_consistent: "node_step E P n n' \<Longrightarrow> consistent E d n \<Longrightarrow> consistent E d n'"
proof (induction rule: node_step.induct)
  case (on_transaction trx skip n r n')
  then show ?case using push_transaction_consistent by blast
next
  case (on_generate w owner key skip n b n')
  then show ?case using generate_block_consistent by blast
next
  case (on_clear n r n')
  then show ?case using clear_pending_consistent by blast
next
  case (on_validate trx n r n')
  then show ?case using validate_transaction_node [of E trx n] by simp
next
  case (on_block b skip n switched n')
  then have "session_ok n" "block_chain E d (head_state n)" "\<forall>p\<in>set (nd_saved n). block_chain E d (snd p)"
    by (simp_all add: consistent_def pending_ok_def)
  from push_block_consistent [OF on_block.hyps this] show ?case .
qed (simp add: add_checkpoints_def)

section \<open>Blocks that are undone\<close>

lemma commit_keeps_top:
  assumes "nd_saved n = p # ps" "r < fst p"
  shows "\<exists>k. nd_saved (commit_sessions r n) = p # take k ps"
proof -
  have "rev (dropWhile (\<lambda>p. fst p \<le> r) (rev (p # ps))) = p # rev (dropWhile (\<lambda>p. fst p \<le> r) (rev ps))"
    using assms(2) by (simp add: dropWhile_append3)
  then show ?thesis using commit_take [of "\<lambda>p. fst p \<le> r" ps] assms(1) by (simp add: commit_sessions_def)
qed

text \<open>The block leaves the revision \<open>r\<close> reversible.\<close>

definition leaves_reversible :: "chain_env \<Rightarrow> signed_block \<Rightarrow> u32 \<Rightarrow> node \<Rightarrow> int \<Rightarrow> bool" where
  "leaves_reversible E b skip n r \<longleftrightarrow> (\<forall>s d1 d2. apply_skip E b skip n = Inr s
     \<longrightarrow> apply_block_start E (nd_producing n) (nd_max_undo n) s b (nd_state n) = Inr d1 \<longrightarrow> advance_irreversible d1 = Inr d2
     \<longrightarrow> uint (gpo_last_irreversible_block_num (gpo d2)) < r)"

lemma update_lib_top:
  assumes "update_last_irreversible_block E n = (r, n')" "nd_saved n = p # ps"
    and "\<And>d. advance_irreversible (nd_state n) = Inr d \<Longrightarrow> uint (gpo_last_irreversible_block_num (gpo d)) < fst p"
  shows "\<exists>k. nd_saved n' = p # take k ps"
proof (cases "advance_irreversible (nd_state n)")
  case (Inl e)
  then have "nd_saved n' = p # take (length ps) ps" using update_lib_framed [OF assms(1)] assms(2) by simp
  then show ?thesis by blast
next
  case (Inr d)
  then show ?thesis using update_lib_framed [OF assms(1)] commit_keeps_top [OF assms(2) assms(3) [OF Inr]] by simp
qed

lemma apply_block_steps_top:
  assumes "apply_block_steps E b n = (r, n')" "nd_saved n = p # ps"
    and "\<And>d1 d2. apply_block_start E (nd_producing n) (nd_max_undo n) (nd_skip n) b (nd_state n) = Inr d1 \<Longrightarrow> advance_irreversible d1 = Inr d2
      \<Longrightarrow> uint (gpo_last_irreversible_block_num (gpo d2)) < fst p"
  shows "\<exists>k. nd_saved n' = p # take k ps"
proof (cases "apply_block_start E (nd_producing n) (nd_max_undo n) (nd_skip n) b (nd_state n)")
  case (Inl e)
  then have "nd_saved n' = p # take (length ps) ps" using assms(1,2) by (auto simp: apply_block_steps_def nbind_def on_state_def)
  then show ?thesis by blast
next
  case (Inr d)
  obtain r1 n1 where u: "update_last_irreversible_block E (n\<lparr>nd_state := d\<rparr>) = (r1, n1)"
    by (cases "update_last_irreversible_block E (n\<lparr>nd_state := d\<rparr>)")
  have "nd_saved n' = nd_saved n1"
    using assms(1) Inr u by (cases r1) (auto simp: apply_block_steps_def nbind_def on_state_def split: sum.splits)
  then show ?thesis using update_lib_top [OF u, of p ps] assms(2) assms(3) [OF Inr] by simp
qed

lemma apply_block_top:
  assumes "apply_block E b skip n = (r, n')" "nd_saved n = p # ps" "leaves_reversible E b skip n (fst p)"
  shows "\<exists>k. nd_saved n' = p # take k ps"
proof (cases "apply_skip E b skip n")
  case (Inl e)
  then have "nd_saved n' = p # take (length ps) ps" using assms(1,2) by (auto simp: apply_block_def nbind_def query_def)
  then show ?thesis by blast
next
  case (Inr s)
  obtain r1 n1 where a: "apply_block_steps E b (n\<lparr>nd_skip := s\<rparr>) = (r1, n1)" by (cases "apply_block_steps E b (n\<lparr>nd_skip := s\<rparr>)")
  have "nd_saved n' = nd_saved n1" using assms(1) Inr a by (auto simp: apply_block_def nbind_def query_def with_skip_flags_def)
  then show ?thesis using apply_block_steps_top [OF a, of p ps] assms(2,3) Inr by (simp add: leaves_reversible_def)
qed

section \<open>The properties of a node\<close>

text \<open>
  (C5) A node follows a chain of blocks: over any run of pushed and validated transactions, accepted and
  generated blocks (switches of forks included), cleared pending transactions and new checkpoints, the
  state at the head block and every state that the node can go back to is the outcome of applying
  blocks one after the other from the state at the start, and the current state is that of the head
  block with the pending transactions applied in their order.
\<close>

theorem node_follows_chain:
  assumes "(node_step E P)\<^sup>*\<^sup>* n n'" "consistent E d n"
  shows "block_chain E d (head_state n') \<and> (\<forall>p\<in>set (nd_saved n'). block_chain E d (snd p))
    \<and> (if nd_session n' then nd_saved n' \<noteq> [] \<and> applied E (nd_pending n') (head_state n') (nd_state n') else nd_pending n' = [])"
proof -
  have "consistent E d n'" using assms by (induction rule: rtranclp_induct) (auto dest: node_step_consistent)
  then show ?thesis by (auto simp: consistent_def pending_ok_def session_ok_def split: if_splits)
qed



text \<open>
  (C17) A block can be taken back: as long as applying a block does not make the current revision
  irreversible, a block that is refused leaves the chain state and the revision as they were, and one
  that is accepted is taken back by undoing one session.
\<close>

theorem block_can_be_undone:
  assumes "\<not> nd_session n" "push_next_block E b skip n = (r, n')" "leaves_reversible E b skip n (nd_revision n + 1)"
  shows "case r of
      Inl e \<Rightarrow> nd_state n' = nd_state n \<and> nd_revision n' = nd_revision n
    | Inr _ \<Rightarrow> nd_state (undo_session n') = nd_state n \<and> nd_revision (undo_session n') = nd_revision n"
proof -
  obtain r1 n1 where a: "apply_block E b skip (start_session n) = (r1, n1)" by (cases "apply_block E b skip (start_session n)")
  have "apply_skip E b skip (start_session n) = apply_skip E b skip n" by (rule apply_skip_cong) (simp add: start_session_def)
  then have "leaves_reversible E b skip (start_session n) (nd_revision n + 1)"
    using assms(3) unfolding leaves_reversible_def by (simp add: start_session_def)
  then obtain k where k: "nd_saved n1 = (nd_revision n + 1, nd_state n) # take k (nd_saved n)"
    using apply_block_top [OF a, of "(nd_revision n + 1, nd_state n)" "nd_saved n"] by (auto simp: start_session_def)
  have "nd_revision n1 = nd_revision n + 1" using apply_block_result(1) [OF a] by (simp add: framed_def start_session_def)
  then show ?thesis using assms(2) a k
    by (cases r1) (auto simp: push_next_block_def in_session_def undo_session_def)
qed

text \<open>
  (C18) A generated block is a valid candidate: it extends the head block at the requested time in the name
  of the witness that the schedule has for that slot, its Merkle root matches its transactions, these
  are pending transactions in their order that apply one after the other to the state at the head
  block, and it is not too big.
\<close>

theorem generated_block:
  assumes "session_ok n" "generate_block E P when owner key skip n = (Inr b, n')"
  shows "previous b = head_block_id (head_state n) \<and> timestamp b = when \<and> witness b = owner
    \<and> get_slot_at_time when (nd_state n) > 0 \<and> get_scheduled_witness (get_slot_at_time when (nd_state n)) (nd_state n) = Inr owner
    \<and> transaction_merkle_root b = calculate_merkle_root (env_crypto E) b
    \<and> subseq (transactions b) (nd_pending n) \<and> (\<exists>d. applied E (transactions b) (head_state n) d)
    \<and> (has_flag skip skip_block_size_check \<or> fc_pack_size (env_crypto E) b \<le> WLS_MAX_BLOCK_SIZE)"
proof -
  let ?n = "n\<lparr>nd_skip := skip\<rparr>"
  obtain txs d x m where g: "may_produce E P when owner key ?n = Inr ()" "subseq txs (nd_pending n)" "applied E txs (nd_state (reset_session ?n)) d"
    and b: "assemble_block E when owner key txs (reset_session ?n) = Inr b"
    using generate_block_unfold [OF assms(2)] .
  have ok: "session_ok ?n" "head_state ?n = head_state n" using assms(1) by (simp_all add: session_ok_def head_state_def)
  note h = reset_session_head(1) [OF ok(1)]
  have skip: "nd_skip (reset_session ?n) = skip" by (auto simp: reset_session_def undo_session_def split: list.splits)
  have "previous b = head_block_id (head_state n) \<and> timestamp b = when \<and> witness b = owner \<and> transactions b = txs
      \<and> transaction_merkle_root b = calculate_merkle_root (env_crypto E) b
      \<and> (has_flag skip skip_block_size_check \<or> fc_pack_size (env_crypto E) b \<le> WLS_MAX_BLOCK_SIZE)"
    using b by (auto simp: assemble_block_def Let_def h ok skip sign_block_def calculate_merkle_root_def split: if_splits)
  moreover have "get_slot_at_time when (nd_state n) > 0" "get_scheduled_witness (get_slot_at_time when (nd_state n)) (nd_state n) = Inr owner"
    using g(1) by (auto simp: may_produce_def Let_def)
  ultimately show ?thesis using g h ok by auto
qed

section \<open>A concrete node\<close>

text \<open>A chain with one witness, a block that it produces, and a node at the start of that chain.\<close>

definition quiet_chain :: database where
  "quiet_chain = empty_database\<lparr>
     accounts := \<lparr>rows = [(0, default_account\<lparr>acc_name := ''wls''\<rparr>), (1, default_account\<lparr>acc_name := ''null''\<rparr>),
       (2, default_account\<lparr>acc_name := ''devfund''\<rparr>)], next_row_id = 3\<rparr>,
     witnesses := \<lparr>rows = [(0, default_witness\<lparr>wit_owner := ''wls'', wit_schedule := top19\<rparr>)], next_row_id = 1\<rparr>,
     reward_funds := \<lparr>rows = [(0, default_reward_fund\<lparr>rfo_name := ''post'', rfo_reward_balance := WLS 10000,
        rfo_percent_content_rewards := 10000, rfo_percent_curation_rewards := 2500\<rparr>)], next_row_id = 1\<rparr>,
     gpo := default_gpo\<lparr>gpo_time := 100, gpo_head_block_number := 20, gpo_current_witness := ''wls'', gpo_maximum_block_size := 300,
        gpo_current_supply := WLS 33512, gpo_total_vesting_fund_steem := WLS 20000, gpo_total_vesting_shares := VESTS 200000\<rparr>,
     wso := default_witness_schedule\<lparr>wso_current_shuffled_witnesses := ''wls'' # replicate 20 []\<rparr>,
     block_summaries := \<lparr>rows = [(0, \<lparr>bso_block_id = null_id\<rparr>), (1, \<lparr>bso_block_id = null_id\<rparr>)], next_row_id = 2\<rparr>\<rparr>"

definition quiet_block :: signed_block where
  "quiet_block = \<lparr>previous = null_id, timestamp = 102, witness = ''wls'', transaction_merkle_root = replicate 5 0,
     extensions = [], witness_signature = 0, transactions = []\<rparr>"

definition sample_node :: "database \<Rightarrow> node" where
  "sample_node d = \<lparr>nd_state = d, nd_saved = [], nd_revision = 20, nd_fork = new_fork_database, nd_log = empty_log,
     nd_pending = [], nd_session = False, nd_popped = [], nd_producing = False, nd_skip = 0, nd_checkpoints = [], nd_max_undo = 10000\<rparr>"

definition sample_producer :: producer_lib where
  "sample_producer = \<lparr>get_public_key = ucast, empty_header_size = 4\<rparr>"

text \<open>Neither the fork database nor the block log is used, and neither signatures nor the schedule are checked.\<close>

abbreviation (input) sample_skip :: u32 where "sample_skip \<equiv> 0x226b"

lemma sample_node_ok: "session_ok (sample_node d)" "head_state (sample_node d) = d" "consistent E d (sample_node d)" "\<not> nd_session (sample_node d)"
  by (simp_all add: sample_node_def session_ok_def head_state_def consistent_def pending_ok_def no_block)

lemma quiet_block_applies: "\<exists>d. apply_block_state sample_env False 10000 sample_skip quiet_block quiet_chain = Inr d"
proof -
  have "\<not> isl (apply_block_state sample_env False 10000 sample_skip quiet_block quiet_chain)" by code_simp
  then show ?thesis by (cases "apply_block_state sample_env False 10000 sample_skip quiet_block quiet_chain") auto
qed

lemma sample_transaction_applies: "\<exists>d. apply_transaction sample_env True 0x263 sample_transaction sample_chain = Inr d"
proof -
  have "\<not> isl (apply_transaction sample_env True 0x263 sample_transaction sample_chain)" by code_simp
  then show ?thesis by (cases "apply_transaction sample_env True 0x263 sample_transaction sample_chain") auto
qed

text \<open>A block that applies to the chain state is accepted when the block log is not written.\<close>

lemma apply_block_steps_accepts:
  assumes "apply_block_state E (nd_producing n) (nd_max_undo n) (nd_skip n) b (nd_state n) = Inr d" "has_flag (nd_skip n) skip_block_log"
  shows "\<exists>n'. apply_block_steps E b n = (Inr (), n')"
  using assms by (auto simp: apply_block_state_def apply_block_steps_def update_last_irreversible_block_def nbind_def on_state_def
      commit_sessions_def log_irreversible_def trim_fork_def Let_def)

lemma push_next_block_accepts:
  assumes "apply_block_state E (nd_producing n) (nd_max_undo n) skip b (nd_state n) = Inr d" "has_flag skip skip_block_log" "nd_checkpoints n = []"
  shows "\<exists>n'. push_next_block E b skip n = (Inr False, n')"
proof -
  have "\<exists>n'. apply_block_steps E b ((start_session n)\<lparr>nd_skip := skip\<rparr>) = (Inr (), n')"
    by (rule apply_block_steps_accepts) (use assms in \<open>simp_all add: start_session_def\<close>)
  moreover have "apply_skip E b skip (start_session n) = Inr skip" using assms(3) by (simp add: apply_skip_def start_session_def)
  ultimately show ?thesis
    by (auto simp: push_next_block_def in_session_def apply_block_def nbind_def query_def with_skip_flags_def)
qed

lemma push_block_accepts:
  assumes "apply_block_state E (nd_producing n) (nd_max_undo n) skip b (nd_state n) = Inr d" "has_flag skip skip_block_log" "has_flag skip skip_fork_db"
    and "nd_checkpoints n = []" "\<not> nd_session n"
  shows "\<exists>n'. push_block E b skip n = (Inr False, n')"
proof -
  have c: "cleared skip n = n\<lparr>nd_skip := skip, nd_pending := []\<rparr>" using assms(5) by (simp add: cleared_def reset_session_def)
  have "\<exists>m. push_next_block E b skip (cleared skip n) = (Inr False, m)"
    by (rule push_next_block_accepts) (use assms in \<open>simp_all add: c\<close>)
  then show ?thesis using assms(3) by (auto simp: push_block_unfold push_block_steps_def c Let_def)
qed

lemma sample_flags: "has_flag sample_skip skip_block_log" "has_flag sample_skip skip_fork_db"
  by (simp_all add: has_flag_def)

lemma quiet_block_pushed: "\<exists>n'. push_block sample_env quiet_block sample_skip (sample_node quiet_chain) = (Inr False, n')"
  using quiet_block_applies push_block_accepts [OF _ sample_flags, of sample_env "sample_node quiet_chain" quiet_block] by (auto simp: sample_node_def)


lemma sample_transaction_pushed:
  "\<exists>n'. push_transaction sample_env sample_transaction 0x263 (sample_node sample_chain) = (Inr (), n')"
proof -
  let ?n = "(sample_node sample_chain)\<lparr>nd_producing := True, nd_skip := 0x263\<rparr>"
  obtain r m where m: "push_pending sample_env sample_transaction ?n = (r, m)" by (cases "push_pending sample_env sample_transaction ?n")
  have "session_ok ?n" by (simp add: session_ok_def sample_node_def)
  from push_pending_cases [OF this m] have "r = Inr ()" using sample_transaction_applies by (auto simp: sample_node_def)
  moreover have "fc_trx_pack_size (env_crypto sample_env) sample_transaction \<le> unat (gpo_maximum_block_size (gpo sample_chain) - 256)"
    by (simp add: sample_env_def sample_crypto_def sample_transaction_def sample_chain_def)
  ultimately show ?thesis using m by (simp add: push_transaction_def with_skip_flags_def sample_node_def)
qed


theorem node_follows_chain_witness:
  "\<exists>n'. push_transaction sample_env sample_transaction 0x263 (sample_node sample_chain) = (Inr (), n')
    \<and> block_chain sample_env sample_chain (head_state n')"
proof -
  obtain n' where n': "push_transaction sample_env sample_transaction 0x263 (sample_node sample_chain) = (Inr (), n')"
    using sample_transaction_pushed by blast
  have "(node_step sample_env sample_producer)\<^sup>*\<^sup>* (sample_node sample_chain) n'"
    using on_transaction [OF n'] by blast
  from node_follows_chain [OF this sample_node_ok(3)] show ?thesis using n' by blast
qed

lemma quiet_block_reversible: "leaves_reversible sample_env quiet_block sample_skip (sample_node quiet_chain) 21"
  unfolding leaves_reversible_def
proof (intro allI impI)
  fix s d1 d2
  assume d1: "apply_block_start sample_env (nd_producing (sample_node quiet_chain)) (nd_max_undo (sample_node quiet_chain)) s quiet_block
      (nd_state (sample_node quiet_chain)) = Inr d1" and d2: "advance_irreversible d1 = Inr d2"
  from yieldsD [OF apply_block_start_advanced [OF sample_env_ok] d1]
  have "head_block_num d1 = block_num (env_crypto sample_env) quiet_block" "gpo_last_irreversible_block_num (gpo d1) = 0"
    by (simp_all add: advanced_def sample_node_def quiet_chain_def empty_database_def default_gpo_def)
  moreover have "block_num (env_crypto sample_env) quiet_block = 1"
    by (simp add: block_num_def num_from_id_def sample_env_def sample_crypto_def quiet_block_def null_id_def)
  ultimately show "uint (gpo_last_irreversible_block_num (gpo d2)) < 21"
    using d2 by (auto simp: advance_irreversible_def)
qed

theorem block_can_be_undone_witness:
  "\<exists>n'. push_next_block sample_env quiet_block sample_skip (sample_node quiet_chain) = (Inr False, n')
    \<and> nd_state (undo_session n') = quiet_chain"
proof -
  obtain n' where n': "push_next_block sample_env quiet_block sample_skip (sample_node quiet_chain) = (Inr False, n')"
    using quiet_block_applies push_next_block_accepts [OF _ sample_flags(1), of sample_env "sample_node quiet_chain" quiet_block] by (auto simp: sample_node_def)
  have "leaves_reversible sample_env quiet_block sample_skip (sample_node quiet_chain) (nd_revision (sample_node quiet_chain) + 1)"
    using quiet_block_reversible by (simp add: sample_node_def)
  from block_can_be_undone [OF sample_node_ok(4) n' this] show ?thesis using n' by (simp add: sample_node_def)
qed

lemma quiet_block_generated:
  "\<exists>n'. generate_block sample_env sample_producer 102 ''wls'' 0 sample_skip (sample_node quiet_chain) = (Inr quiet_block, n')"
proof -
  let ?n = "(sample_node quiet_chain)\<lparr>nd_skip := sample_skip\<rparr>"
  have w: "get_witness ''wls'' quiet_chain = Inr (0, default_witness\<lparr>wit_owner := ''wls'', wit_schedule := top19\<rparr>)"
    by (simp add: get_witness_def tbl_get_by_def tbl_find_by_def quiet_chain_def)
  have h: "hpo quiet_chain = default_hardfork_property" "head_block_id quiet_chain = null_id"
    by (simp_all add: quiet_chain_def empty_database_def head_block_id_def default_gpo_def)
  have "may_produce sample_env sample_producer 102 ''wls'' 0 ?n = Inr ()" by code_simp
  moreover have "collect_transactions sample_env sample_producer 102 ?n = ([], ?n)"
    using collect_transactions_result [of sample_env sample_producer 102 ?n] by (auto simp: sample_node_def reset_session_def)
  moreover have "assemble_block sample_env 102 ''wls'' 0 [] ?n = Inr quiet_block"
    by (simp add: assemble_block_def Let_def sample_node_def w h hardfork_extensions_def version_extensions_def default_witness_def
        default_hardfork_property_def quiet_block_def calculate_merkle_root_def sample_env_def sample_crypto_def has_flag_def)
  moreover have "\<exists>m. push_block sample_env quiet_block sample_skip ?n = (Inr False, m)"
    using quiet_block_applies push_block_accepts [OF _ sample_flags, of sample_env ?n quiet_block] by (auto simp: sample_node_def)
  ultimately show ?thesis by (auto simp: generate_block_def with_skip_flags_def nbind_def query_def nreturn_def)
qed

theorem generated_block_witness:
  "\<exists>n'. generate_block sample_env sample_producer 102 ''wls'' 0 sample_skip (sample_node quiet_chain) = (Inr quiet_block, n')
    \<and> previous quiet_block = head_block_id quiet_chain \<and> get_scheduled_witness (get_slot_at_time 102 quiet_chain) quiet_chain = Inr ''wls''"
proof -
  obtain n' where n': "generate_block sample_env sample_producer 102 ''wls'' 0 sample_skip (sample_node quiet_chain)
      = (Inr quiet_block, n')" using quiet_block_generated by blast
  from generated_block [OF sample_node_ok(1) n'] show ?thesis using n' sample_node_ok(2) by (auto simp: sample_node_def)
qed

end
