(* ===== verification/Witness_Plugin.thy ===== *)
theory Witness_Plugin
  imports Node_Runs
begin

text \<open>
  The witness plugin (\<open>libraries/plugins/witness\<close>): the bandwidth that accounts may use when a node
  produces blocks, the soft limits on operations, and the production of blocks in the slots of the
  witnesses of this node.  The plugin keeps its objects in tables of its own; the signals that call it
  are \<open>on_pre_apply_transaction\<close>, \<open>pre_apply_operation\<close> and \<open>applied_block\<close> of the chain database.
\<close>

section \<open>Objects\<close>

datatype bandwidth_type = post | forum | market

record account_bandwidth_object =
  abo_account :: account_name_type
  abo_type :: bandwidth_type
  abo_average_bandwidth :: int
  abo_lifetime_bandwidth :: int
  abo_last_bandwidth_update :: time_point_sec

record content_edit_lock_object =
  elo_account :: account_name_type
  elo_lock_time :: time_point_sec

record reserve_ratio_object =
  rro_average_block_size :: int
  rro_current_reserve_ratio :: int
  rro_max_virtual_bandwidth :: u128

record witness_tables =
  bandwidths :: "account_bandwidth_object table"
  edit_locks :: "content_edit_lock_object table"
  reserve_ratios :: "reserve_ratio_object table"

definition no_witness_tables :: witness_tables where
  "no_witness_tables = \<lparr>bandwidths = empty_table, edit_locks = empty_table, reserve_ratios = empty_table\<rparr>"

definition key_bandwidth :: "account_bandwidth_object \<Rightarrow> account_name_type \<times> bandwidth_type" where
  "key_bandwidth b = (abo_account b, abo_type b)"

section \<open>The reserve ratio\<close>

abbreviation (input) RESERVE_RATIO_PRECISION :: "'a::numeral" where "RESERVE_RATIO_PRECISION \<equiv> 10000"
abbreviation (input) RESERVE_RATIO_MIN_INCREMENT :: "'a::numeral" where "RESERVE_RATIO_MIN_INCREMENT \<equiv> 5000"
abbreviation (input) DISTANCE_CALC_PRECISION :: "'a::numeral" where "DISTANCE_CALC_PRECISION \<equiv> 10000"

text \<open>
  The product of the two \<open>int\<close> constants does not fit in 32 bits and wraps around.
\<close>

definition initial_reserve_ratio :: reserve_ratio_object where
  "initial_reserve_ratio = \<lparr>rro_average_block_size = 0,
     rro_current_reserve_ratio = WLS_MAX_RESERVE_RATIO * RESERVE_RATIO_PRECISION,
     rro_max_virtual_bandwidth = to_u128 (sint (word_of_int (WLS_MAX_BLOCK_SIZE * WLS_MAX_RESERVE_RATIO) :: 32 word))
       * WLS_BANDWIDTH_PRECISION * WLS_BANDWIDTH_AVERAGE_WINDOW_SECONDS div WLS_BLOCK_INTERVAL\<rparr>"

text \<open>The sum is taken in 64 unsigned bits, because the size of a block is a \<open>size_t\<close>.\<close>

definition average_block_size :: "int \<Rightarrow> nat \<Rightarrow> int" where
  "average_block_size average block_size = sint (ucast ((word_of_int (99 * average) + of_nat block_size :: u64) div 100) :: 32 word)"

definition usage_distance :: "int \<Rightarrow> int \<Rightarrow> int" where
  "usage_distance average max_block_size =
     tdiv ((average - tdiv max_block_size 4) * DISTANCE_CALC_PRECISION) (tdiv max_block_size 4)"

definition adjust_reserve_ratio :: "int \<Rightarrow> int \<Rightarrow> int" where
  "adjust_reserve_ratio distance ratio =
     (if distance > 0 then
        let ratio = ratio - tdiv (ratio * distance) (distance + DISTANCE_CALC_PRECISION)
        in if ratio < RESERVE_RATIO_PRECISION then RESERVE_RATIO_PRECISION else ratio
      else
        let ratio = ratio + max RESERVE_RATIO_MIN_INCREMENT (tdiv (ratio * distance) (distance - DISTANCE_CALC_PRECISION))
        in if ratio > WLS_MAX_RESERVE_RATIO * RESERVE_RATIO_PRECISION then WLS_MAX_RESERVE_RATIO * RESERVE_RATIO_PRECISION else ratio)"

definition max_virtual_bandwidth :: "int \<Rightarrow> int \<Rightarrow> u128" where
  "max_virtual_bandwidth max_block_size ratio =
     to_u128 max_block_size * to_u128 ratio * (WLS_BANDWIDTH_PRECISION * WLS_BANDWIDTH_AVERAGE_WINDOW_SECONDS)
       div (WLS_BLOCK_INTERVAL * RESERVE_RATIO_PRECISION)"

definition update_reserve_ratio :: "database \<Rightarrow> nat \<Rightarrow> reserve_ratio_object \<Rightarrow> reserve_ratio_object result" where
  "update_reserve_ratio d block_size r =
     (let max_block_size = uint (gpo_maximum_block_size (gpo d));
          r = r\<lparr>rro_average_block_size := average_block_size (rro_average_block_size r) block_size\<rparr>
      in if head_block_num d mod 20 = 0 then
           if tdiv max_block_size 4 = 0 then Inl divide_by_zero_exception
           else
             let distance = usage_distance (rro_average_block_size r) max_block_size;
                 r = r\<lparr>rro_current_reserve_ratio := adjust_reserve_ratio distance (rro_current_reserve_ratio r)\<rparr>
             in Inr (r\<lparr>rro_max_virtual_bandwidth := max_virtual_bandwidth max_block_size (rro_current_reserve_ratio r)\<rparr>)
         else Inr r)"

definition plugin_on_block :: "fc_crypto \<Rightarrow> database \<Rightarrow> signed_block \<Rightarrow> witness_tables \<Rightarrow> witness_tables result" where
  "plugin_on_block C d b t =
     (case map_of (rows (reserve_ratios t)) 0 of
        None \<Rightarrow> Inr (t\<lparr>reserve_ratios := snd (tbl_create_id initial_reserve_ratio (reserve_ratios t))\<rparr>)
      | Some _ \<Rightarrow> ebind (tbl_modify_id 0 (update_reserve_ratio d (fc_pack_size C b)) (reserve_ratios t)) (\<lambda>r.
          Inr (t\<lparr>reserve_ratios := r\<rparr>)))"

section \<open>Bandwidth\<close>

definition find_bandwidth :: "account_name_type \<Rightarrow> bandwidth_type \<Rightarrow> witness_tables \<Rightarrow> (int \<times> account_bandwidth_object) option" where
  "find_bandwidth name type t = tbl_find_by (\<lambda>b. abo_account b = name \<and> abo_type b = type) (bandwidths t)"

definition decayed_bandwidth :: "fc_lib \<Rightarrow> int \<Rightarrow> int \<Rightarrow> int result" where
  "decayed_bandwidth F delta_time average =
     (if delta_time > WLS_BANDWIDTH_AVERAGE_WINDOW_SECONDS then Inr 0
      else ebind (fc_to_uint64 F (to_u128 (WLS_BANDWIDTH_AVERAGE_WINDOW_SECONDS - delta_time) * to_u128 average
             div WLS_BANDWIDTH_AVERAGE_WINDOW_SECONDS)) (\<lambda>v. Inr (sint v)))"

definition use_bandwidth :: "fc_lib \<Rightarrow> time_point_sec \<Rightarrow> int \<Rightarrow> account_bandwidth_object \<Rightarrow> account_bandwidth_object result" where
  "use_bandwidth F now trx_bandwidth b =
     ebind (decayed_bandwidth F (time_diff now (abo_last_bandwidth_update b)) (abo_average_bandwidth b)) (\<lambda>old.
     ebind (fc_add F old trx_bandwidth) (\<lambda>new_bandwidth.
     ebind (fc_add F (abo_lifetime_bandwidth b) trx_bandwidth) (\<lambda>lifetime.
     Inr (b\<lparr>abo_average_bandwidth := new_bandwidth, abo_lifetime_bandwidth := lifetime, abo_last_bandwidth_update := now\<rparr>))))"

definition has_bandwidth :: "database \<Rightarrow> account_object \<Rightarrow> reserve_ratio_object \<Rightarrow> account_bandwidth_object \<Rightarrow> bool" where
  "has_bandwidth d a r b \<longleftrightarrow>
     to_u128 (amount (acc_vesting_shares a)) * rro_max_virtual_bandwidth r
       > to_u128 (abo_average_bandwidth b) * to_u128 (amount (gpo_total_vesting_shares (gpo d)))"

definition update_account_bandwidth :: "fc_lib \<Rightarrow> bool \<Rightarrow> database \<Rightarrow> account_object \<Rightarrow> u32 \<Rightarrow> bandwidth_type
    \<Rightarrow> witness_tables \<Rightarrow> witness_tables result" where
  "update_account_bandwidth F producing d a trx_size type t =
     (if amount (gpo_total_vesting_shares (gpo d)) > 0 then
        ebind (case find_bandwidth (acc_name a) type t of
             Some (i, _) \<Rightarrow> Inr (i, bandwidths t)
           | None \<Rightarrow> tbl_create key_bandwidth \<lparr>abo_account = acc_name a, abo_type = type, abo_average_bandwidth = 0,
                abo_lifetime_bandwidth = 0, abo_last_bandwidth_update = 0\<rparr> (bandwidths t)) (\<lambda>(band, bs).
        ebind (tbl_modify key_bandwidth band (use_bandwidth F (head_block_time d) (uint trx_size * WLS_BANDWIDTH_PRECISION)) bs) (\<lambda>bs.
        ebind (tbl_get band bs) (\<lambda>b.
        ebind (tbl_get 0 (reserve_ratios t)) (\<lambda>r.
        wls_assert (producing \<longrightarrow> has_bandwidth d a r b) plugin_exception (Inr (t\<lparr>bandwidths := bs\<rparr>))))))
      else Inr t)"

definition charge_account :: "fc_lib \<Rightarrow> bool \<Rightarrow> database \<Rightarrow> nat \<Rightarrow> operation list \<Rightarrow> account_name_type
    \<Rightarrow> witness_tables \<Rightarrow> witness_tables result" where
  "charge_account F producing d trx_size ops auth t =
     ebind (get_account auth d) (\<lambda>(_, acnt).
     ebind (update_account_bandwidth F producing d acnt (of_nat trx_size) forum t) (\<lambda>t.
     if \<exists>op\<in>set ops. is_market_operation op
     then update_account_bandwidth F producing d acnt (of_nat (trx_size * 10)) market t
     else Inr t))"

definition pre_transaction :: "fc_lib \<Rightarrow> fc_crypto \<Rightarrow> bool \<Rightarrow> database \<Rightarrow> signed_transaction \<Rightarrow> witness_tables \<Rightarrow> witness_tables result" where
  "pre_transaction F C producing d trx t =
     (let r = get_required_authorities (operations trx);
          required = flat_insert_all (req_posting r) (flat_insert_all (req_owner r) (req_active r));
          trx_size = fc_trx_pack_size C trx
      in efold (charge_account F producing d trx_size (operations trx)) required t)"

section \<open>Limits on operations\<close>

text \<open>
  The keys that a memo may reveal: \<open>extended_private_key::from_base58\<close> may throw, and a password gives
  the public key of the private key that is made from the hash of a seed.
\<close>

record memo_lib =
  base58_public_key :: "string \<Rightarrow> public_key_type result"
  seed_public_key :: "string \<Rightarrow> public_key_type"

definition memo_keys :: "memo_lib \<Rightarrow> account_name_type \<Rightarrow> string \<Rightarrow> public_key_type list result" where
  "memo_keys L name memo =
     ebind (case base58_public_key L memo of
          Inr k \<Rightarrow> Inr [k]
        | Inl e \<Rightarrow> if e = parse_error_exception \<or> e = assert_exception then Inr [] else Inl e) (\<lambda>keys.
     Inr (keys @ [seed_public_key L (name @ ''owner'' @ memo), seed_public_key L (name @ ''active'' @ memo),
       seed_public_key L (name @ ''posting'' @ memo)]))"

definition check_memo :: "memo_lib \<Rightarrow> string \<Rightarrow> account_object \<Rightarrow> account_authority_object \<Rightarrow> unit result" where
  "check_memo L memo account auth =
     ebind (memo_keys L (acc_name account) memo) (\<lambda>keys.
     wls_assert (\<forall>p\<in>set (key_auths (aut_owner auth)). \<forall>k\<in>set keys. fst p \<noteq> k) plugin_exception
     (wls_assert (\<forall>p\<in>set (key_auths (aut_active auth)). \<forall>k\<in>set keys. fst p \<noteq> k) plugin_exception
     (wls_assert (\<forall>p\<in>set (key_auths (aut_posting auth)). \<forall>k\<in>set keys. fst p \<noteq> k) plugin_exception
     (wls_assert (\<forall>k\<in>set keys. acc_memo_key account \<noteq> k) plugin_exception (Inr ())))))"

definition check_comment_options :: "database \<Rightarrow> comment_options_operation \<Rightarrow> unit result" where
  "check_comment_options d op =
     ebind (get_comment (cop_author op) (cop_permlink op) d) (\<lambda>_.
     efold (\<lambda>beneficiaries _. wls_assert (length beneficiaries \<le> 8) plugin_exception (Inr ())) (cop_extensions op) ())"

definition check_comment :: "database \<Rightarrow> witness_tables \<Rightarrow> comment_operation \<Rightarrow> unit result" where
  "check_comment d t op =
     ebind (if cmo_parent_author op \<noteq> WLS_ROOT_POST_PARENT then
              case find_comment (cmo_parent_author op) (cmo_parent_permlink op) d of
                None \<Rightarrow> Inr ()
              | Some (_, parent) \<Rightarrow> wls_assert (com_depth parent < WLS_SOFT_MAX_COMMENT_DEPTH) plugin_exception (Inr ())
            else Inr ()) (\<lambda>_.
     case find_comment (cmo_author op) (cmo_permlink op) d of
       None \<Rightarrow> Inr ()
     | Some (_, c) \<Rightarrow>
         if com_cashout_time c = time_maximum then
           wls_assert (case tbl_find_by (\<lambda>l. elo_account l = cmo_author op) (edit_locks t) of
               None \<Rightarrow> False
             | Some (_, edit_lock) \<Rightarrow> head_block_time d < elo_lock_time edit_lock) plugin_exception (Inr ())
         else Inr ())"

definition check_transfer :: "memo_lib \<Rightarrow> database \<Rightarrow> transfer_operation \<Rightarrow> unit result" where
  "check_transfer L d op =
     (if length (tro_memo op) > 0 then
        ebind (get_account (tro_from op) d) (\<lambda>(_, a).
        ebind (get_authority (tro_from op) d) (\<lambda>(_, auth).
        check_memo L (tro_memo op) a auth))
      else Inr ())"

fun check_operation :: "memo_lib \<Rightarrow> database \<Rightarrow> witness_tables \<Rightarrow> operation \<Rightarrow> unit result" where
  "check_operation L d t (CommentOptions op) = check_comment_options d op"
| "check_operation L d t (Comment op) = check_comment d t op"
| "check_operation L d t (Transfer op) = check_transfer L d op"
| "check_operation L d t _ = Inr ()"

definition pre_operation :: "memo_lib \<Rightarrow> bool \<Rightarrow> database \<Rightarrow> witness_tables \<Rightarrow> operation \<Rightarrow> unit result" where
  "pre_operation L producing d t op = (if producing then check_operation L d t op else Inr ())"

record enable_content_editing_operation =
  eco_account :: account_name_type
  eco_relock_time :: time_point_sec

definition enable_content_editing_validate :: "enable_content_editing_operation \<Rightarrow> unit result" where
  "enable_content_editing_validate op = validate_account_name (eco_account op) (Inr ())"

definition enable_content_editing_do_apply :: "enable_content_editing_operation \<Rightarrow> witness_tables \<Rightarrow> witness_tables result" where
  "enable_content_editing_do_apply op t =
     (case tbl_find_by (\<lambda>l. elo_account l = eco_account op) (edit_locks t) of
        None \<Rightarrow> ebind (tbl_create elo_account \<lparr>elo_account = eco_account op, elo_lock_time = eco_relock_time op\<rparr> (edit_locks t)) (\<lambda>(_, l).
          Inr (t\<lparr>edit_locks := l\<rparr>))
      | Some (i, _) \<Rightarrow> ebind (tbl_modify elo_account i (\<lambda>l. Inr (l\<lparr>elo_lock_time := eco_relock_time op\<rparr>)) (edit_locks t)) (\<lambda>l.
          Inr (t\<lparr>edit_locks := l\<rparr>)))"

section \<open>Block production\<close>

datatype block_production_condition = produced | not_synced | not_my_turn | not_time_yet | no_private_key | low_participation
  | lag | consecutive | wait_for_genesis | exception_producing_block

record witness_plugin =
  wp_production_enabled :: bool
  wp_required_witness_participation :: u32
  wp_production_skip_flags :: u32
  wp_private_keys :: "(public_key_type \<times> private_key_type) list"
  wp_witnesses :: "account_name_type list"

text \<open>Times of the clock are microseconds since the epoch.\<close>

definition next_wakeup :: "int \<Rightarrow> int" where
  "next_wakeup now =
     (let time_to_next_second = 1000000 - tmod now 1000000;
          time_to_next_second = (if time_to_next_second < 50000 then time_to_next_second + 1000000 else time_to_next_second)
      in now + time_to_next_second)"

primrec produce_attempts :: "nat \<Rightarrow> (node \<Rightarrow> signed_block result \<times> node) \<Rightarrow> block_production_condition step" where
  "produce_attempts 0 generate n = (Inr exception_producing_block, n)"
| "produce_attempts (Suc retries) generate n = (case generate n of
     (Inr block, n) \<Rightarrow> (Inr produced, n)
   | (Inl e, n) \<Rightarrow> nbind clear_pending (\<lambda>_. produce_attempts retries generate) n)"

definition produce_in_slot :: "chain_env \<Rightarrow> producer_lib \<Rightarrow> time_point_sec \<Rightarrow> u32 \<Rightarrow> witness_plugin \<Rightarrow> block_production_condition step" where
  "produce_in_slot E P now slot w n =
     (let d = nd_state n in
      case get_scheduled_witness slot d of
        Inl e \<Rightarrow> (Inl e, n)
      | Inr scheduled_witness \<Rightarrow>
          if scheduled_witness \<notin> set (wp_witnesses w) then (Inr not_my_turn, n)
          else case find_witness scheduled_witness d of
            None \<Rightarrow> (Inl null_pointer, n)
          | Some (_, itr) \<Rightarrow>
              let scheduled_time = get_slot_time slot d in
              case map_of (wp_private_keys w) (wit_signing_key itr) of
                None \<Rightarrow> (Inr no_private_key, n)
              | Some private_key \<Rightarrow>
                  if witness_participation_rate d < wp_required_witness_participation w then (Inr low_participation, n)
                  else if \<bar>time_diff scheduled_time now * 1000000\<bar> > 500000 then (Inr lag, n)
                  else produce_attempts 2 (generate_block E P scheduled_time scheduled_witness private_key (wp_production_skip_flags w)) n)"

definition maybe_produce_block :: "chain_env \<Rightarrow> producer_lib \<Rightarrow> int \<Rightarrow> witness_plugin \<times> node
    \<Rightarrow> block_production_condition result \<times> witness_plugin \<times> node" where
  "maybe_produce_block E P now_fine = (\<lambda>(w, n).
     let now = word_of_int ((now_fine + 500000) div 1000000) :: time_point_sec; d = nd_state n in
     if \<not> wp_production_enabled w \<and> \<not> get_slot_time 1 d \<ge> now then (Inr not_synced, w, n)
     else
       let w = w\<lparr>wp_production_enabled := True\<rparr>; slot = get_slot_at_time now d in
       if slot = 0 then (Inr not_time_yet, w, n)
       else if \<not> now > head_block_time d then (Inl assert_exception, w, n)
       else let (r, n) = produce_in_slot E P now slot w n in (r, w, n))"

definition block_production_loop :: "chain_env \<Rightarrow> producer_lib \<Rightarrow> int \<Rightarrow> int \<Rightarrow> witness_plugin \<times> node
    \<Rightarrow> block_production_condition result \<times> witness_plugin \<times> node" where
  "block_production_loop E P now now_fine s =
     (if now < uint WLS_GENESIS_TIME * 1000000 then (Inr wait_for_genesis, s)
      else case maybe_produce_block E P now_fine s of
        (Inr result, s) \<Rightarrow> (Inr result, s)
      | (Inl e, s) \<Rightarrow> if e \<in> {unknown_hardfork_exception, divide_by_zero_exception, out_of_range, null_pointer} then (Inl e, s)
          else (Inr exception_producing_block, s))"

definition plugin_startup :: "witness_plugin \<Rightarrow> witness_plugin" where
  "plugin_startup w =
     (if wp_witnesses w \<noteq> [] \<and> wp_production_enabled w
      then w\<lparr>wp_production_skip_flags := wp_production_skip_flags w OR skip_undo_history_check\<rparr> else w)"

section \<open>The reserve ratio stays in its range\<close>

definition ratio_ok :: "reserve_ratio_object \<Rightarrow> bool" where
  "ratio_ok r \<longleftrightarrow> 0 \<le> rro_average_block_size r \<and> rro_average_block_size r \<le> WLS_SOFT_MAX_BLOCK_SIZE
     \<and> RESERVE_RATIO_PRECISION \<le> rro_current_reserve_ratio r
     \<and> rro_current_reserve_ratio r \<le> WLS_MAX_RESERVE_RATIO * RESERVE_RATIO_PRECISION"

definition ratio_table :: "witness_tables \<Rightarrow> bool" where
  "ratio_table t \<longleftrightarrow> reserve_ratios t = empty_table \<or> (\<exists>r. reserve_ratios t = \<lparr>rows = [(0, r)], next_row_id = 1\<rparr> \<and> ratio_ok r)"

lemma average_block_size_exact:
  assumes "0 \<le> a" "a \<le> 2097152" "m \<le> 2097152"
  shows "average_block_size a m = (99 * a + int m) div 100"
proof -
  define x where "x = 99 * a + int m"
  have x: "0 \<le> x" "x \<le> 209715200" using assms by (auto simp: x_def)
  have w: "(word_of_int (99 * a) + of_nat m :: u64) = word_of_int x" by (simp add: x_def)
  have "uint (word_of_int x :: u64) = x" using x by (simp add: uint_word_of_int)
  then have "uint ((word_of_int x :: u64) div 100) = x div 100" by (simp add: uint_div)
  moreover have "0 \<le> x div 100" "x div 100 < 2 ^ 31" using x by auto
  ultimately show ?thesis unfolding average_block_size_def w x_def [symmetric]
    by (simp add: sint_uint unsigned_ucast_eq take_bit_int_eq_self signed_take_bit_int_eq_self)
qed

lemma adjust_reserve_ratio_range:
  assumes "10000 \<le> ratio" "ratio \<le> 200000000" "- 10000 \<le> x"
  shows "10000 \<le> adjust_reserve_ratio x ratio \<and> adjust_reserve_ratio x ratio \<le> 200000000
    \<and> (0 < x \<longrightarrow> adjust_reserve_ratio x ratio \<le> ratio) \<and> (x \<le> 0 \<longrightarrow> ratio \<le> adjust_reserve_ratio x ratio)"
proof (cases "0 < x")
  case True
  then have "0 \<le> tdiv (ratio * x) (x + 10000)" using assms by (simp add: pos_imp_zdiv_nonneg_iff)
  then show ?thesis using True assms by (simp add: adjust_reserve_ratio_def Let_def)
next
  case False
  define y where "y = max 5000 (tdiv (ratio * x) (x - 10000))"
  have "5000 \<le> y" by (simp add: y_def)
  then show ?thesis using False assms unfolding adjust_reserve_ratio_def Let_def y_def [symmetric] by auto
qed

lemma usage_distance_range:
  assumes "0 \<le> a" "a \<le> 2097152" "65536 \<le> m" "m \<le> 2097152"
  shows "- 10000 \<le> usage_distance a m \<and> usage_distance a m \<le> 1280000 \<and> (0 < usage_distance a m \<longrightarrow> m div 4 < a)
    \<and> (2 * (m div 4) \<le> a \<longrightarrow> 10000 \<le> usage_distance a m)"
proof -
  define q where "q = m div 4"
  have q: "16384 \<le> q" using assms(3) by (simp add: q_def)
  have u: "usage_distance a m = tdiv ((a - q) * 10000) q" using assms(3) by (simp add: usage_distance_def q_def)
  show ?thesis
  proof (cases "q \<le> a")
    case True
    then have v: "usage_distance a m = (a - q) * 10000 div q" using q by (simp add: u)
    have "(a - q) * 10000 \<le> 1280000 * q" using assms(2) q by simp
    then have "(a - q) * 10000 div q \<le> 1280000 * q div q" using q by (intro zdiv_mono1) simp_all
    moreover have "0 \<le> (a - q) * 10000 div q" using True q by (simp add: pos_imp_zdiv_nonneg_iff)
    moreover have "10000 \<le> (a - q) * 10000 div q" if "2 * q \<le> a"
    proof -
      have "10000 * q \<le> (a - q) * 10000" using that by simp
      then have "10000 * q div q \<le> (a - q) * 10000 div q" using q by (intro zdiv_mono1) simp_all
      then show ?thesis using q by simp
    qed
    moreover have "a = q \<Longrightarrow> (a - q) * 10000 div q = 0" by simp
    ultimately show ?thesis using True q unfolding v q_def [symmetric] by fastforce
  next
    case False
    then have "usage_distance a m = - ((q - a) * 10000 div q)" using q by (simp add: u tdiv_def abs_mult)
    moreover have "(q - a) * 10000 div q \<le> 10000 * q div q" using q assms(1) by (intro zdiv_mono1) simp_all
    moreover have "0 \<le> (q - a) * 10000 div q" using False q by (simp add: pos_imp_zdiv_nonneg_iff)
    ultimately show ?thesis using False q unfolding q_def [symmetric] by simp
  qed
qed

lemma uint_word_exact: "0 \<le> x \<Longrightarrow> x < 2 ^ 128 \<Longrightarrow> uint (word_of_int x :: u128) = x"
  by (simp add: uint_word_of_int)

lemma max_virtual_bandwidth_exact:
  assumes "0 \<le> m" "m \<le> 2097152" "0 \<le> r" "r \<le> 200000000"
  shows "uint (max_virtual_bandwidth m r) = m * r * 604800000000 div 30000"
proof -
  have mr: "0 \<le> m * r" "m * r \<le> 2097152 * 200000000" using assms mult_mono [of m 2097152 r 200000000] by simp_all
  have "max_virtual_bandwidth m r = word_of_int (m * r * 604800000000) div 30000"
    by (simp add: max_virtual_bandwidth_def to_u128_def)
  moreover have "uint (word_of_int (m * r * 604800000000) :: u128) = m * r * 604800000000"
    using mr by (intro uint_word_exact) simp_all
  ultimately show ?thesis by (simp add: uint_div)
qed

lemma update_reserve_ratio_result:
  assumes "65536 \<le> uint (gpo_maximum_block_size (gpo d))" "uint (gpo_maximum_block_size (gpo d)) \<le> 2097152" "m \<le> 2097152" "ratio_ok r"
  shows "\<exists>r'. update_reserve_ratio d m r = Inr r' \<and> ratio_ok r'
    \<and> rro_average_block_size r' = (99 * rro_average_block_size r + int m) div 100
    \<and> (head_block_num d mod 20 = 0 \<longrightarrow> uint (rro_max_virtual_bandwidth r')
        = uint (gpo_maximum_block_size (gpo d)) * rro_current_reserve_ratio r' * 604800000000 div 30000)"
proof -
  let ?m = "uint (gpo_maximum_block_size (gpo d))"
  define a where "a = (99 * rro_average_block_size r + int m) div 100"
  have r: "0 \<le> rro_average_block_size r" "rro_average_block_size r \<le> 2097152" "10000 \<le> rro_current_reserve_ratio r"
    "rro_current_reserve_ratio r \<le> 200000000" using assms(4) by (simp_all add: ratio_ok_def)
  have a: "average_block_size (rro_average_block_size r) m = a" "0 \<le> a" "a \<le> 2097152"
    using average_block_size_exact [OF r(1,2) assms(3)] r(1,2) assms(3) by (simp_all add: a_def)
  define q where "q = adjust_reserve_ratio (usage_distance a ?m) (rro_current_reserve_ratio r)"
  have q: "10000 \<le> q" "q \<le> 200000000"
    using adjust_reserve_ratio_range [OF r(3,4)] usage_distance_range [OF a(2,3) assms(1,2)] by (simp_all add: q_def)
  have "?m div 4 \<noteq> 0" using assms(1) by simp
  then show ?thesis
    using a q r max_virtual_bandwidth_exact [of ?m q] assms(2) by (auto simp: update_reserve_ratio_def Let_def ratio_ok_def a_def [symmetric] q_def [symmetric])
qed

text \<open>
  (C34) The reserve ratio of the witness plugin: as long as blocks have the sizes that witnesses may vote
  for, \<open>on_block\<close> never fails, the average block size is the exponential average, and the ratio stays
  between 1 and \<open>WLS_MAX_RESERVE_RATIO\<close>, so that the 64-bit products never overflow; every 20 blocks
  the bandwidth of the chain is the block size times the ratio over a week, exactly.  It keeps one
  object and leaves the other tables alone.
\<close>

theorem reserve_ratio_bounded:
  assumes "ratio_table t" "WLS_MIN_BLOCK_SIZE_LIMIT \<le> uint (gpo_maximum_block_size (gpo d))"
    and "uint (gpo_maximum_block_size (gpo d)) \<le> WLS_SOFT_MAX_BLOCK_SIZE" "fc_pack_size C b \<le> WLS_SOFT_MAX_BLOCK_SIZE"
  shows "\<exists>t' r'. plugin_on_block C d b t = Inr t' \<and> t' = t\<lparr>reserve_ratios := \<lparr>rows = [(0, r')], next_row_id = 1\<rparr>\<rparr> \<and> ratio_ok r'
    \<and> (\<forall>r. reserve_ratios t = \<lparr>rows = [(0, r)], next_row_id = 1\<rparr> \<longrightarrow>
        rro_average_block_size r' = (99 * rro_average_block_size r + int (fc_pack_size C b)) div 100
        \<and> (head_block_num d mod 20 = 0 \<longrightarrow> uint (rro_max_virtual_bandwidth r')
            = uint (gpo_maximum_block_size (gpo d)) * rro_current_reserve_ratio r' * (WLS_BANDWIDTH_PRECISION * WLS_BANDWIDTH_AVERAGE_WINDOW_SECONDS)
              div (WLS_BLOCK_INTERVAL * RESERVE_RATIO_PRECISION)))
    \<and> in64 ((rro_average_block_size r' - uint (gpo_maximum_block_size (gpo d)) div 4) * DISTANCE_CALC_PRECISION)
    \<and> (\<forall>ratio. ratio \<le> WLS_MAX_RESERVE_RATIO * RESERVE_RATIO_PRECISION \<and> 0 \<le> ratio
        \<longrightarrow> in64 (ratio * usage_distance (rro_average_block_size r') (uint (gpo_maximum_block_size (gpo d)))))"
proof -
  let ?m = "uint (gpo_maximum_block_size (gpo d))"
  have range: "in64 ((rro_average_block_size r - ?m div 4) * 10000)
      \<and> (\<forall>ratio. ratio \<le> 200000000 \<and> 0 \<le> ratio \<longrightarrow> in64 (ratio * usage_distance (rro_average_block_size r) ?m))" if "ratio_ok r" for r
  proof -
    have a: "0 \<le> rro_average_block_size r" "rro_average_block_size r \<le> 2097152" using that by (simp_all add: ratio_ok_def)
    have d: "- 10000 \<le> usage_distance (rro_average_block_size r) ?m" "usage_distance (rro_average_block_size r) ?m \<le> 1280000"
      using usage_distance_range [OF a assms(2,3)] by blast+
    have "in64 (k * usage_distance (rro_average_block_size r) ?m)" if "k \<le> 200000000" "0 \<le> k" for k
      using mult_left_mono [OF d(1) that(2)] mult_left_mono [OF d(2) that(2)] that by (simp add: in64_def)
    moreover have "0 \<le> ?m div 4" "?m div 4 \<le> 2097152" using assms(2,3) by auto
    then have "in64 ((rro_average_block_size r - ?m div 4) * 10000)" using a unfolding in64_def by (simp add: left_diff_distrib)
    ultimately show ?thesis by blast
  qed
  from assms(1) consider "reserve_ratios t = empty_table" | r where "reserve_ratios t = \<lparr>rows = [(0, r)], next_row_id = 1\<rparr>" "ratio_ok r"
    by (auto simp: ratio_table_def)
  then show ?thesis
  proof cases
    case 1
    have "ratio_ok initial_reserve_ratio" by (simp add: ratio_ok_def initial_reserve_ratio_def)
    with range [OF this] show ?thesis using 1
      by (intro exI [of _ "t\<lparr>reserve_ratios := \<lparr>rows = [(0, initial_reserve_ratio)], next_row_id = 1\<rparr>\<rparr>"] exI [of _ initial_reserve_ratio])
         (simp add: plugin_on_block_def empty_table_def tbl_create_id_def)
  next
    case 2
    from update_reserve_ratio_result [OF assms(2-4) 2(2)] show ?thesis
      using 2(1) range by (auto simp: plugin_on_block_def tbl_modify_id_def map_assign_def)
  qed
qed

section \<open>Bandwidth is shared by vesting\<close>

definition bandwidth_ok :: "time_point_sec \<Rightarrow> account_bandwidth_object \<Rightarrow> bool" where
  "bandwidth_ok now b \<longleftrightarrow> 0 \<le> abo_average_bandwidth b \<and> abo_average_bandwidth b \<le> abo_lifetime_bandwidth b
     \<and> abo_lifetime_bandwidth b < 2 ^ 63 \<and> abo_last_bandwidth_update b \<le> now"

text \<open>What is left of the average after a time: it falls linearly to nothing within a week.\<close>

definition remaining :: "int \<Rightarrow> int \<Rightarrow> int" where
  "remaining delta average = (if delta > WLS_BANDWIDTH_AVERAGE_WINDOW_SECONDS then 0
     else (WLS_BANDWIDTH_AVERAGE_WINDOW_SECONDS - delta) * average div WLS_BANDWIDTH_AVERAGE_WINDOW_SECONDS)"

lemma remaining_range:
  assumes "0 \<le> x" "0 \<le> a"
  shows "0 \<le> remaining x a \<and> remaining x a \<le> a"
proof -
  have "(604800 - x) * a div 604800 \<le> 604800 * a div 604800" using assms by (intro zdiv_mono1 mult_right_mono) simp_all
  moreover have "0 \<le> (604800 - x) * a" if "x \<le> 604800" using that assms by simp
  ultimately show ?thesis using assms by (auto simp: remaining_def pos_imp_zdiv_nonneg_iff)
qed

context fc_env
begin

lemma decayed_bandwidth_exact:
  assumes "0 \<le> x" "0 \<le> a" "a < 2 ^ 63"
  shows "decayed_bandwidth F x a = Inr (remaining x a)"
proof (cases "604800 < x")
  case False
  let ?q = "to_u128 (604800 - x) * to_u128 a div 604800"
  have "604800 = to_u128 604800" by (simp add: to_u128_def)
  then have q: "uint ?q = remaining x a" using u128_muldiv [of "604800 - x" a 604800] False assms by (simp add: remaining_def)
  have r: "0 \<le> remaining x a" "remaining x a < 2 ^ 63" using remaining_range [OF assms(1,2)] assms(3) by auto
  then have "unat ?q < 2 ^ 64" using q by (simp add: unat_eq_nat_uint)
  then have "fc_to_uint64 F ?q = Inr (ucast ?q)" by simp
  then show ?thesis using False sint_ucast_u128 [of ?q] q r by (simp add: decayed_bandwidth_def)
qed (simp add: decayed_bandwidth_def remaining_def)

lemma use_bandwidth_result:
  assumes "use_bandwidth F now x b = Inr b'" "bandwidth_ok now b" "0 \<le> x"
  shows "bandwidth_ok now b' \<and> key_bandwidth b' = key_bandwidth b
    \<and> abo_average_bandwidth b' = remaining (time_diff now (abo_last_bandwidth_update b)) (abo_average_bandwidth b) + x
    \<and> abo_lifetime_bandwidth b' = abo_lifetime_bandwidth b + x"
proof -
  have t: "0 \<le> time_diff now (abo_last_bandwidth_update b)" using assms(2) by (simp add: bandwidth_ok_def time_diff_def word_le_def)
  have a: "0 \<le> abo_average_bandwidth b" "abo_average_bandwidth b < 2 ^ 63" using assms(2) by (simp_all add: bandwidth_ok_def)
  show ?thesis using assms remaining_range [OF t a(1)] unfolding use_bandwidth_def decayed_bandwidth_exact [OF t a]
    by (auto simp: bandwidth_ok_def key_bandwidth_def in64_def)
qed

lemma find_or_create_band:
  assumes "(case find_bandwidth name ty t of
             Some (i, _) \<Rightarrow> Inr (i, bandwidths t)
           | None \<Rightarrow> tbl_create key_bandwidth \<lparr>abo_account = name, abo_type = ty, abo_average_bandwidth = 0,
                abo_lifetime_bandwidth = 0, abo_last_bandwidth_update = 0\<rparr> (bandwidths t)) = Inr (i, bs)"
    and "table_ok (bandwidths t)" "tbl_all (bandwidth_ok now) (bandwidths t)"
  obtains b where "map_of (rows bs) i = Some b" "key_bandwidth b = (name, ty)" "table_ok bs" "tbl_all (bandwidth_ok now) bs"
    "\<forall>j. j \<noteq> i \<longrightarrow> map_of (rows bs) j = map_of (rows (bandwidths t)) j"
    "abo_average_bandwidth b = (case find_bandwidth name ty t of None \<Rightarrow> 0 | Some (_, old) \<Rightarrow> abo_average_bandwidth old)"
    "find_bandwidth name ty t \<noteq> None \<longrightarrow> find_bandwidth name ty t = Some (i, b)"
proof (cases "find_bandwidth name ty t")
  case None
  let ?b = "\<lparr>abo_account = name, abo_type = ty, abo_average_bandwidth = 0, abo_lifetime_bandwidth = 0, abo_last_bandwidth_update = 0\<rparr>"
  have c: "tbl_create key_bandwidth ?b (bandwidths t) = Inr (i, bs)" using assms(1) None by simp
  have "i \<notin> fst ` set (rows (bandwidths t))" using tbl_create_elim(1) [OF c] assms(2) by (auto simp: table_ok_def)
  then have "map_of (rows bs) = (map_of (rows (bandwidths t)))(i \<mapsto> ?b)"
    using tbl_create_elim(2) [OF c] by simp
  moreover have "bandwidth_ok now ?b" by (simp add: bandwidth_ok_def)
  ultimately show thesis
    using that [of ?b] None tbl_create_ok [OF c assms(2)] tbl_create_all [OF c assms(3)] by (simp add: key_bandwidth_def)
next
  case (Some p)
  obtain j old where p: "p = (j, old)" by (cases p)
  then have "abo_account old = name \<and> abo_type old = ty" "map_of (rows (bandwidths t)) j = Some old"
    using tbl_find_by_Some [OF Some [unfolded find_bandwidth_def p] assms(2)] by simp_all
  then show thesis using that [of old] assms Some p by (simp add: key_bandwidth_def)
qed

lemma update_account_bandwidth_result:
  assumes "update_account_bandwidth F producing d a trx_size ty t = Inr t'" "amount (gpo_total_vesting_shares (gpo d)) > 0"
    and "table_ok (bandwidths t)" "tbl_all (bandwidth_ok (head_block_time d)) (bandwidths t)"
  obtains i b r where "map_of (rows (bandwidths t')) i = Some b" "key_bandwidth b = (acc_name a, ty)"
    "abo_average_bandwidth b = (case find_bandwidth (acc_name a) ty t of None \<Rightarrow> 0
       | Some (_, old) \<Rightarrow> remaining (time_diff (head_block_time d) (abo_last_bandwidth_update old)) (abo_average_bandwidth old))
       + uint trx_size * 1000000"
    "t' = t\<lparr>bandwidths := bandwidths t'\<rparr>" "table_ok (bandwidths t')" "tbl_all (bandwidth_ok (head_block_time d)) (bandwidths t')"
    "\<forall>j. j \<noteq> i \<longrightarrow> map_of (rows (bandwidths t')) j = map_of (rows (bandwidths t)) j"
    "map_of (rows (reserve_ratios t)) 0 = Some r" "producing \<longrightarrow> has_bandwidth d a r b"
proof -
  let ?x = "uint trx_size * 1000000" let ?now = "head_block_time d"
  obtain i bs bs' b' r where c: "(case find_bandwidth (acc_name a) ty t of
             Some (i, _) \<Rightarrow> Inr (i, bandwidths t)
           | None \<Rightarrow> tbl_create key_bandwidth \<lparr>abo_account = acc_name a, abo_type = ty, abo_average_bandwidth = 0,
                abo_lifetime_bandwidth = 0, abo_last_bandwidth_update = 0\<rparr> (bandwidths t)) = Inr (i, bs)"
    and m: "tbl_modify key_bandwidth i (use_bandwidth F ?now ?x) bs = Inr bs'" and t': "t' = t\<lparr>bandwidths := bs'\<rparr>"
    and g: "tbl_get i bs' = Inr b'" "tbl_get 0 (reserve_ratios t) = Inr r" "producing \<longrightarrow> has_bandwidth d a r b'"
    using assms(1,2) unfolding update_account_bandwidth_def wls_assert_def by (auto split: if_splits)
  obtain b where b: "map_of (rows bs) i = Some b" "key_bandwidth b = (acc_name a, ty)" "table_ok bs" "tbl_all (bandwidth_ok ?now) bs"
    "\<forall>j. j \<noteq> i \<longrightarrow> map_of (rows bs) j = map_of (rows (bandwidths t)) j"
    "abo_average_bandwidth b = (case find_bandwidth (acc_name a) ty t of None \<Rightarrow> 0 | Some (_, old) \<Rightarrow> abo_average_bandwidth old)"
    "find_bandwidth (acc_name a) ty t \<noteq> None \<longrightarrow> find_bandwidth (acc_name a) ty t = Some (i, b)"
    using find_or_create_band [OF c assms(3,4)] .
  have b': "map_of (rows bs') = (map_of (rows bs))(i \<mapsto> b')" "use_bandwidth F ?now ?x b = Inr b'"
    using tbl_modify_sum [OF m b(3)] b(1) g(1) by (auto simp: tbl_get_def)
  have x: "0 \<le> ?x" by simp
  note u = use_bandwidth_result [OF b'(2) tbl_allD [OF b(4,1)] x]
  show thesis
  proof (rule that)
    show "map_of (rows (bandwidths t')) i = Some b'" by (simp add: t' b'(1))
    show "key_bandwidth b' = (acc_name a, ty)" using u b(2) by simp
    show "abo_average_bandwidth b' = (case find_bandwidth (acc_name a) ty t of None \<Rightarrow> 0
       | Some (_, old) \<Rightarrow> remaining (time_diff ?now (abo_last_bandwidth_update old)) (abo_average_bandwidth old)) + ?x"
      using u b(6,7) by (cases "find_bandwidth (acc_name a) ty t") (simp_all add: remaining_def)
    show "t' = t\<lparr>bandwidths := bandwidths t'\<rparr>" by (simp add: t')
    show "table_ok (bandwidths t')" using tbl_modify_ok [OF m b(3)] by (simp add: t')
    have "tbl_all (bandwidth_ok ?now) bs'" using m b(4) by (rule tbl_modify_all) (use use_bandwidth_result [OF _ _ x] in blast)
    then show "tbl_all (bandwidth_ok ?now) (bandwidths t')" by (simp add: t')
    show "\<forall>j. j \<noteq> i \<longrightarrow> map_of (rows (bandwidths t')) j = map_of (rows (bandwidths t)) j" using b(5) by (simp add: t' b'(1))
    show "map_of (rows (reserve_ratios t)) 0 = Some r" using g(2) by (simp add: tbl_get_def split: option.splits)
    show "producing \<longrightarrow> has_bandwidth d a r b'" by (rule g(3))
  qed
qed

end

text \<open>
  (C20) Bandwidth is rationed by vesting.  Charging a transaction to an account sets the average of the
  account to what is left of the old one, which falls to nothing within a week, plus the size of the
  transaction; no other record changes, and no average ever exceeds what the account used in its
  lifetime.  A node that produces a block accepts the transaction only if the account then uses less
  than the part of the bandwidth of the chain that its part of all vesting shares gives it.
\<close>

theorem bandwidth_is_rationed:
  assumes "fc_ok F" "update_account_bandwidth F producing d a trx_size ty t = Inr t'" "amount (gpo_total_vesting_shares (gpo d)) > 0"
    and "table_ok (bandwidths t)" "tbl_all (bandwidth_ok (head_block_time d)) (bandwidths t)"
  shows "\<exists>i b r. map_of (rows (bandwidths t')) i = Some b \<and> key_bandwidth b = (acc_name a, ty)
    \<and> abo_average_bandwidth b = (case find_bandwidth (acc_name a) ty t of None \<Rightarrow> 0
       | Some (_, old) \<Rightarrow> remaining (time_diff (head_block_time d) (abo_last_bandwidth_update old)) (abo_average_bandwidth old))
       + uint trx_size * WLS_BANDWIDTH_PRECISION
    \<and> t' = t\<lparr>bandwidths := bandwidths t'\<rparr> \<and> tbl_all (bandwidth_ok (head_block_time d)) (bandwidths t')
    \<and> (\<forall>j. j \<noteq> i \<longrightarrow> map_of (rows (bandwidths t')) j = map_of (rows (bandwidths t)) j)
    \<and> map_of (rows (reserve_ratios t)) 0 = Some r
    \<and> (producing \<and> 0 \<le> amount (acc_vesting_shares a) \<and> amount (acc_vesting_shares a) * uint (rro_max_virtual_bandwidth r) < 2 ^ 128
        \<and> amount (acc_vesting_shares a) < 2 ^ 63 \<and> amount (gpo_total_vesting_shares (gpo d)) < 2 ^ 63
        \<longrightarrow> abo_average_bandwidth b * amount (gpo_total_vesting_shares (gpo d))
            < amount (acc_vesting_shares a) * uint (rro_max_virtual_bandwidth r))"
proof -
  obtain i b r where R: "map_of (rows (bandwidths t')) i = Some b" "key_bandwidth b = (acc_name a, ty)"
    "abo_average_bandwidth b = (case find_bandwidth (acc_name a) ty t of None \<Rightarrow> 0
       | Some (_, old) \<Rightarrow> remaining (time_diff (head_block_time d) (abo_last_bandwidth_update old)) (abo_average_bandwidth old))
       + uint trx_size * 1000000"
    "t' = t\<lparr>bandwidths := bandwidths t'\<rparr>" "table_ok (bandwidths t')" "tbl_all (bandwidth_ok (head_block_time d)) (bandwidths t')"
    "\<forall>j. j \<noteq> i \<longrightarrow> map_of (rows (bandwidths t')) j = map_of (rows (bandwidths t)) j"
    "map_of (rows (reserve_ratios t)) 0 = Some r" "producing \<longrightarrow> has_bandwidth d a r b"
    using fc_env.update_account_bandwidth_result [OF fc_env.intro [OF assms(1)] assms(2-5)] .
  let ?v = "amount (acc_vesting_shares a)" let ?T = "amount (gpo_total_vesting_shares (gpo d))"
  have "abo_average_bandwidth b * ?T < ?v * uint (rro_max_virtual_bandwidth r)"
    if "producing" "0 \<le> ?v" "?v * uint (rro_max_virtual_bandwidth r) < 2 ^ 128" "?v < 2 ^ 63" "?T < 2 ^ 63"
  proof -
    have "bandwidth_ok (head_block_time d) b" using tbl_allD [OF R(6,1)] .
    then have "0 \<le> abo_average_bandwidth b" "abo_average_bandwidth b < 2 ^ 63" by (simp_all add: bandwidth_ok_def)
    then have "uint (to_u128 (abo_average_bandwidth b) * to_u128 ?T) = abo_average_bandwidth b * ?T"
      using uint_u128_mult assms(3) that(5) by simp
    moreover have "uint (to_u128 ?v * rro_max_virtual_bandwidth r) = ?v * uint (rro_max_virtual_bandwidth r)"
      using that(2-4) by (simp add: uint_word_ariths uint_to_u128)
    ultimately show ?thesis using R(9) that(1) by (simp add: has_bandwidth_def word_less_def)
  qed
  note limit = this
  show ?thesis
    by (intro exI conjI impI; (elim conjE)?; (rule limit R(1) R(2) R(3) R(4) R(6) R(7) R(8); assumption?)?)
qed

section \<open>Blocks are produced in their slots\<close>

lemma clear_pending_empty: "clear_pending n = (Inr x, n') \<Longrightarrow> nd_pending n' = []"
  by (auto simp: clear_pending_def reset_session_def undo_session_def split: if_splits list.splits)

lemma produce_attempts_produced:
  assumes "produce_attempts k generate n = (Inr produced, n')"
  shows "\<exists>n0 b. generate n0 = (Inr b, n') \<and> (n0 = n \<or> nd_pending n0 = [])"
  using assms
proof (induction k arbitrary: n)
  case (Suc k)
  obtain g m where g: "generate n = (g, m)" by (cases "generate n")
  show ?case
  proof (cases g)
    case (Inl e)
    then obtain x m' where m': "clear_pending m = (Inr x, m')" "produce_attempts k generate m' = (Inr produced, n')"
      using Suc.prems g by auto
    then show ?thesis using Suc.IH clear_pending_empty by blast
  next
    case (Inr b)
    then show ?thesis using Suc.prems g by auto
  qed
qed simp

lemma same_second: "\<not> \<bar>time_diff a b * 1000000\<bar> > 500000 \<longleftrightarrow> a = b"
  by (auto simp: time_diff_def word_uint_eq_iff abs_if)

lemma produce_in_slot_produced:
  assumes "produce_in_slot E P now slot w n = (Inr produced, n')"
  obtains owner i wit key n0 b where "get_scheduled_witness slot (nd_state n) = Inr owner" "owner \<in> set (wp_witnesses w)"
    "find_witness owner (nd_state n) = Some (i, wit)" "map_of (wp_private_keys w) (wit_signing_key wit) = Some key"
    "wp_required_witness_participation w \<le> witness_participation_rate (nd_state n)" "get_slot_time slot (nd_state n) = now"
    "generate_block E P now owner key (wp_production_skip_flags w) n0 = (Inr b, n')" "n0 = n \<or> nd_pending n0 = []"
proof -
  obtain owner i wit key where s: "get_scheduled_witness slot (nd_state n) = Inr owner" "owner \<in> set (wp_witnesses w)"
    "find_witness owner (nd_state n) = Some (i, wit)" "map_of (wp_private_keys w) (wit_signing_key wit) = Some key"
    and p: "\<not> witness_participation_rate (nd_state n) < wp_required_witness_participation w"
      "\<not> \<bar>time_diff (get_slot_time slot (nd_state n)) now * 1000000\<bar> > 500000"
    and a: "produce_attempts 2 (generate_block E P (get_slot_time slot (nd_state n)) owner key (wp_production_skip_flags w)) n = (Inr produced, n')"
    using assms unfolding produce_in_slot_def Let_def by (auto split: sum.splits option.splits if_splits simp del: produce_attempts.simps)
  from p(2) have t: "get_slot_time slot (nd_state n) = now" unfolding same_second .
  from produce_attempts_produced [OF a [unfolded t]] show thesis using that [OF s _ t] p(1) by auto
qed

lemma generated_block_header:
  assumes "generate_block E P when owner key skip n = (Inr b, n')"
  shows "timestamp b = when \<and> witness b = owner"
proof -
  obtain txs m where "assemble_block E when owner key txs m = Inr b" using generate_block_unfold [OF assms] .
  then show ?thesis by (auto simp: assemble_block_def Let_def sign_block_def split: if_splits)
qed


text \<open>The plugin wakes up at a full second, after at least 50 milliseconds and before 1.05 seconds have passed.\<close>

lemma next_wakeup_range:
  assumes "0 \<le> now"
  shows "50000 \<le> next_wakeup now - now \<and> next_wakeup now - now < 1050000 \<and> next_wakeup now mod 1000000 = 0"
  using assms pos_mod_bound [of 1000000 now] pos_mod_sign [of 1000000 now]
  by (auto simp: next_wakeup_def Let_def) presburger+

text \<open>A transfer that a producing node accepts does not reveal a key of the sender in its memo.\<close>

lemma memo_reveals_no_key:
  assumes "pre_operation L True d t (Transfer op) = Inr ()" "tro_memo op \<noteq> []"
  obtains i a j auth keys where "get_account (tro_from op) d = Inr (i, a)" "get_authority (tro_from op) d = Inr (j, auth)"
    "memo_keys L (acc_name a) (tro_memo op) = Inr keys" "acc_memo_key a \<notin> set keys"
    "set keys \<inter> fst ` set (key_auths (aut_owner auth) @ key_auths (aut_active auth) @ key_auths (aut_posting auth)) = {}"
proof -
  obtain i a j auth keys where r: "get_account (tro_from op) d = Inr (i, a)" "get_authority (tro_from op) d = Inr (j, auth)"
    "memo_keys L (acc_name a) (tro_memo op) = Inr keys" "check_memo L (tro_memo op) a auth = Inr ()"
    using assms by (auto simp: pre_operation_def check_transfer_def check_memo_def)
  then show thesis using that [OF r(1-3)] by (fastforce simp: check_memo_def wls_assert_def split: if_splits)
qed

text \<open>
  The first value of the bandwidth of the chain wraps around: it is less than one part in 33000 of what
  the formula gives, until the twentieth block replaces it.
\<close>

theorem initial_bandwidth_wraps:
  "33000 * uint (rro_max_virtual_bandwidth initial_reserve_ratio)
    < WLS_MAX_BLOCK_SIZE * WLS_MAX_RESERVE_RATIO * WLS_BANDWIDTH_PRECISION * WLS_BANDWIDTH_AVERAGE_WINDOW_SECONDS div WLS_BLOCK_INTERVAL"
  by code_simp

section \<open>Instances\<close>

definition sample_tables :: witness_tables where
  "sample_tables = \<lparr>bandwidths = \<lparr>rows = [(0, \<lparr>abo_account = ''alice'', abo_type = forum, abo_average_bandwidth = 604800, abo_lifetime_bandwidth = 700000,
       abo_last_bandwidth_update = 40\<rparr>)], next_row_id = 1\<rparr>,
     edit_locks = empty_table,
     reserve_ratios = \<lparr>rows = [(0, \<lparr>rro_average_block_size = 40000, rro_current_reserve_ratio = 30000, rro_max_virtual_bandwidth = 10 ^ 12\<rparr>)], next_row_id = 1\<rparr>\<rparr>"

definition sample_sizes :: database where
  "sample_sizes = sample_db\<lparr>gpo := (gpo sample_db)\<lparr>gpo_maximum_block_size := 131072\<rparr>\<rparr>"

theorem reserve_ratio_bounded_witness:
  "\<exists>t' r'. plugin_on_block sample_crypto sample_sizes sample_block sample_tables = Inr t' \<and> map_of (rows (reserve_ratios t')) 0 = Some r' \<and> ratio_ok r'"
proof -
  have t: "ratio_table sample_tables" by (simp add: ratio_table_def ratio_ok_def sample_tables_def)
  have "65536 \<le> uint (gpo_maximum_block_size (gpo sample_sizes))" "uint (gpo_maximum_block_size (gpo sample_sizes)) \<le> 2097152"
    "fc_pack_size sample_crypto sample_block \<le> 2097152" by (simp_all add: sample_sizes_def sample_crypto_def sample_block_def)
  from reserve_ratio_bounded [OF t this] show ?thesis by (elim exE conjE) (intro exI conjI, assumption, simp_all)
qed

theorem bandwidth_is_rationed_witness:
  "\<exists>t' i b. update_account_bandwidth fc_int64 True sample_db (snd (rows sample_accounts ! 1)) 200 forum sample_tables = Inr t'
    \<and> map_of (rows (bandwidths t')) i = Some b \<and> abo_average_bandwidth b = 200604740 \<and> 200604740 * 200000 < 130000 * (10::int) ^ 12"
proof -
  let ?a = "snd (rows sample_accounts ! 1)"
  have "\<not> isl (update_account_bandwidth fc_int64 True sample_db ?a 200 forum sample_tables)" by code_simp
  then obtain t' where t': "update_account_bandwidth fc_int64 True sample_db ?a 200 forum sample_tables = Inr t'"
    by (cases "update_account_bandwidth fc_int64 True sample_db ?a 200 forum sample_tables") auto
  have "amount (gpo_total_vesting_shares (gpo sample_db)) > 0" "table_ok (bandwidths sample_tables)"
    "tbl_all (bandwidth_ok (head_block_time sample_db)) (bandwidths sample_tables)"
    by (simp_all add: sample_db_def sample_tables_def table_ok_def tbl_all_def bandwidth_ok_def head_block_time_def)
  from bandwidth_is_rationed [OF fc_ok_int64 t' this] obtain i b where "map_of (rows (bandwidths t')) i = Some b"
    "abo_average_bandwidth b = (case find_bandwidth (acc_name ?a) forum sample_tables of None \<Rightarrow> 0
       | Some (_, old) \<Rightarrow> remaining (time_diff (head_block_time sample_db) (abo_last_bandwidth_update old)) (abo_average_bandwidth old))
       + uint (200 :: u32) * 1000000" by blast
  moreover have "(case find_bandwidth (acc_name ?a) forum sample_tables of None \<Rightarrow> 0
       | Some (_, old) \<Rightarrow> remaining (time_diff (head_block_time sample_db) (abo_last_bandwidth_update old)) (abo_average_bandwidth old))
       + uint (200 :: u32) * 1000000 = 200604740" by code_simp
  ultimately show ?thesis using t' by auto
qed

definition sample_plugin :: witness_plugin where
  "sample_plugin = \<lparr>wp_production_enabled = True, wp_required_witness_participation = 0, wp_production_skip_flags = sample_skip,
     wp_private_keys = [(0, 0)], wp_witnesses = [''wls'']\<rparr>"


end
