(* ===== verification/Spec2Isabelle.thy ===== *)
theory Spec2Isabelle
  imports Asset Asset_Text Chainbase Authority Version Config Operations Transaction Reward Table Database Balance Ledger
    Funds Evaluators Evaluator_Ledger Proxy Transfers Comments Payout Witness_Schedule
    Apply Chain_Invariants Genesis Block_State Blocks Fork_Database Block_Log Node Node_Runs Witness_Plugin
begin

text \<open>
  This is a verification library for the whaleshares (WLS) blockchain node.

  \<^bold>\<open>Structure of the program.\<close>  A node keeps the chain state in an in-memory object database with
  undo sessions (\<open>libraries/chainbase\<close>).  The protocol library (\<open>libraries/protocol\<close>) defines
  assets, authorities, operations, transactions and blocks.  The chain library (\<open>libraries/chain\<close>)
  decides which blocks and transactions are applied: new blocks enter a tree of recent blocks
  (\<open>fork_database.cpp\<close>), the longest branch is applied to the chain state, each block in an undo session
  of its own, irreversible blocks go to the block log (\<open>block_log.cpp\<close>), and pending transactions are
  applied on top of the head block until the next block arrives.  Applying a block checks its header,
  checks and applies each transaction, executes each operation by an evaluator (\<open>wls_evaluator.cpp\<close>), and
  then mints rewards, pays comments and withdrawals and schedules witnesses (\<open>database.cpp\<close>).

  \<^bold>\<open>Theories.\<close>
  \<^item> \<open>WLS_Prelude\<close>: results with exceptions and their proof rules, machine integers, the interface of the
    \<open>fc\<close> library.
  \<^item> \<open>Asset\<close>: \<open>asset.hpp\<close>, \<open>asset.cpp\<close>.  Price conversion in 128 bits is exact and never gains.
    \<open>Asset_Text\<close>: the decimal text form, which reads back what it prints for amounts that are not negative.
  \<^item> \<open>Chainbase\<close>: \<open>chainbase.hpp\<close>, \<open>generic_index\<close> with its undo stack.  The locale \<open>undo_store\<close>
    states what sessions promise; its interpretation shows it for the code's bookkeeping.
  \<^item> \<open>Authority\<close>: \<open>authority.cpp\<close>, \<open>sign_state.cpp\<close>.  The signature search is sound and complete.
  \<^item> \<open>Version\<close>: \<open>version.cpp\<close>; \<open>Config\<close>: the constants of \<open>config.hpp\<close> (live network).
  \<^item> \<open>Operations\<close>: \<open>wls_operations.hpp\<close>, \<open>wls_operations.cpp\<close>, \<open>operations.hpp\<close>.
  \<^item> \<open>Transaction\<close>: \<open>transaction.cpp\<close>, \<open>block.cpp\<close>.  Authorities are enforced; the in-place Merkle loop computes
    the tree root.
  \<^item> \<open>Reward\<close>: \<open>util/reward.cpp\<close>.
  \<^item> \<open>Table\<close>, \<open>Database\<close>: the tables of the chain database (a refinement of \<open>generic_index\<close>), their
    objects and lookups.
  \<^item> \<open>Balance\<close>, \<open>Ledger\<close>: the primitives of \<open>database.cpp\<close> that move tokens and votes, and the
    supply equations of \<open>validate_invariants\<close> (\<open>balanced\<close>).
  \<^item> \<open>Funds\<close>: inflation and vesting withdrawals; both keep the supply equations, the loops end.
  \<^item> \<open>Evaluators\<close>, \<open>Comments\<close>: \<open>wls_evaluator.cpp\<close>; \<open>Evaluator_Ledger\<close>, \<open>Proxy\<close>, \<open>Transfers\<close>: the evaluators keep
    the supply equations, proxies stay acyclic, transfers are exact.
  \<^item> \<open>Payout\<close>: comment payout, with conservation and termination.
  \<^item> \<open>Witness_Schedule\<close>: \<open>witness_schedule.cpp\<close> and the slot arithmetic of \<open>database.cpp\<close>.
  \<^item> \<open>Apply\<close>: applying operations and transactions, block headers, irreversibility and hardforks.
    \<open>Chain_Invariants\<close>: every operation keeps the invariants of the chain; \<open>Block_State\<close>: what changes the head.
    \<open>Blocks\<close>: \<open>_apply_block\<close> on the chain state; no transaction is applied twice, transactions conserve value, irreversibility
    takes a supermajority.
  \<^item> \<open>Genesis\<close>: \<open>init_genesis\<close> and the recomputation of votes and counters.  The first state of a chain exists and
    satisfies the invariants.
  \<^item> \<open>Fork_Database\<close>: the tree of recent blocks.  Weak pointers are addresses that resolve only while some owner
    holds the item; the climbs to a fork end because predecessors have smaller addresses.
  \<^item> \<open>Block_Log\<close>: the log and index files as lists of bytes; what is appended is read back.
  \<^item> \<open>Node\<close>: \<open>push_block\<close> with fork switches, \<open>push_transaction\<close>, \<open>generate_block\<close>, \<open>pop_block\<close>, sessions.
    \<open>Node_Runs\<close>: over any run the node's state is that of a chain of blocks with the pending transactions on top.
  \<^item> \<open>Witness_Plugin\<close>: \<open>plugins/witness\<close>, the rationing of bandwidth, the soft limits and the production of blocks in
    the slots of the witnesses of a node.

  \<^bold>\<open>Conventions.\<close>  A C++ exception is \<open>Inl\<close> with its class; at the level of the chain state the partial state
  of a failed call is dropped, because the session around it is always undone, while the steps of \<open>Node\<close>
  return the node together with the exception, because commits, log entries and fork blocks stay.
  Unsigned integers are words; \<open>share_type\<close> (\<open>fc::safe<int64_t>\<close>) is an integer with checked operations; an
  \<open>assert\<close> is a check.  References to objects are row ids.  Loops that the code bounds by data are
  recursive functions with fuel: the number of rows, of due intervals or the address of the head; the
  termination theorems show that the fuel is never used up.  Hashes, signatures, packing, the text patching
  library and the plugin interpreters of custom operations are parameters (\<open>fc_crypto\<close>, \<open>fc_raw\<close>, \<open>text_lib\<close>,
  \<open>interpreters\<close>), with their documented behaviour as hypotheses (\<open>crypto_ok\<close>, \<open>raw_ok\<close>, \<open>fc_ok\<close>, \<open>env_ok\<close>).

  \<^bold>\<open>Not modelled.\<close>  Opening and reindexing a database, shared memory and locks, and notifications; the peer-to-peer network, which rests on the
  sockets and fibers of a library that is not in the repository; the application, the API and the wallet, which
  read the chain state and relay calls; the other plugins, which observe the chain; word lists, key tools and
  program entry points.
\<close>

end
